(* ===== verification/Prelude.thy ===== *)
theory Prelude
  imports Main "HOL-Library.Word" "HOL-Library.Sublist"
begin

text \<open>
  Shared vocabulary of the development: the machine types of the C++ sources, the exceptions
  they raise, the outcome of an operation that may throw after having changed its object, and
  the generic facts on words, lists and prefixes that the component theories rely on.
\<close>

section \<open>Machine types\<close>

text \<open>
  \<open>std::uint64_t\<close> and \<open>std::size_t\<close> are 64-bit words. \<open>std::chrono::milliseconds\<close> has a signed
  64-bit count; it is an \<open>int\<close> here, and the component theories prove that the values the code
  computes stay in range. \<open>std::string\<close> is a list of 8-bit characters.
\<close>

type_synonym u64 = "64 word"
type_synonym millis = int
type_synonym bytes = string

section \<open>Exceptions and outcomes\<close>

text \<open>
  One constructor per exception class the sources throw. \<open>OutOfRange\<close> is the exception of
  \<open>unordered_map::at\<close>. \<open>UndefinedBehaviour\<close> stands for an access the language gives no meaning
  to, such as \<open>operator[]\<close> of a vector outside its bounds; no exception is raised there, and the
  theorems show that it is never reached.
\<close>

datatype error =
    InvalidArgument string
  | RaftError string
  | StorageError string
  | LogicError string
  | RuntimeError string
  | OutOfRange
  | UndefinedBehaviour

text \<open>
  A member function that throws leaves the changes it made before. An outcome therefore carries
  the object in both cases: \<open>Ret a s\<close> returned \<open>a\<close> with the object in state \<open>s\<close>, \<open>Exc e s\<close>
  threw \<open>e\<close> with the object in state \<open>s\<close>.
\<close>

datatype ('a, 's) outcome = Ret 'a 's | Exc error 's

fun and_then :: "('a, 's) outcome \<Rightarrow> ('a \<Rightarrow> 's \<Rightarrow> ('b, 's) outcome) \<Rightarrow> ('b, 's) outcome" where
  "and_then (Ret a s) f = f a s"
| "and_then (Exc e s) f = Exc e s"

fun outcome_state :: "('a, 's) outcome \<Rightarrow> 's" where
  "outcome_state (Ret a s) = s"
| "outcome_state (Exc e s) = s"

fun returns :: "('a, 's) outcome \<Rightarrow> bool" where
  "returns (Ret a s) = True"
| "returns (Exc e s) = False"

lemma and_then_eq_Ret:
  "and_then r f = Ret b s' \<longleftrightarrow> (\<exists>a s. r = Ret a s \<and> f a s = Ret b s')"
  by (cases r) auto

lemma returnsE:
  assumes "returns r"
  obtains a s where "r = Ret a s"
  using assms by (cases r) auto

text \<open>
  Postconditions of an outcome, for the value and object of a return and for the error and object
  of a throw. They compose along \<open>and_then\<close> like weakest preconditions.
\<close>

fun post :: "('a \<Rightarrow> 's \<Rightarrow> bool) \<Rightarrow> (error \<Rightarrow> 's \<Rightarrow> bool) \<Rightarrow> ('a, 's) outcome \<Rightarrow> bool" where
  "post P R (Ret a s) = P a s"
| "post P R (Exc e s) = R e s"

lemma post_and_then [simp]:
  "post P R (and_then r f) = post (\<lambda>a s. post P R (f a s)) R r"
  by (cases r) auto

lemma post_mono:
  "post P R r \<Longrightarrow> (\<And>a s. P a s \<Longrightarrow> P' a s) \<Longrightarrow> (\<And>e s. R e s \<Longrightarrow> R' e s) \<Longrightarrow> post P' R' r"
  by (cases r) auto

lemma post_returns: "post P (\<lambda>_ _. False) r \<Longrightarrow> \<exists>a s. r = Ret a s \<and> P a s"
  by (cases r) auto

lemma post_no_throw: "post P (\<lambda>_ _. False) r \<longleftrightarrow> returns r \<and> post P (\<lambda>_ _. True) r"
  by (cases r) auto

text \<open>Functions without an object that may throw: the first exception ends the sequence.\<close>

definition bind_sum :: "error + 'a \<Rightarrow> ('a \<Rightarrow> error + 'b) \<Rightarrow> error + 'b" where
  "bind_sum r f = (case r of Inl e \<Rightarrow> Inl e | Inr x \<Rightarrow> f x)"

lemma bind_sum_simps [simp]: "bind_sum (Inl e) f = Inl e" "bind_sum (Inr x) f = f x"
  by (simp_all add: bind_sum_def)

lemma bind_sum_Inr: "bind_sum r f = Inr y \<longleftrightarrow> (\<exists>x. r = Inr x \<and> f x = Inr y)"
  by (simp add: bind_sum_def split: sum.splits)

section \<open>Words\<close>

lemma unat_of_nat_u64 [simp]: "n < 2 ^ 64 \<Longrightarrow> unat (of_nat n :: u64) = n"
  by (simp add: unat_of_nat take_bit_nat_eq_self)

lemma unat_u64_less: "unat (w :: u64) < 2 ^ 64"
  using unsigned_less [of w] by simp

lemma unat_plus_one_u64: "unat (w :: u64) + 1 < 2 ^ 64 \<Longrightarrow> unat (w + 1) = unat w + 1"
  by (simp add: unat_word_ariths)

lemma unat_plus_u64: "unat (a :: u64) + unat b < 2 ^ 64 \<Longrightarrow> unat (a + b) = unat a + unat b"
  by (simp add: unat_word_ariths)

lemma unat_minus_one_u64: "(w :: u64) \<noteq> 0 \<Longrightarrow> unat (w - 1) = unat w - 1"
  by (rule unat_minus_one)

lemma unat_Suc_pred:
  assumes "0 < (w :: u64)"
  shows "unat w = Suc (unat (w - 1))"
proof -
  have "w \<noteq> 0" using assms by auto
  then show ?thesis by (simp add: unat_minus_one_u64 unat_gt_0)
qed

lemma of_nat_u64_not_max: "n < 2 ^ 64 - 1 \<Longrightarrow> (of_nat n :: u64) \<noteq> - 1"
proof
  assume n: "n < 2 ^ 64 - 1" and eq: "(of_nat n :: u64) = - 1"
  have "unat (of_nat n :: u64) = unat (- 1 :: u64)" by (simp only: eq)
  then show False using n by (simp add: unsigned_minus_1_eq_mask mask_eq_exp_minus_1)
qed

end
