(* ===== verification/RaftTypes.thy ===== *)
theory RaftTypes
  imports Prelude
begin

text \<open>
  The data of the consensus core (\<open>src/raft/raft.h\<close>, \<open>src/raft/raft.cpp\<close>): node states, log
  entries, the four RPC messages, the node configuration, the persistent state, and the
  \<open>RaftStorage\<close> interface with its in-memory implementation.
\<close>

section \<open>Identifiers, entries and messages\<close>

type_synonym NodeId = u64
type_synonym Term = u64
type_synonym LogIndex = u64

datatype NodeState = Follower | Candidate | Leader

datatype LogEntry = LogEntry (le_term: Term) (le_command: bytes) (le_is_no_op: bool)

text \<open>The default-constructed entry; it is the sentinel at index 0 of every log.\<close>

definition default_log_entry :: LogEntry where
  "default_log_entry = LogEntry 0 [] False"

datatype CommittedEntry = CommittedEntry (ce_index: LogIndex) (ce_term: Term) (ce_command: bytes)

datatype NodeSnapshot =
  NodeSnapshot (sn_node_id: NodeId) (sn_state: NodeState) (sn_current_term: Term)
    (sn_leader_id: "NodeId option") (sn_commit_index: LogIndex) (sn_last_applied: LogIndex)
    (sn_last_log_index: LogIndex)

datatype RequestVoteRequest =
  RequestVoteRequest (rvq_term: Term) (rvq_candidate_id: NodeId) (rvq_last_log_index: LogIndex)
    (rvq_last_log_term: Term)

datatype RequestVoteResponse = RequestVoteResponse (rvr_term: Term) (rvr_vote_granted: bool)

datatype AppendEntriesRequest =
  AppendEntriesRequest (aeq_term: Term) (aeq_leader_id: NodeId) (aeq_previous_log_index: LogIndex)
    (aeq_previous_log_term: Term) (aeq_entries: "LogEntry list") (aeq_leader_commit: LogIndex)
    (aeq_request_id: u64)

datatype AppendEntriesResponse =
  AppendEntriesResponse (aer_term: Term) (aer_success: bool) (aer_match_index: LogIndex)
    (aer_conflict_index: LogIndex) (aer_conflict_term: "Term option") (aer_request_id: u64)

datatype Rpc =
    RpcRequestVoteRequest RequestVoteRequest
  | RpcRequestVoteResponse RequestVoteResponse
  | RpcAppendEntriesRequest AppendEntriesRequest
  | RpcAppendEntriesResponse AppendEntriesResponse

datatype Message = Message (msg_from: NodeId) (msg_to: NodeId) (msg_rpc: Rpc)

fun rpc_term :: "Rpc \<Rightarrow> Term" where
  "rpc_term (RpcRequestVoteRequest r) = rvq_term r"
| "rpc_term (RpcRequestVoteResponse r) = rvr_term r"
| "rpc_term (RpcAppendEntriesRequest r) = aeq_term r"
| "rpc_term (RpcAppendEntriesResponse r) = aer_term r"

definition message_term :: "Message \<Rightarrow> Term" where
  "message_term m = rpc_term (msg_rpc m)"

section \<open>Configuration and persistent state\<close>

record RaftConfig =
  cfg_node_id :: NodeId
  cfg_peers :: "NodeId list"
  cfg_election_timeout_min :: millis
  cfg_election_timeout_max :: millis
  cfg_heartbeat_interval :: millis
  cfg_random_seed :: u64

definition default_raft_config :: RaftConfig where
  "default_raft_config =
     \<lparr> cfg_node_id = 0, cfg_peers = [], cfg_election_timeout_min = 150,
       cfg_election_timeout_max = 300, cfg_heartbeat_interval = 50,
       cfg_random_seed = 0x72616674 \<rparr>"

record PersistentState =
  ps_current_term :: Term
  ps_voted_for :: "NodeId option"
  ps_log :: "LogEntry list"

definition default_persistent_state :: PersistentState where
  "default_persistent_state = \<lparr> ps_current_term = 0, ps_voted_for = None, ps_log = [] \<rparr>"

section \<open>The storage interface\<close>

text \<open>
  The virtual functions of \<open>RaftStorage\<close>, over an object of type \<open>'st\<close>. A save that returns makes
  the state it was given the one that is loaded next; a save that throws, or that the end of the
  process interrupts, leaves the state from before or the one it was given. In an atomic storage it
  leaves the one from before; a reliable storage never throws on save.
\<close>

locale raft_storage =
  fixes load :: "'st \<Rightarrow> error + PersistentState"
    and save :: "PersistentState \<Rightarrow> 'st \<Rightarrow> (error + unit) \<times> 'st"
  assumes load_after_save: "save ps st = (Inr u, st') \<Longrightarrow> load st' = Inr ps"
    and load_after_failed_save: "save ps st = (Inl e, st') \<Longrightarrow> load st' = load st \<or> load st' = Inr ps"

locale atomic_raft_storage =
  fixes load :: "'st \<Rightarrow> error + PersistentState"
    and save :: "PersistentState \<Rightarrow> 'st \<Rightarrow> (error + unit) \<times> 'st"
  assumes saved: "save ps st = (Inr u, st') \<Longrightarrow> load st' = Inr ps"
    and failed_save_keeps: "save ps st = (Inl e, st') \<Longrightarrow> load st' = load st"
begin

lemma load_after_any_save:
  "load (snd (save ps st)) = (case fst (save ps st) of Inl e \<Rightarrow> load st | Inr u \<Rightarrow> Inr ps)"
  using saved [of ps st _ "snd (save ps st)"] failed_save_keeps [of ps st _ "snd (save ps st)"]
  by (cases "save ps st") (auto split: sum.splits)

end

sublocale atomic_raft_storage \<subseteq> raft_storage
  using saved failed_save_keeps by unfold_locales auto

locale reliable_raft_storage = atomic_raft_storage +
  assumes save_returns: "fst (save ps st) = Inr ()"
begin

lemma load_saved: "load (snd (save ps st)) = Inr ps"
  by (simp add: load_after_any_save save_returns)

end

text \<open>\<open>InMemoryRaftStorage\<close> keeps the state in a field.\<close>

definition new_InMemoryRaftStorage :: "PersistentState \<Rightarrow> PersistentState" where
  "new_InMemoryRaftStorage initial_state = initial_state"

definition InMemoryRaftStorage_load :: "PersistentState \<Rightarrow> error + PersistentState" where
  "InMemoryRaftStorage_load state = Inr state"

definition InMemoryRaftStorage_save ::
    "PersistentState \<Rightarrow> PersistentState \<Rightarrow> (error + unit) \<times> PersistentState" where
  "InMemoryRaftStorage_save ps state = (Inr (), ps)"

interpretation in_memory: reliable_raft_storage InMemoryRaftStorage_load InMemoryRaftStorage_save
  by unfold_locales (auto simp: InMemoryRaftStorage_load_def InMemoryRaftStorage_save_def)

text \<open>
  What a node relies on outside the consensus core: the virtual functions of its storage object,
  the construction of the 64-bit Mersenne twister from a seed, and the draw of a
  \<open>uniform_int_distribution\<close>, whose algorithm the C++ standard leaves to the implementation.
\<close>

record ('st, 'g) RaftEnv =
  storage_load :: "'st \<Rightarrow> error + PersistentState"
  storage_save :: "PersistentState \<Rightarrow> 'st \<Rightarrow> (error + unit) \<times> 'st"
  seed_engine :: "u64 \<Rightarrow> 'g"
  uniform_int :: "int \<Rightarrow> int \<Rightarrow> 'g \<Rightarrow> int \<times> 'g"

text \<open>The documented range of the distribution: a draw lies between its two bounds.\<close>

definition uniform_in_range :: "('st, 'g) RaftEnv \<Rightarrow> bool" where
  "uniform_in_range E \<longleftrightarrow>
     (\<forall>a b g. a \<le> b \<longrightarrow> a \<le> fst (uniform_int E a b g) \<and> fst (uniform_int E a b g) \<le> b)"

definition in_memory_env ::
    "(u64 \<Rightarrow> 'g) \<Rightarrow> (int \<Rightarrow> int \<Rightarrow> 'g \<Rightarrow> int \<times> 'g) \<Rightarrow> (PersistentState, 'g) RaftEnv" where
  "in_memory_env seed draw =
     \<lparr> storage_load = InMemoryRaftStorage_load, storage_save = InMemoryRaftStorage_save,
       seed_engine = seed, uniform_int = draw \<rparr>"

end
