(* ===== verification/RaftNode.thy ===== *)
theory RaftNode
  imports RaftTypes
begin

text \<open>
  The consensus state machine (\<open>src/raft/raft_node.h\<close>, \<open>src/raft/raft_node.cpp\<close>): the fields of
  class \<open>RaftNode\<close> as a record and one definition per member function, in the order in which
  they call each other. Every public operation holds the node's mutex for its whole body, so an
  operation is one atomic step on the record. The environment \<open>E\<close> supplies the storage object's
  virtual functions and the random draws.
\<close>

section \<open>State\<close>

record ('st, 'g) RaftNode =
  node_config :: RaftConfig
  storage :: 'st
  random :: 'g
  node_state :: NodeState
  current_term :: Term
  voted_for :: "NodeId option"
  leader_id :: "NodeId option"
  rlog :: "LogEntry list"
  commit_index :: LogIndex
  last_applied :: LogIndex
  election_elapsed :: millis
  election_timeout :: millis
  heartbeat_elapsed :: millis
  members :: "NodeId set"
  votes_received :: "NodeId set"
  next_index :: "NodeId \<rightharpoonup> LogIndex"
  match_index :: "NodeId \<rightharpoonup> LogIndex"
  append_request_id :: "NodeId \<rightharpoonup> u64"
  outbox :: "Message list"
  committed_entries :: "CommittedEntry list"

abbreviation node_id :: "('st, 'g) RaftNode \<Rightarrow> NodeId" where
  "node_id n \<equiv> cfg_node_id (node_config n)"

abbreviation peers :: "('st, 'g) RaftNode \<Rightarrow> NodeId list" where
  "peers n \<equiv> cfg_peers (node_config n)"

section \<open>Containers\<close>

text \<open>
  \<open>operator[]\<close> of a vector, \<open>None\<close> where the index is out of bounds and the access undefined, and
  \<open>operator[]\<close> of an \<open>unordered_map\<close>, which inserts a zero for a missing key.
\<close>

definition log_at :: "LogEntry list \<Rightarrow> LogIndex \<Rightarrow> LogEntry option" where
  "log_at entries i = (if unat i < length entries then Some (entries ! unat i) else None)"

definition map_index :: "(NodeId \<rightharpoonup> u64) \<Rightarrow> NodeId \<Rightarrow> u64 \<times> (NodeId \<rightharpoonup> u64)" where
  "map_index m k = (case m k of None \<Rightarrow> (0, m(k \<mapsto> 0)) | Some v \<Rightarrow> (v, m))"

section \<open>Queries on the log and the membership\<close>

definition last_index :: "LogEntry list \<Rightarrow> LogIndex" where
  "last_index entries = of_nat (length entries) - 1"

definition last_log_index_locked :: "('st, 'g) RaftNode \<Rightarrow> LogIndex" where
  "last_log_index_locked n = last_index (rlog n)"

definition last_log_term_locked :: "('st, 'g) RaftNode \<Rightarrow> Term" where
  "last_log_term_locked n = le_term (last (rlog n))"

definition quorum_size_locked :: "('st, 'g) RaftNode \<Rightarrow> nat" where
  "quorum_size_locked n = card (members n) div 2 + 1"

definition is_peer_locked :: "('st, 'g) RaftNode \<Rightarrow> NodeId \<Rightarrow> bool" where
  "is_peer_locked n i \<longleftrightarrow> i \<noteq> node_id n \<and> i \<in> members n"

definition candidate_log_is_current_locked ::
    "('st, 'g) RaftNode \<Rightarrow> RequestVoteRequest \<Rightarrow> bool" where
  "candidate_log_is_current_locked n request \<longleftrightarrow>
     (let local_term = last_log_term_locked n in
      rvq_last_log_term request > local_term \<or>
      rvq_last_log_term request = local_term \<and>
      rvq_last_log_index request \<ge> last_log_index_locked n)"

section \<open>Timers, persistence, sending\<close>

definition reset_election_timeout_locked ::
    "('st, 'g) RaftEnv \<Rightarrow> ('st, 'g) RaftNode \<Rightarrow> ('st, 'g) RaftNode" where
  "reset_election_timeout_locked E n =
     (let minimum = cfg_election_timeout_min (node_config n);
          maximum = cfg_election_timeout_max (node_config n);
          (t, g) = uniform_int E minimum maximum (random n)
      in n\<lparr>election_timeout := t, random := g, election_elapsed := 0\<rparr>)"

definition persistent_part :: "('st, 'g) RaftNode \<Rightarrow> PersistentState" where
  "persistent_part n =
     \<lparr> ps_current_term = current_term n, ps_voted_for = voted_for n, ps_log = tl (rlog n) \<rparr>"

definition persist_locked ::
    "('st, 'g) RaftEnv \<Rightarrow> ('st, 'g) RaftNode \<Rightarrow> (unit, ('st, 'g) RaftNode) outcome" where
  "persist_locked E n =
     (case storage_save E (persistent_part n) (storage n) of
        (Inl e, st) \<Rightarrow> Exc e (n\<lparr>storage := st\<rparr>)
      | (Inr u, st) \<Rightarrow> Ret () (n\<lparr>storage := st\<rparr>))"

definition send_locked :: "('st, 'g) RaftNode \<Rightarrow> NodeId \<Rightarrow> Rpc \<Rightarrow> ('st, 'g) RaftNode" where
  "send_locked n peer rpc = n\<lparr>outbox := outbox n @ [Message (node_id n) peer rpc]\<rparr>"

definition become_follower_locked ::
    "('st, 'g) RaftEnv \<Rightarrow> ('st, 'g) RaftNode \<Rightarrow> Term \<Rightarrow> NodeId option
     \<Rightarrow> (unit, ('st, 'g) RaftNode) outcome" where
  "become_follower_locked E n t leader =
     (let term_changed = t > current_term n;
          n1 = (if term_changed then n\<lparr>current_term := t, voted_for := None\<rparr> else n);
          n2 = n1\<lparr>node_state := Follower, leader_id := leader, votes_received := {},
                  next_index := Map.empty, match_index := Map.empty,
                  append_request_id := Map.empty, heartbeat_elapsed := 0\<rparr>;
          n3 = reset_election_timeout_locked E n2
      in if term_changed then persist_locked E n3 else Ret () n3)"

section \<open>Applying and advancing the commit index\<close>

function apply_committed_entries_locked ::
    "('st, 'g) RaftNode \<Rightarrow> (unit, ('st, 'g) RaftNode) outcome" where
  "apply_committed_entries_locked n =
     (if last_applied n < commit_index n then
        (let n1 = n\<lparr>last_applied := last_applied n + 1\<rparr> in
         case log_at (rlog n1) (last_applied n1) of
           None \<Rightarrow> Exc UndefinedBehaviour n1
         | Some entry \<Rightarrow>
             apply_committed_entries_locked
               (if le_is_no_op entry then n1
                else n1\<lparr>committed_entries := committed_entries n1 @
                       [CommittedEntry (last_applied n1) (le_term entry) (le_command entry)]\<rparr>))
      else Ret () n)"
  by pat_completeness auto

lemma unat_word_Suc_le: "(a :: u64) < b \<Longrightarrow> unat (a + 1) = unat a + 1 \<and> unat a + 1 \<le> unat b"
  using unat_u64_less [of b] by (simp add: word_less_nat_alt unat_plus_one_u64)

termination apply_committed_entries_locked
  by (relation "measure (\<lambda>n. unat (commit_index n) - unat (last_applied n))")
    (auto simp: Let_def dest!: unat_word_Suc_le)

declare apply_committed_entries_locked.simps [simp del]

text \<open>
  The inner loop of \<open>advance_commit_index_locked\<close>: it counts the replicas of an index, the node
  itself included, and reads the match indexes with \<open>operator[]\<close>.
\<close>

fun count_replicated ::
    "NodeId list \<Rightarrow> LogIndex \<Rightarrow> nat \<Rightarrow> (NodeId \<rightharpoonup> LogIndex) \<Rightarrow> nat \<times> (NodeId \<rightharpoonup> LogIndex)" where
  "count_replicated [] c replicated m = (replicated, m)"
| "count_replicated (p # ps) c replicated m =
     (case map_index m p of
        (v, m') \<Rightarrow> count_replicated ps c (if v \<ge> c then Suc replicated else replicated) m')"

function advance_commit_loop ::
    "('st, 'g) RaftNode \<Rightarrow> LogIndex \<Rightarrow> (bool, ('st, 'g) RaftNode) outcome" where
  "advance_commit_loop n c =
     (if c > commit_index n then
        (case log_at (rlog n) c of
           None \<Rightarrow> Exc UndefinedBehaviour n
         | Some entry \<Rightarrow>
             if le_term entry \<noteq> current_term n then advance_commit_loop n (c - 1)
             else
               (case count_replicated (peers n) c 1 (match_index n) of
                  (replicated, m) \<Rightarrow>
                    (let n1 = n\<lparr>match_index := m\<rparr> in
                     if replicated \<ge> quorum_size_locked n1 then
                       and_then (apply_committed_entries_locked (n1\<lparr>commit_index := c\<rparr>))
                         (\<lambda>_ n2. Ret True n2)
                     else advance_commit_loop n1 (c - 1))))
      else Ret False n)"
  by pat_completeness auto

lemma unat_pred_less: "(b :: u64) < a \<Longrightarrow> unat (a - 1) < unat a"
  by (metis unat_minus_one_u64 word_not_simps(1) unat_gt_0 diff_less zero_less_one)

termination advance_commit_loop
  by (relation "measure (\<lambda>(n, c). unat c)") (auto intro: unat_pred_less)

declare advance_commit_loop.simps [simp del]

definition advance_commit_index_locked ::
    "('st, 'g) RaftNode \<Rightarrow> (bool, ('st, 'g) RaftNode) outcome" where
  "advance_commit_index_locked n = advance_commit_loop n (last_log_index_locked n)"

section \<open>Replication\<close>

definition send_append_entries_locked ::
    "('st, 'g) RaftNode \<Rightarrow> NodeId \<Rightarrow> (unit, ('st, 'g) RaftNode) outcome" where
  "send_append_entries_locked n peer =
     (case next_index n peer of
        None \<Rightarrow> Exc OutOfRange n
      | Some next \<Rightarrow>
          (let previous_index = next - 1 in
           if unat next > length (rlog n) then Exc UndefinedBehaviour n
           else
             (let entries = drop (unat next) (rlog n);
                  (old_id, ids) = map_index (append_request_id n) peer;
                  request_id = old_id + 1;
                  n1 = n\<lparr>append_request_id := ids(peer \<mapsto> request_id)\<rparr>
              in case log_at (rlog n) previous_index of
                   None \<Rightarrow> Exc UndefinedBehaviour n1
                 | Some previous \<Rightarrow>
                     Ret () (send_locked n1 peer (RpcAppendEntriesRequest
                       (AppendEntriesRequest (current_term n) (node_id n) previous_index
                          (le_term previous) entries (commit_index n) request_id))))))"

fun send_append_entries_to ::
    "NodeId list \<Rightarrow> ('st, 'g) RaftNode \<Rightarrow> (unit, ('st, 'g) RaftNode) outcome" where
  "send_append_entries_to [] n = Ret () n"
| "send_append_entries_to (p # ps) n =
     and_then (send_append_entries_locked n p) (\<lambda>_ n1. send_append_entries_to ps n1)"

definition broadcast_append_entries_locked ::
    "('st, 'g) RaftNode \<Rightarrow> (unit, ('st, 'g) RaftNode) outcome" where
  "broadcast_append_entries_locked n = send_append_entries_to (peers n) n"

section \<open>Elections\<close>

fun init_peer_progress :: "NodeId list \<Rightarrow> LogIndex \<Rightarrow> ('st, 'g) RaftNode \<Rightarrow> ('st, 'g) RaftNode" where
  "init_peer_progress [] next n = n"
| "init_peer_progress (p # ps) next n =
     init_peer_progress ps next
       (n\<lparr>next_index := (next_index n)(p \<mapsto> next), match_index := (match_index n)(p \<mapsto> 0),
          append_request_id := (append_request_id n)(p \<mapsto> 0)\<rparr>)"

definition become_leader_locked ::
    "('st, 'g) RaftEnv \<Rightarrow> ('st, 'g) RaftNode \<Rightarrow> (unit, ('st, 'g) RaftNode) outcome" where
  "become_leader_locked E n =
     (let n1 = n\<lparr>node_state := Leader, leader_id := Some (node_id n), heartbeat_elapsed := 0\<rparr>;
          next = last_log_index_locked n1 + 1;
          n2 = init_peer_progress (peers n1) next n1;
          n3 = n2\<lparr>rlog := rlog n2 @ [LogEntry (current_term n2) [] True]\<rparr>
      in and_then (persist_locked E n3) (\<lambda>_ n4.
         and_then (advance_commit_index_locked n4) (\<lambda>_ n5.
           broadcast_append_entries_locked n5)))"

fun send_to_all :: "NodeId list \<Rightarrow> Rpc \<Rightarrow> ('st, 'g) RaftNode \<Rightarrow> ('st, 'g) RaftNode" where
  "send_to_all [] rpc n = n"
| "send_to_all (p # ps) rpc n = send_to_all ps rpc (send_locked n p rpc)"

definition start_election_locked ::
    "('st, 'g) RaftEnv \<Rightarrow> ('st, 'g) RaftNode \<Rightarrow> (unit, ('st, 'g) RaftNode) outcome" where
  "start_election_locked E n =
     (let n1 = n\<lparr>node_state := Candidate, leader_id := None, current_term := current_term n + 1,
                 voted_for := Some (node_id n), votes_received := {node_id n}\<rparr>;
          n2 = reset_election_timeout_locked E n1
      in and_then (persist_locked E n2) (\<lambda>_ n3.
           if card (votes_received n3) \<ge> quorum_size_locked n3 then become_leader_locked E n3
           else
             (let request = RequestVoteRequest (current_term n3) (node_id n3)
                              (last_log_index_locked n3) (last_log_term_locked n3)
              in Ret () (send_to_all (peers n3) (RpcRequestVoteRequest request) n3))))"

section \<open>Message handlers\<close>

definition handle_request_vote_locked ::
    "('st, 'g) RaftEnv \<Rightarrow> ('st, 'g) RaftNode \<Rightarrow> NodeId \<Rightarrow> RequestVoteRequest
     \<Rightarrow> (unit, ('st, 'g) RaftNode) outcome" where
  "handle_request_vote_locked E n from request =
     (if rvq_candidate_id request \<noteq> from \<or> rvq_term request < current_term n then
        Ret () (send_locked n from (RpcRequestVoteResponse
          (RequestVoteResponse (current_term n) False)))
      else
        (let can_vote = (voted_for n = None \<or> voted_for n = Some (rvq_candidate_id request));
             grant_vote = (can_vote \<and> candidate_log_is_current_locked n request)
         in and_then
              (if grant_vote then
                 and_then
                   (if voted_for n \<noteq> Some (rvq_candidate_id request) then
                      persist_locked E (n\<lparr>voted_for := Some (rvq_candidate_id request)\<rparr>)
                    else Ret () n)
                   (\<lambda>_ n1. Ret () (reset_election_timeout_locked E n1))
               else Ret () n)
              (\<lambda>_ n2. Ret () (send_locked n2 from (RpcRequestVoteResponse
                 (RequestVoteResponse (current_term n2) grant_vote))))))"

definition handle_request_vote_response_locked ::
    "('st, 'g) RaftEnv \<Rightarrow> ('st, 'g) RaftNode \<Rightarrow> NodeId \<Rightarrow> RequestVoteResponse
     \<Rightarrow> (unit, ('st, 'g) RaftNode) outcome" where
  "handle_request_vote_response_locked E n from response =
     (if node_state n \<noteq> Candidate \<or> rvr_term response \<noteq> current_term n \<or>
         \<not> rvr_vote_granted response then Ret () n
      else
        (let n1 = n\<lparr>votes_received := insert from (votes_received n)\<rparr> in
         if card (votes_received n1) \<ge> quorum_size_locked n1 then become_leader_locked E n1
         else Ret () n1))"

text \<open>
  The search for the first index of the conflicting term, and the loop that compares the incoming
  entries with the local log. The loop either rejects (a conflict at or below the commit index),
  finds two different entries with the same term, or ends with the log (truncated at a conflict),
  the entries still to append and whether the log was truncated.
\<close>

function first_index_of_term :: "LogEntry list \<Rightarrow> Term \<Rightarrow> LogIndex \<Rightarrow> LogIndex option" where
  "first_index_of_term entries conflict_term i =
     (if i > 1 then
        (case log_at entries (i - 1) of
           None \<Rightarrow> None
         | Some entry \<Rightarrow>
             if le_term entry = conflict_term
             then first_index_of_term entries conflict_term (i - 1) else Some i)
      else Some i)"
  by pat_completeness auto

termination first_index_of_term
  by (relation "measure (\<lambda>(entries, t, i). unat i)") (auto intro: unat_pred_less)

declare first_index_of_term.simps [simp del]

datatype scan_result =
    ScanReject LogIndex Term
  | ScanMismatch
  | ScanOutOfBounds
  | ScanDone "LogEntry list" "LogEntry list" bool

fun scan_entries :: "LogEntry list \<Rightarrow> LogIndex \<Rightarrow> LogIndex \<Rightarrow> LogEntry list \<Rightarrow> scan_result" where
  "scan_entries entries commit entry_index [] = ScanDone entries [] False"
| "scan_entries entries commit entry_index (incoming # rest) =
     (if entry_index \<le> last_index entries then
        (case log_at entries entry_index of
           None \<Rightarrow> ScanOutOfBounds
         | Some local \<Rightarrow>
             if le_term local \<noteq> le_term incoming then
               if entry_index \<le> commit then ScanReject entry_index (le_term local)
               else ScanDone (take (unat entry_index) entries) (incoming # rest) True
             else if local \<noteq> incoming then ScanMismatch
             else scan_entries entries commit (entry_index + 1) rest)
      else ScanDone entries (incoming # rest) False)"

definition reject_append ::
    "('st, 'g) RaftNode \<Rightarrow> NodeId \<Rightarrow> AppendEntriesRequest \<Rightarrow> LogIndex \<Rightarrow> Term option
     \<Rightarrow> ('st, 'g) RaftNode" where
  "reject_append n from request conflict_index conflict_term =
     send_locked n from (RpcAppendEntriesResponse
       (AppendEntriesResponse (current_term n) False 0 conflict_index conflict_term
          (aeq_request_id request)))"

text \<open>The part of the handler after the consistency check on the previous entry.\<close>

definition append_and_commit ::
    "('st, 'g) RaftEnv \<Rightarrow> ('st, 'g) RaftNode \<Rightarrow> NodeId \<Rightarrow> AppendEntriesRequest
     \<Rightarrow> (unit, ('st, 'g) RaftNode) outcome" where
  "append_and_commit E n from request =
     (case scan_entries (rlog n) (commit_index n) (aeq_previous_log_index request + 1)
             (aeq_entries request) of
        ScanReject i t \<Rightarrow> Ret () (reject_append n from request i (Some t))
      | ScanMismatch \<Rightarrow> Exc (RaftError ''log matching invariant violated'') n
      | ScanOutOfBounds \<Rightarrow> Exc UndefinedBehaviour n
      | ScanDone entries rest truncated \<Rightarrow>
          (let log_changed = (truncated \<or> rest \<noteq> []);
               n1 = n\<lparr>rlog := entries @ rest\<rparr>
           in and_then (if log_changed then persist_locked E n1 else Ret () n1) (\<lambda>_ n2.
              and_then
                (if aeq_leader_commit request > commit_index n2 then
                   apply_committed_entries_locked
                     (n2\<lparr>commit_index :=
                        min (aeq_leader_commit request) (last_log_index_locked n2)\<rparr>)
                 else Ret () n2)
                (\<lambda>_ n3.
                  (let matched = aeq_previous_log_index request +
                                 of_nat (length (aeq_entries request))
                   in Ret () (send_locked n3 from (RpcAppendEntriesResponse
                        (AppendEntriesResponse (current_term n3) True matched (matched + 1) None
                           (aeq_request_id request)))))))))"

definition handle_append_entries_locked ::
    "('st, 'g) RaftEnv \<Rightarrow> ('st, 'g) RaftNode \<Rightarrow> NodeId \<Rightarrow> AppendEntriesRequest
     \<Rightarrow> (unit, ('st, 'g) RaftNode) outcome" where
  "handle_append_entries_locked E n from request =
     (if aeq_leader_id request \<noteq> from \<or> aeq_term request < current_term n then
        Ret () (reject_append n from request (last_log_index_locked n + 1) None)
      else if list_ex (\<lambda>entry. le_term entry = 0 \<or> le_term entry > aeq_term request)
                (aeq_entries request) then
        Ret () (reject_append n from request (last_log_index_locked n + 1) None)
      else
        and_then
          (if node_state n \<noteq> Follower \<or> leader_id n \<noteq> Some (aeq_leader_id request) then
             become_follower_locked E n (current_term n) (Some (aeq_leader_id request))
           else Ret () (reset_election_timeout_locked E n))
          (\<lambda>_ n1.
            if aeq_previous_log_index request > last_log_index_locked n1 then
              Ret () (reject_append n1 from request (last_log_index_locked n1 + 1) None)
            else if aeq_previous_log_index request > 0 then
              (case log_at (rlog n1) (aeq_previous_log_index request) of
                 None \<Rightarrow> Exc UndefinedBehaviour n1
               | Some previous \<Rightarrow>
                   if le_term previous \<noteq> aeq_previous_log_term request then
                     (case first_index_of_term (rlog n1) (le_term previous)
                             (aeq_previous_log_index request) of
                        None \<Rightarrow> Exc UndefinedBehaviour n1
                      | Some i \<Rightarrow> Ret () (reject_append n1 from request i (Some (le_term previous))))
                   else append_and_commit E n1 from request)
            else append_and_commit E n1 from request))"

function last_index_of_term :: "LogEntry list \<Rightarrow> Term \<Rightarrow> LogIndex \<Rightarrow> error + LogIndex option" where
  "last_index_of_term entries t i =
     (if i > 0 then
        (case log_at entries i of
           None \<Rightarrow> Inl UndefinedBehaviour
         | Some entry \<Rightarrow>
             if le_term entry = t then Inr (Some i) else last_index_of_term entries t (i - 1))
      else Inr None)"
  by pat_completeness auto

termination last_index_of_term
  by (relation "measure (\<lambda>(entries, t, i). unat i)") (auto intro: unat_pred_less)

declare last_index_of_term.simps [simp del]

definition handle_append_success ::
    "('st, 'g) RaftNode \<Rightarrow> NodeId \<Rightarrow> AppendEntriesResponse
     \<Rightarrow> (unit, ('st, 'g) RaftNode) outcome" where
  "handle_append_success n from response =
     (if aer_match_index response > last_log_index_locked n then Ret () n
      else
        (let (matched, ms) = map_index (match_index n) from;
             n1 = n\<lparr>match_index := ms(from \<mapsto> max matched (aer_match_index response))\<rparr>;
             (next, ns) = map_index (next_index n1) from;
             n2 = n1\<lparr>next_index := ns(from \<mapsto> max next (aer_match_index response + 1))\<rparr>
         in and_then (advance_commit_index_locked n2) (\<lambda>advanced n3.
              if advanced then broadcast_append_entries_locked n3
              else
                (let (m, ms') = map_index (match_index n3) from;
                     n4 = n3\<lparr>match_index := ms'\<rparr>
                 in if m < last_log_index_locked n4 then send_append_entries_locked n4 from
                    else Ret () n4))))"

definition clamp_u64 :: "u64 \<Rightarrow> u64 \<Rightarrow> u64 \<Rightarrow> u64" where
  "clamp_u64 v lo hi = (if v < lo then lo else if hi < v then hi else v)"

definition handle_append_failure ::
    "('st, 'g) RaftNode \<Rightarrow> NodeId \<Rightarrow> AppendEntriesResponse
     \<Rightarrow> (unit, ('st, 'g) RaftNode) outcome" where
  "handle_append_failure n from response =
     (let (request_id, ids) = map_index (append_request_id n) from;
          n1 = n\<lparr>append_request_id := ids\<rparr>
      in if request_id \<noteq> aer_request_id response then Ret () n1
         else
           (case (case aer_conflict_term response of
                    None \<Rightarrow> Inr None
                  | Some t \<Rightarrow> last_index_of_term (rlog n1) t (last_log_index_locked n1)) of
              Inl e \<Rightarrow> Exc e n1
            | Inr found \<Rightarrow>
                (let next = (case found of None \<Rightarrow> aer_conflict_index response | Some i \<Rightarrow> i + 1);
                     next' = clamp_u64 next 1 (last_log_index_locked n1 + 1);
                     (m, ms) = map_index (match_index n1) from;
                     n2 = n1\<lparr>match_index := ms,
                             next_index := (next_index n1)(from \<mapsto> max next' (m + 1))\<rparr>
                 in send_append_entries_locked n2 from)))"

definition handle_append_entries_response_locked ::
    "('st, 'g) RaftNode \<Rightarrow> NodeId \<Rightarrow> AppendEntriesResponse
     \<Rightarrow> (unit, ('st, 'g) RaftNode) outcome" where
  "handle_append_entries_response_locked n from response =
     (if node_state n \<noteq> Leader \<or> aer_term response \<noteq> current_term n then Ret () n
      else if aer_success response then handle_append_success n from response
      else handle_append_failure n from response)"

section \<open>Public operations\<close>

fun insert_members :: "NodeId set \<Rightarrow> NodeId list \<Rightarrow> bool" where
  "insert_members ms [] = True"
| "insert_members ms (p # ps) = (if p \<in> ms then False else insert_members (insert p ms) ps)"

lemma insert_members_iff: "insert_members ms ps \<longleftrightarrow> distinct ps \<and> ms \<inter> set ps = {}"
  by (induction ps arbitrary: ms) auto

definition validate_config :: "RaftConfig \<Rightarrow> error + unit" where
  "validate_config config =
     (if cfg_heartbeat_interval config \<le> 0 \<or> cfg_election_timeout_min config \<le> 0 \<or>
         cfg_election_timeout_max config < cfg_election_timeout_min config \<or>
         cfg_election_timeout_min config \<le> cfg_heartbeat_interval config
      then Inl (InvalidArgument ''invalid Raft timing configuration'')
      else if insert_members {cfg_node_id config} (cfg_peers config) then Inr ()
      else Inl (InvalidArgument ''Raft members must be unique''))"

fun load_log :: "Term \<Rightarrow> Term \<Rightarrow> LogEntry list \<Rightarrow> LogEntry list \<Rightarrow> error + LogEntry list" where
  "load_log current previous acc [] = Inr acc"
| "load_log current previous acc (entry # rest) =
     (if le_term entry = 0 \<or> le_term entry > current \<or> le_term entry < previous
      then Inl (RaftError ''persisted Raft log is invalid'')
      else load_log current (le_term entry) (acc @ [entry]) rest)"

definition new_raft_node ::
    "('st, 'g) RaftEnv \<Rightarrow> RaftConfig \<Rightarrow> 'st option \<Rightarrow> error + ('st, 'g) RaftNode" where
  "new_raft_node E config storage_ptr =
     (let engine = seed_engine E (xor (cfg_random_seed config)
                                      (cfg_node_id config * 0x9e3779b97f4a7c15))
      in case validate_config config of
        Inl e \<Rightarrow> Inl e
      | Inr _ \<Rightarrow>
          (case storage_ptr of
             None \<Rightarrow> Inl (InvalidArgument ''Raft storage must not be null'')
           | Some st \<Rightarrow>
               (let ms = insert (cfg_node_id config) (set (cfg_peers config)) in
                case storage_load E st of
                  Inl e \<Rightarrow> Inl e
                | Inr persisted \<Rightarrow>
                    if (case ps_voted_for persisted of None \<Rightarrow> False | Some v \<Rightarrow> v \<notin> ms) then
                      Inl (RaftError ''persisted vote references a non-member'')
                    else
                      (case load_log (ps_current_term persisted) 0 [default_log_entry]
                              (ps_log persisted) of
                         Inl e \<Rightarrow> Inl e
                       | Inr entries \<Rightarrow>
                           Inr (reset_election_timeout_locked E
                             \<lparr> node_config = config, storage = st, random = engine,
                               node_state = Follower, current_term = ps_current_term persisted,
                               voted_for = ps_voted_for persisted, leader_id = None,
                               rlog = entries, commit_index = 0, last_applied = 0,
                               election_elapsed = 0, election_timeout = 0, heartbeat_elapsed = 0,
                               members = ms, votes_received = {}, next_index = Map.empty,
                               match_index = Map.empty, append_request_id = Map.empty,
                               outbox = [], committed_entries = [] \<rparr>)))))"

definition tick ::
    "('st, 'g) RaftEnv \<Rightarrow> ('st, 'g) RaftNode \<Rightarrow> millis \<Rightarrow> (unit, ('st, 'g) RaftNode) outcome" where
  "tick E n elapsed =
     (if elapsed < 0 then Exc (InvalidArgument ''elapsed time must not be negative'') n
      else if node_state n = Leader then
        if elapsed \<ge> cfg_heartbeat_interval (node_config n) - heartbeat_elapsed n then
          broadcast_append_entries_locked (n\<lparr>heartbeat_elapsed := 0\<rparr>)
        else Ret () (n\<lparr>heartbeat_elapsed := heartbeat_elapsed n + elapsed\<rparr>)
      else if elapsed \<ge> election_timeout n - election_elapsed n then start_election_locked E n
      else Ret () (n\<lparr>election_elapsed := election_elapsed n + elapsed\<rparr>))"

fun dispatch_rpc ::
    "('st, 'g) RaftEnv \<Rightarrow> ('st, 'g) RaftNode \<Rightarrow> NodeId \<Rightarrow> Rpc
     \<Rightarrow> (unit, ('st, 'g) RaftNode) outcome" where
  "dispatch_rpc E n from (RpcRequestVoteRequest r) = handle_request_vote_locked E n from r"
| "dispatch_rpc E n from (RpcRequestVoteResponse r) =
     handle_request_vote_response_locked E n from r"
| "dispatch_rpc E n from (RpcAppendEntriesRequest r) = handle_append_entries_locked E n from r"
| "dispatch_rpc E n from (RpcAppendEntriesResponse r) =
     handle_append_entries_response_locked n from r"

definition step_locked ::
    "('st, 'g) RaftEnv \<Rightarrow> ('st, 'g) RaftNode \<Rightarrow> Message \<Rightarrow> (bool, ('st, 'g) RaftNode) outcome" where
  "step_locked E n message =
     (if msg_to message \<noteq> node_id n \<or> \<not> is_peer_locked n (msg_from message) then Ret False n
      else
        and_then
          (if message_term message > current_term n then
             become_follower_locked E n (message_term message) None
           else Ret () n)
          (\<lambda>_ n1. and_then (dispatch_rpc E n1 (msg_from message) (msg_rpc message))
                     (\<lambda>_ n2. Ret True n2)))"

definition step ::
    "('st, 'g) RaftEnv \<Rightarrow> ('st, 'g) RaftNode \<Rightarrow> Message \<Rightarrow> (bool, ('st, 'g) RaftNode) outcome" where
  "step E n message = step_locked E n message"

fun is_request :: "Rpc \<Rightarrow> bool" where
  "is_request (RpcRequestVoteRequest r) = True"
| "is_request (RpcAppendEntriesRequest r) = True"
| "is_request _ = False"

fun answers :: "Rpc \<Rightarrow> Rpc \<Rightarrow> bool" where
  "answers (RpcRequestVoteRequest q) (RpcRequestVoteResponse r) = True"
| "answers (RpcAppendEntriesRequest q) (RpcAppendEntriesResponse r) =
     (aer_request_id r = aeq_request_id q)"
| "answers _ _ = False"

text \<open>
  The loop over the new messages of the outbox: the first answer to the request is taken out of
  the outbox and returned.
\<close>

fun take_answer :: "Message \<Rightarrow> Message list \<Rightarrow> (Message \<times> Message list) option" where
  "take_answer message [] = None"
| "take_answer message (m # ms) =
     (if msg_to m = msg_from message \<and> answers (msg_rpc message) (msg_rpc m) then Some (m, ms)
      else map_option (\<lambda>(r, ms'). (r, m # ms')) (take_answer message ms))"

definition handle_request ::
    "('st, 'g) RaftEnv \<Rightarrow> ('st, 'g) RaftNode \<Rightarrow> Message
     \<Rightarrow> (Message option, ('st, 'g) RaftNode) outcome" where
  "handle_request E n message =
     (if \<not> is_request (msg_rpc message) then
        Exc (InvalidArgument ''Raft message must contain a request'') n
      else
        (let first_new_message = length (outbox n) in
         and_then (step_locked E n message) (\<lambda>accepted n1.
           if \<not> accepted then Ret None n1
           else
             (case take_answer message (drop first_new_message (outbox n1)) of
                None \<Rightarrow> Ret None n1
              | Some (response, rest) \<Rightarrow>
                  Ret (Some response)
                    (n1\<lparr>outbox := take first_new_message (outbox n1) @ rest\<rparr>)))))"

definition propose ::
    "('st, 'g) RaftEnv \<Rightarrow> ('st, 'g) RaftNode \<Rightarrow> bytes
     \<Rightarrow> (LogIndex option, ('st, 'g) RaftNode) outcome" where
  "propose E n command =
     (if node_state n \<noteq> Leader then Ret None n
      else if (of_nat (length (rlog n)) :: u64) = - 1 then
        Exc (RaftError ''Raft log index overflow'') n
      else
        and_then (persist_locked E
                    (n\<lparr>rlog := rlog n @ [LogEntry (current_term n) command False]\<rparr>))
          (\<lambda>_ n1. let index = last_log_index_locked n1 in
             and_then (advance_commit_index_locked n1) (\<lambda>_ n2.
             and_then (broadcast_append_entries_locked n2) (\<lambda>_ n3. Ret (Some index) n3))))"

definition take_messages :: "('st, 'g) RaftNode \<Rightarrow> Message list \<times> ('st, 'g) RaftNode" where
  "take_messages n = (outbox n, n\<lparr>outbox := []\<rparr>)"

definition take_committed_entries ::
    "('st, 'g) RaftNode \<Rightarrow> CommittedEntry list \<times> ('st, 'g) RaftNode" where
  "take_committed_entries n = (committed_entries n, n\<lparr>committed_entries := []\<rparr>)"

definition RaftNode_id :: "('st, 'g) RaftNode \<Rightarrow> NodeId" where
  [simp]: "RaftNode_id n = node_id n"

definition RaftNode_state :: "('st, 'g) RaftNode \<Rightarrow> NodeState" where
  "RaftNode_state n = node_state n"

definition RaftNode_current_term :: "('st, 'g) RaftNode \<Rightarrow> Term" where
  "RaftNode_current_term n = current_term n"

definition RaftNode_leader_id :: "('st, 'g) RaftNode \<Rightarrow> NodeId option" where
  "RaftNode_leader_id n = leader_id n"

definition RaftNode_commit_index :: "('st, 'g) RaftNode \<Rightarrow> LogIndex" where
  "RaftNode_commit_index n = commit_index n"

definition RaftNode_last_applied :: "('st, 'g) RaftNode \<Rightarrow> LogIndex" where
  "RaftNode_last_applied n = last_applied n"

definition log_entries :: "('st, 'g) RaftNode \<Rightarrow> LogEntry list" where
  "log_entries n = tl (rlog n)"

definition snapshot :: "('st, 'g) RaftNode \<Rightarrow> NodeSnapshot" where
  "snapshot n =
     NodeSnapshot (node_id n) (node_state n) (current_term n) (leader_id n) (commit_index n)
       (last_applied n) (last_log_index_locked n)"

end
