(* ===== verification/RaftSpec.thy ===== *)
theory RaftSpec
  imports RaftTypes
begin

text \<open>
  What the consensus core promises, stated without messages, timers, indexes or storage: an
  abstract protocol over histories of votes, leader logs, acknowledgements and commits, and the
  proof that it is safe. The theory of the cluster shows that the code's state machine implements
  this protocol.
\<close>

section \<open>The abstract protocol\<close>

text \<open>
  \<open>cur\<close> and \<open>alog\<close> are the term and the log of each node (logs have no sentinel here). The other
  components are histories: the log with which a node campaigned in a term, the votes (voter,
  term, candidate, log of the voter when it voted), the leader of a term, the log it was elected
  with, its log so far, the acknowledgements (node, term, length of the acknowledged prefix of the
  leader's log) and the committed prefixes (term, length).
\<close>

record raft_abs =
  cur :: "NodeId \<Rightarrow> Term"
  alog :: "NodeId \<Rightarrow> LogEntry list"
  cand :: "Term \<Rightarrow> NodeId \<Rightarrow> LogEntry list option"
  votes :: "(NodeId \<times> Term \<times> NodeId \<times> LogEntry list) set"
  lead :: "Term \<Rightarrow> NodeId option"
  elog :: "Term \<Rightarrow> LogEntry list"
  llog :: "Term \<Rightarrow> LogEntry list"
  acks :: "(NodeId \<times> Term \<times> nat) set"
  committed :: "(Term \<times> nat) set"

definition last_term :: "LogEntry list \<Rightarrow> Term" where
  "last_term l = (if l = [] then 0 else le_term (last l))"

definition up_to_date :: "LogEntry list \<Rightarrow> LogEntry list \<Rightarrow> bool" where
  "up_to_date cl vl \<longleftrightarrow>
     last_term vl < last_term cl \<or> last_term cl = last_term vl \<and> length vl \<le> length cl"

definition noop_entry :: "Term \<Rightarrow> LogEntry" where
  "noop_entry t = LogEntry t [] True"

definition init_abs :: raft_abs where
  "init_abs =
     \<lparr> cur = (\<lambda>_. 0), alog = (\<lambda>_. []), cand = (\<lambda>_ _. None), votes = {}, lead = (\<lambda>_. None),
       elog = (\<lambda>_. []), llog = (\<lambda>_. []), acks = {}, committed = {} \<rparr>"

text \<open>The steps of node \<open>i\<close>, for a set \<open>Q\<close> of quorums.\<close>

inductive astep :: "NodeId set set \<Rightarrow> NodeId \<Rightarrow> raft_abs \<Rightarrow> raft_abs \<Rightarrow> bool"
  for Q :: "NodeId set set" and i :: NodeId where
  bump: "cur a i < t \<Longrightarrow> astep Q i a (a\<lparr>cur := (cur a)(i := t)\<rparr>)"
| campaign: "cur a i < t \<Longrightarrow>
    astep Q i a (a\<lparr>cur := (cur a)(i := t), cand := (cand a)(t := (cand a t)(i \<mapsto> alog a i)),
                  votes := insert (i, t, i, alog a i) (votes a)\<rparr>)"
| vote: "cand a (cur a i) c = Some cl \<Longrightarrow> (\<And>c' l. (i, cur a i, c', l) \<notin> votes a) \<Longrightarrow>
    up_to_date cl (alog a i) \<Longrightarrow>
    astep Q i a (a\<lparr>votes := insert (i, cur a i, c, alog a i) (votes a)\<rparr>)"
| win: "cand a (cur a i) i = Some (alog a i) \<Longrightarrow> lead a (cur a i) \<noteq> Some i \<Longrightarrow> q \<in> Q \<Longrightarrow>
    (\<And>v. v \<in> q \<Longrightarrow> \<exists>l. (v, cur a i, i, l) \<in> votes a) \<Longrightarrow>
    astep Q i a (a\<lparr>lead := (lead a)(cur a i \<mapsto> i), elog := (elog a)(cur a i := alog a i),
                  llog := (llog a)(cur a i := alog a i @ [noop_entry (cur a i)]),
                  alog := (alog a)(i := alog a i @ [noop_entry (cur a i)])\<rparr>)"
| extend: "lead a (cur a i) = Some i \<Longrightarrow> alog a i = llog a (cur a i) \<Longrightarrow> le_term e = cur a i \<Longrightarrow>
    astep Q i a (a\<lparr>llog := (llog a)(cur a i := alog a i @ [e]),
                  alog := (alog a)(i := alog a i @ [e])\<rparr>)"
| accept: "lead a (cur a i) \<noteq> None \<Longrightarrow> prefix p (llog a (cur a i)) \<Longrightarrow> \<not> prefix p (alog a i) \<Longrightarrow>
    astep Q i a (a\<lparr>alog := (alog a)(i := p)\<rparr>)"
| ack: "lead a (cur a i) \<noteq> None \<Longrightarrow> k \<le> length (llog a (cur a i)) \<Longrightarrow>
    prefix (take k (llog a (cur a i))) (alog a i) \<Longrightarrow>
    astep Q i a (a\<lparr>acks := acks a \<union> {(i, cur a i, j) | j. j \<le> k}\<rparr>)"
| commit: "lead a (cur a i) = Some i \<Longrightarrow> 0 < k \<Longrightarrow> k \<le> length (llog a (cur a i)) \<Longrightarrow>
    le_term (llog a (cur a i) ! (k - 1)) = cur a i \<Longrightarrow> q \<in> Q \<Longrightarrow>
    (\<And>v. v \<in> q \<Longrightarrow> (v, cur a i, k) \<in> acks a) \<Longrightarrow>
    astep Q i a (a\<lparr>committed := insert (cur a i, k) (committed a)\<rparr>)"

section \<open>Histories only grow\<close>

definition aext :: "raft_abs \<Rightarrow> raft_abs \<Rightarrow> bool" where
  "aext a b \<longleftrightarrow>
     (\<forall>v. cur a v \<le> cur b v) \<and>
     (\<forall>t c l. cand a t c = Some l \<longrightarrow> cand b t c = Some l) \<and>
     votes a \<subseteq> votes b \<and> acks a \<subseteq> acks b \<and> committed a \<subseteq> committed b \<and>
     (\<forall>t c. lead a t = Some c \<longrightarrow>
        lead b t = Some c \<and> elog b t = elog a t \<and> prefix (llog a t) (llog b t))"

lemma aext_refl [simp, intro]: "aext a a"
  by (simp add: aext_def)

lemma aext_cur: "aext a b \<Longrightarrow> cur a v \<le> cur b v"
  by (simp add: aext_def)

lemma aext_cand: "aext a b \<Longrightarrow> cand a t c = Some l \<Longrightarrow> cand b t c = Some l"
  by (simp add: aext_def)

lemma aext_lead: "aext a b \<Longrightarrow> lead a t = Some c \<Longrightarrow>
    lead b t = Some c \<and> elog b t = elog a t \<and> prefix (llog a t) (llog b t)"
  by (simp add: aext_def)

lemma aext_votes: "aext a b \<Longrightarrow> x \<in> votes a \<Longrightarrow> x \<in> votes b"
  by (auto simp: aext_def)

lemma aext_acks: "aext a b \<Longrightarrow> x \<in> acks a \<Longrightarrow> x \<in> acks b"
  by (auto simp: aext_def)

lemma aext_committed: "aext a b \<Longrightarrow> x \<in> committed a \<Longrightarrow> x \<in> committed b"
  by (auto simp: aext_def)

lemma aext_trans:
  assumes ab: "aext a b" and bc: "aext b c"
  shows "aext a c"
  unfolding aext_def
proof (intro conjI allI impI subsetI)
  fix v show "cur a v \<le> cur c v"
    using aext_cur [OF ab] aext_cur [OF bc] by (rule order_trans)
next
  fix t d assume "lead a t = Some d"
  then have x: "lead b t = Some d \<and> elog b t = elog a t \<and> prefix (llog a t) (llog b t)"
    by (rule aext_lead [OF ab])
  then have y: "lead c t = Some d \<and> elog c t = elog b t \<and> prefix (llog b t) (llog c t)"
    using aext_lead [OF bc, of t d] by simp
  show "lead c t = Some d" "elog c t = elog a t" "prefix (llog a t) (llog c t)"
    using x y by (auto intro: prefix_order.order_trans)
qed (use ab bc in \<open>auto simp: aext_def\<close>)

lemma prefix_take_same: "prefix xs ys \<Longrightarrow> k \<le> length xs \<Longrightarrow> take k ys = take k xs"
  by (auto elim!: prefixE)

lemma prefix_take_take: "k \<le> j \<Longrightarrow> prefix (take k xs) (take j xs)"
  using take_is_prefix [of k "take j xs"] by (simp add: min_absorb1)

lemma prefix_nth: "prefix xs ys \<Longrightarrow> k < length xs \<Longrightarrow> ys ! k = xs ! k"
  by (auto elim!: prefixE simp: nth_append)

lemma aext_take_llog:
  "aext a b \<Longrightarrow> lead a t \<noteq> None \<Longrightarrow> k \<le> length (llog a t) \<Longrightarrow> take k (llog b t) = take k (llog a t)"
  by (auto dest!: aext_lead intro: prefix_take_same)

lemma aext_length_llog: "aext a b \<Longrightarrow> lead a t \<noteq> None \<Longrightarrow> length (llog a t) \<le> length (llog b t)"
  by (auto dest!: aext_lead intro: prefix_length_le)

section \<open>Invariants\<close>

text \<open>
  A log is well formed if each of its prefixes is a prefix of the log of the leader that created
  the last entry of the prefix. Two well-formed logs whose entries at some index have the same
  term therefore agree up to that index: this is Raft's log matching property.
\<close>

definition wflog :: "raft_abs \<Rightarrow> LogEntry list \<Rightarrow> bool" where
  "wflog a l \<longleftrightarrow> (\<forall>k < length l. lead a (le_term (l ! k)) \<noteq> None \<and>
                                prefix (take (Suc k) l) (llog a (le_term (l ! k))))"

text \<open>
  A prefix acknowledged in term \<open>t\<close> was lost by some leader after \<open>t\<close> and up to term \<open>u\<close>: that
  leader was elected with a log that does not extend it.
\<close>

definition lost :: "raft_abs \<Rightarrow> Term \<Rightarrow> nat \<Rightarrow> Term \<Rightarrow> bool" where
  "lost a t k u \<longleftrightarrow>
     (\<exists>s. t < s \<and> s \<le> u \<and> lead a s \<noteq> None \<and> \<not> prefix (take k (llog a t)) (elog a s))"

definition lost_before :: "raft_abs \<Rightarrow> Term \<Rightarrow> nat \<Rightarrow> Term \<Rightarrow> bool" where
  "lost_before a t k u \<longleftrightarrow>
     (\<exists>s. t < s \<and> s < u \<and> lead a s \<noteq> None \<and> \<not> prefix (take k (llog a t)) (elog a s))"

definition inv_cand :: "raft_abs \<Rightarrow> bool" where
  "inv_cand a \<longleftrightarrow>
     (\<forall>t c l. cand a t c = Some l \<longrightarrow>
        0 < t \<and> t \<le> cur a c \<and> wflog a l \<and> (\<forall>e \<in> set l. le_term e < t))"

definition inv_votes :: "raft_abs \<Rightarrow> bool" where
  "inv_votes a \<longleftrightarrow>
     (\<forall>v t c l. (v, t, c, l) \<in> votes a \<longrightarrow>
        t \<le> cur a v \<and> wflog a l \<and> (\<exists>cl. cand a t c = Some cl \<and> up_to_date cl l)) \<and>
     (\<forall>v t c l c' l'. (v, t, c, l) \<in> votes a \<longrightarrow> (v, t, c', l') \<in> votes a \<longrightarrow> c = c' \<and> l = l')"

definition inv_node :: "raft_abs \<Rightarrow> bool" where
  "inv_node a \<longleftrightarrow> (\<forall>v. wflog a (alog a v) \<and> (\<forall>e \<in> set (alog a v). le_term e \<le> cur a v))"

definition inv_acks :: "raft_abs \<Rightarrow> bool" where
  "inv_acks a \<longleftrightarrow>
     (\<forall>v t k. (v, t, k) \<in> acks a \<longrightarrow>
        lead a t \<noteq> None \<and> k \<le> length (llog a t) \<and> t \<le> cur a v \<and>
        (prefix (take k (llog a t)) (alog a v) \<or> lost a t k (cur a v)))"

definition inv_voter_acks :: "raft_abs \<Rightarrow> bool" where
  "inv_voter_acks a \<longleftrightarrow>
     (\<forall>v u c l t k. (v, u, c, l) \<in> votes a \<longrightarrow> (v, t, k) \<in> acks a \<longrightarrow> t < u \<longrightarrow>
        prefix (take k (llog a t)) l \<or> lost a t k u)"

definition inv_lead :: "raft_abs \<Rightarrow> bool" where
  "inv_lead a \<longleftrightarrow>
     (\<forall>t c. lead a t = Some c \<longrightarrow>
        cand a t c = Some (elog a t) \<and> wflog a (llog a t) \<and>
        prefix (elog a t @ [noop_entry t]) (llog a t) \<and>
        (\<forall>e \<in> set (drop (length (elog a t)) (llog a t)). le_term e = t))"

definition elected :: "NodeId set set \<Rightarrow> raft_abs \<Rightarrow> Term \<Rightarrow> NodeId \<Rightarrow> bool" where
  "elected Q a t c \<longleftrightarrow>
     (\<exists>q \<in> Q. \<forall>v \<in> q. \<exists>l. (v, t, c, l) \<in> votes a \<and>
        (\<forall>s k. (v, s, k) \<in> acks a \<longrightarrow> s < t \<longrightarrow>
           prefix (take k (llog a s)) l \<or> lost_before a s k t))"

definition inv_elected :: "NodeId set set \<Rightarrow> raft_abs \<Rightarrow> bool" where
  "inv_elected Q a \<longleftrightarrow> (\<forall>t c. lead a t = Some c \<longrightarrow> elected Q a t c)"

definition inv_committed :: "NodeId set set \<Rightarrow> raft_abs \<Rightarrow> bool" where
  "inv_committed Q a \<longleftrightarrow>
     (\<forall>t k. (t, k) \<in> committed a \<longrightarrow>
        lead a t \<noteq> None \<and> 0 < k \<and> k \<le> length (llog a t) \<and> le_term (llog a t ! (k - 1)) = t \<and>
        (\<exists>q \<in> Q. \<forall>v \<in> q. (v, t, k) \<in> acks a))"

definition ainv :: "NodeId set set \<Rightarrow> raft_abs \<Rightarrow> bool" where
  "ainv Q a \<longleftrightarrow> inv_cand a \<and> inv_votes a \<and> inv_node a \<and> inv_acks a \<and> inv_voter_acks a \<and>
     inv_lead a \<and> inv_elected Q a \<and> inv_committed Q a"

lemmas ainv_defs = ainv_def inv_cand_def inv_votes_def inv_node_def inv_acks_def
  inv_voter_acks_def inv_lead_def inv_elected_def inv_committed_def

lemma ainv_init: "ainv Q init_abs"
  by (simp add: ainv_defs init_abs_def wflog_def)

lemma ainv_candD:
  "ainv Q a \<Longrightarrow> cand a t c = Some l \<Longrightarrow>
   0 < t \<and> t \<le> cur a c \<and> wflog a l \<and> (\<forall>e \<in> set l. le_term e < t)"
  unfolding ainv_def inv_cand_def by blast

lemma ainv_votesD:
  "ainv Q a \<Longrightarrow> (v, t, c, l) \<in> votes a \<Longrightarrow>
   t \<le> cur a v \<and> wflog a l \<and> (\<exists>cl. cand a t c = Some cl \<and> up_to_date cl l)"
  unfolding ainv_def inv_votes_def by blast

lemma ainv_votes_unique:
  "ainv Q a \<Longrightarrow> (v, t, c, l) \<in> votes a \<Longrightarrow> (v, t, c', l') \<in> votes a \<Longrightarrow> c = c' \<and> l = l'"
  unfolding ainv_def inv_votes_def by blast

lemma ainv_nodeD:
  "ainv Q a \<Longrightarrow> wflog a (alog a v)" "ainv Q a \<Longrightarrow> e \<in> set (alog a v) \<Longrightarrow> le_term e \<le> cur a v"
  unfolding ainv_def inv_node_def by blast+

lemma ainv_acksD:
  "ainv Q a \<Longrightarrow> (v, t, k) \<in> acks a \<Longrightarrow>
   lead a t \<noteq> None \<and> k \<le> length (llog a t) \<and> t \<le> cur a v \<and>
   (prefix (take k (llog a t)) (alog a v) \<or> lost a t k (cur a v))"
  unfolding ainv_def inv_acks_def by blast

lemma ainv_voter_acksD:
  "ainv Q a \<Longrightarrow> (v, u, c, l) \<in> votes a \<Longrightarrow> (v, t, k) \<in> acks a \<Longrightarrow> t < u \<Longrightarrow>
   prefix (take k (llog a t)) l \<or> lost a t k u"
  unfolding ainv_def inv_voter_acks_def by blast

lemma ainv_leadD:
  "ainv Q a \<Longrightarrow> lead a t = Some c \<Longrightarrow>
   cand a t c = Some (elog a t) \<and> wflog a (llog a t) \<and>
   prefix (elog a t @ [noop_entry t]) (llog a t) \<and>
   (\<forall>e \<in> set (drop (length (elog a t)) (llog a t)). le_term e = t)"
  unfolding ainv_def inv_lead_def by blast

lemma ainv_electedD: "ainv Q a \<Longrightarrow> lead a t = Some c \<Longrightarrow> elected Q a t c"
  unfolding ainv_def inv_elected_def by blast

lemma ainv_committedD:
  "ainv Q a \<Longrightarrow> (t, k) \<in> committed a \<Longrightarrow>
   lead a t \<noteq> None \<and> 0 < k \<and> k \<le> length (llog a t) \<and> le_term (llog a t ! (k - 1)) = t \<and>
   (\<exists>q \<in> Q. \<forall>v \<in> q. (v, t, k) \<in> acks a)"
  unfolding ainv_def inv_committed_def by blast

subsection \<open>Well-formed logs\<close>

lemma wflog_Nil [simp]: "wflog a []"
  by (simp add: wflog_def)

lemma wflogD:
  "wflog a l \<Longrightarrow> k < length l \<Longrightarrow>
   lead a (le_term (l ! k)) \<noteq> None \<and> prefix (take (Suc k) l) (llog a (le_term (l ! k)))"
  by (simp add: wflog_def)

lemma wflog_mono:
  assumes "aext a b" "wflog a l"
  shows "wflog b l"
  unfolding wflog_def
proof (intro allI impI)
  fix k assume "k < length l"
  then obtain c where "lead a (le_term (l ! k)) = Some c"
    and p: "prefix (take (Suc k) l) (llog a (le_term (l ! k)))"
    using wflogD [OF assms(2)] by blast
  then show "lead b (le_term (l ! k)) \<noteq> None \<and>
      prefix (take (Suc k) l) (llog b (le_term (l ! k)))"
    using aext_lead [OF assms(1)] prefix_order.order_trans [OF p] by auto
qed

lemma wflog_prefix:
  assumes "wflog a l" "prefix p l"
  shows "wflog a p"
  unfolding wflog_def
proof (intro allI impI)
  fix k assume k: "k < length p"
  have "k < length l" "l ! k = p ! k" "take (Suc k) l = take (Suc k) p"
    using k prefix_length_le [OF assms(2)] prefix_nth [OF assms(2) k]
      prefix_take_same [OF assms(2), of "Suc k"] by auto
  then show "lead a (le_term (p ! k)) \<noteq> None \<and>
      prefix (take (Suc k) p) (llog a (le_term (p ! k)))"
    using wflogD [OF assms(1), of k] by simp
qed

lemma wflog_snoc:
  "wflog a l \<Longrightarrow> lead a (le_term e) \<noteq> None \<Longrightarrow> prefix (l @ [e]) (llog a (le_term e)) \<Longrightarrow>
   wflog a (l @ [e])"
  unfolding wflog_def by (auto simp: nth_append less_Suc_eq)

text \<open>The last entry of a non-empty well-formed log determines the whole log.\<close>

lemma wflog_last:
  assumes "wflog a l" "l \<noteq> []"
  shows "lead a (last_term l) \<noteq> None \<and> prefix l (llog a (last_term l))"
proof -
  have "length l - 1 < length l" using assms(2) by simp
  then have "lead a (le_term (l ! (length l - 1))) \<noteq> None \<and>
      prefix (take (Suc (length l - 1)) l) (llog a (le_term (l ! (length l - 1))))"
    using assms(1) unfolding wflog_def by blast
  then show ?thesis
    using assms(2) by (simp add: last_term_def last_conv_nth)
qed

text \<open>Log matching: equal terms at an index make the logs equal up to that index.\<close>

lemma wflog_matching:
  assumes "wflog a l" "wflog a l'" "k < length l" "k < length l'"
    and "le_term (l ! k) = le_term (l' ! k)"
  shows "take (Suc k) l = take (Suc k) l'"
proof -
  let ?L = "llog a (le_term (l ! k))"
  have "prefix (take (Suc k) l) ?L" "prefix (take (Suc k) l') ?L"
    using assms by (auto simp: wflog_def)
  then have "take (Suc k) l = take (Suc k) ?L" "take (Suc k) l' = take (Suc k) ?L"
    using assms(3,4) by (auto elim!: prefixE)
  then show ?thesis by simp
qed

subsection \<open>Every step keeps the invariant\<close>

lemma lost_mono:
  assumes "aext a b" "lead a t \<noteq> None" "k \<le> length (llog a t)" "u \<le> u'"
  shows "lost a t k u \<Longrightarrow> lost b t k u'" and "lost_before a t k u \<Longrightarrow> lost_before b t k u'"
proof -
  have tk: "take k (llog b t) = take k (llog a t)"
    using assms by (intro aext_take_llog) auto
  have le: "lead a s \<noteq> None \<Longrightarrow> lead b s \<noteq> None \<and> elog b s = elog a s" for s
    using aext_lead [OF assms(1)] by blast
  show "lost a t k u \<Longrightarrow> lost b t k u'"
    unfolding lost_def tk using le assms(4) by (metis order_trans)
  show "lost_before a t k u \<Longrightarrow> lost_before b t k u'"
    unfolding lost_before_def tk using le assms(4) by (metis order_less_le_trans)
qed

lemma lost_le: "lost a t k u \<Longrightarrow> u \<le> u' \<Longrightarrow> lost a t k u'"
  unfolding lost_def by (blast intro: order_trans)

lemma llog_terms:
  assumes "ainv Q a" "lead a t = Some c" "e \<in> set (llog a t)"
  shows "le_term e \<le> t"
proof -
  note l = ainv_leadD [OF assms(1,2)]
  have "set (llog a t) = set (elog a t) \<union> set (drop (length (elog a t)) (llog a t))"
  proof -
    have "prefix (elog a t) (llog a t)" using l by (auto dest: append_prefixD)
    then show ?thesis by (auto elim!: prefixE)
  qed
  then show ?thesis
    using l ainv_candD [OF assms(1), of t c "elog a t"] assms(3) by (auto intro: order_less_imp_le)
qed

lemma elog_prefix_llog: "ainv Q a \<Longrightarrow> lead a t = Some c \<Longrightarrow> prefix (elog a t) (llog a t)"
  by (meson ainv_leadD append_prefixD)

text \<open>An accepted prefix keeps what the log and the leader's log have in common.\<close>

lemma prefix_accept:
  assumes "prefix q l" "prefix q ll" "prefix p ll" "\<not> prefix p l"
  shows "prefix q p"
  using assms prefix_same_cases [of q ll p] prefix_order.order_trans by blast

lemma up_to_date_refl [simp]: "up_to_date l l"
  by (simp add: up_to_date_def)

locale quorum_system =
  fixes Q :: "NodeId set set"
  assumes quorum_intersect: "q \<in> Q \<Longrightarrow> q' \<in> Q \<Longrightarrow> q \<inter> q' \<noteq> {}"
begin

text \<open>Two elections won in the same term have the same winner.\<close>

lemma one_winner:
  assumes inv: "ainv Q a"
    and "lead a t = Some c" "q \<in> Q" "\<And>v. v \<in> q \<Longrightarrow> \<exists>l. (v, t, d, l) \<in> votes a"
  shows "c = d"
proof -
  obtain q' where q': "q' \<in> Q" "\<And>v. v \<in> q' \<Longrightarrow> \<exists>l. (v, t, c, l) \<in> votes a"
    using ainv_electedD [OF inv assms(2)] unfolding elected_def by metis
  obtain v where "v \<in> q" "v \<in> q'"
    using quorum_intersect [OF assms(3) q'(1)] by blast
  then show ?thesis
    using q'(2) assms(4) ainv_votes_unique [OF inv] by blast
qed

lemma win_fresh:
  assumes "ainv Q a" "lead a (cur a i) \<noteq> Some i" "q \<in> Q"
    "\<And>v. v \<in> q \<Longrightarrow> \<exists>l. (v, cur a i, i, l) \<in> votes a"
  shows "lead a (cur a i) = None"
  using one_winner [OF assms(1) _ assms(3,4)] assms(2) by (cases "lead a (cur a i)") auto

lemma campaign_fresh: "ainv Q a \<Longrightarrow> cur a i < t \<Longrightarrow> cand a t i = None"
  using ainv_candD [of Q a t i] by (cases "cand a t i") auto

lemma astep_aext:
  assumes inv: "ainv Q a" and "astep Q i a b"
  shows "aext a b"
  using assms(2)
proof cases
  case (campaign t)
  then show ?thesis
    using campaign_fresh [OF inv campaign(2)] by (auto simp: aext_def)
next
  case (win q)
  have "lead a (cur a i) = None"
    by (rule win_fresh [OF inv win(3-5)])
  then show ?thesis
    using win by (auto simp: aext_def)
qed (auto simp: aext_def)

lemma astep_inv_cand:
  assumes inv: "ainv Q a" and st: "astep Q i a b"
  shows "inv_cand b"
proof -
  note ext = astep_aext [OF inv st]
  have "0 < t \<and> t \<le> cur b c \<and> wflog b l \<and> (\<forall>e \<in> set l. le_term e < t)"
    if "cand b t c = Some l" for t c l
  proof (cases "cand a t c = Some l")
    case True
    then show ?thesis
      using ainv_candD [OF inv True] aext_cur [OF ext, of c] wflog_mono [OF ext]
      by (auto intro: order_trans)
  next
    case False
    then have "cur a i < t" "c = i" "l = alog a i" "cur b i = t"
      using that st by (auto elim!: astep.cases split: if_splits)
    then show ?thesis
      using ainv_nodeD [OF inv] wflog_mono [OF ext]
      by (auto intro: order_le_less_trans simp: word_gt_0)
  qed
  then show ?thesis unfolding inv_cand_def by blast
qed

lemma astep_inv_votes:
  assumes inv: "ainv Q a" and st: "astep Q i a b"
  shows "inv_votes b"
proof -
  note ext = astep_aext [OF inv st]
  have new: "v = i \<and> t = cur b i \<and> l = alog a i \<and> (\<forall>c' l'. (i, t, c', l') \<notin> votes a) \<and>
      votes b = insert (i, t, c, l) (votes a) \<and> (\<exists>cl. cand b t c = Some cl \<and> up_to_date cl l)"
    if "(v, t, c, l) \<in> votes b" "(v, t, c, l) \<notin> votes a" for v t c l
    using st that ainv_votesD [OF inv] by (cases rule: astep.cases) fastforce+
  show ?thesis
    unfolding inv_votes_def
  proof (intro conjI allI impI)
    fix v t c l assume v: "(v, t, c, l) \<in> votes b"
    show "t \<le> cur b v" "wflog b l" "\<exists>cl. cand b t c = Some cl \<and> up_to_date cl l"
      using new [OF v] ainv_votesD [OF inv, of v t c l] aext_cur [OF ext, of v]
        aext_cand [OF ext] ainv_nodeD [OF inv] wflog_mono [OF ext]
      by (cases "(v, t, c, l) \<in> votes a"; auto intro: order_trans)+
  next
    fix v t c l c' l'
    assume "(v, t, c, l) \<in> votes b" "(v, t, c', l') \<in> votes b"
    then show "c = c'" "l = l'"
      using new [of v t c l] new [of v t c' l'] ainv_votes_unique [OF inv, of v t c l c' l']
      by (cases "(v, t, c, l) \<in> votes a"; cases "(v, t, c', l') \<in> votes a"; auto)+
  qed
qed

lemma astep_inv_lead:
  assumes inv: "ainv Q a" and st: "astep Q i a b"
  shows "inv_lead b"
  unfolding inv_lead_def
proof (intro allI impI)
  fix t c assume t: "lead b t = Some c"
  note ext = astep_aext [OF inv st]
  let ?P = "cand b t c = Some (elog b t) \<and> wflog b (llog b t) \<and>
    prefix (elog b t @ [noop_entry t]) (llog b t) \<and>
    (\<forall>e \<in> set (drop (length (elog b t)) (llog b t)). le_term e = t)"
  have old: ?P if "lead a t = Some c" "llog b t = llog a t"
    using ainv_leadD [OF inv that(1)] aext_lead [OF ext that(1)] that(2) aext_cand [OF ext]
      wflog_mono [OF ext] by simp
  show ?P
    using st
  proof cases
    case (win q)
    show ?thesis
    proof (cases "t = cur a i")
      case True
      have "wflog b (alog a i @ [noop_entry t])"
        by (rule wflog_snoc)
          (use win True ainv_nodeD(1) [OF inv] wflog_mono [OF ext] in \<open>auto simp: noop_entry_def\<close>)
      then show ?thesis using win True t by (auto simp: noop_entry_def)
    qed (use win t old in auto)
  next
    case (extend e)
    show ?thesis
    proof (cases "t = cur a i")
      case True
      have l: "lead a t = Some i" using extend True by simp
      have "wflog b (llog a t @ [e])"
        by (rule wflog_snoc)
          (use extend True ainv_leadD [OF inv l] wflog_mono [OF ext] in auto)
      then show ?thesis
        using extend True t ainv_leadD [OF inv l]
        by (auto dest: prefix_length_le intro: prefix_order.order_trans)
    qed (use extend t old in auto)
  qed (use t old in auto)
qed

lemma astep_inv_node:
  assumes inv: "ainv Q a" and st: "astep Q i a b"
  shows "inv_node b"
  unfolding inv_node_def
proof (intro allI)
  fix v
  note ext = astep_aext [OF inv st]
  note il = astep_inv_lead [OF inv st, unfolded inv_lead_def, rule_format]
  have old: "wflog b (alog a v) \<and> (\<forall>e \<in> set (alog a v). le_term e \<le> cur b v)"
    using ainv_nodeD(1) [OF inv, of v] ainv_nodeD(2) [OF inv, of _ v] aext_cur [OF ext, of v]
      wflog_mono [OF ext]
    by (auto intro: order_trans)
  show "wflog b (alog b v) \<and> (\<forall>e \<in> set (alog b v). le_term e \<le> cur b v)"
    using st
  proof cases
    case (win q)
    then show ?thesis
      using old il [of "cur a i" i] ainv_nodeD(2) [OF inv] by (cases "v = i") (auto simp: noop_entry_def)
  next
    case (extend e)
    then show ?thesis
      using old il [of "cur a i" i] ainv_nodeD(2) [OF inv] by (cases "v = i") auto
  next
    case (accept p)
    then obtain c where c: "lead a (cur a i) = Some c" by auto
    have "wflog b p"
      using wflog_mono [OF ext] wflog_prefix [OF _ accept(3)] ainv_leadD [OF inv c] by blast
    moreover have "\<forall>e \<in> set p. le_term e \<le> cur a i"
      using llog_terms [OF inv c] set_mono_prefix [OF accept(3)] by blast
    ultimately show ?thesis
      using accept old by (cases "v = i") auto
  qed (use old in auto)
qed

lemma accept_keeps:
  assumes inv: "ainv Q a" and "lead a t \<noteq> None" "k \<le> length (llog a t)" "t \<le> cur a i"
    and "lead a (cur a i) = Some c" "prefix p (llog a (cur a i))" "\<not> prefix p (alog a i)"
    and "prefix (take k (llog a t)) (alog a i)"
  shows "prefix (take k (llog a t)) p \<or> lost a t k (cur a i)"
proof (cases "t = cur a i \<or> prefix (take k (llog a t)) (elog a (cur a i))")
  case True
  then have "prefix (take k (llog a t)) (llog a (cur a i))"
    using elog_prefix_llog [OF inv assms(5)] take_is_prefix prefix_order.order_trans by blast
  then show ?thesis
    using prefix_accept assms(6-8) by blast
next
  case False
  then have "lost a t k (cur a i)"
    unfolding lost_def by (intro exI [where x = "cur a i"]) (use assms(4,5) in auto)
  then show ?thesis ..
qed

lemma astep_inv_acks:
  assumes inv: "ainv Q a" and st: "astep Q i a b"
  shows "inv_acks b"
  unfolding inv_acks_def
proof (intro allI impI)
  fix v t k assume vtk: "(v, t, k) \<in> acks b"
  note ext = astep_aext [OF inv st]
  let ?P = "lead b t \<noteq> None \<and> k \<le> length (llog b t) \<and> t \<le> cur b v \<and>
    (prefix (take k (llog b t)) (alog b v) \<or> lost b t k (cur b v))"
  show ?P
  proof (cases "(v, t, k) \<in> acks a")
    case True
    note A = ainv_acksD [OF inv True]
    have "take k (llog b t) = take k (llog a t)"
      using A by (intro aext_take_llog [OF ext]) auto
    moreover have "lead b t \<noteq> None" "k \<le> length (llog b t)" "t \<le> cur b v"
      using A aext_lead [OF ext, of t] aext_length_llog [OF ext, of t] aext_cur [OF ext, of v]
      by auto
    moreover have "lost a t k (cur a v) \<Longrightarrow> lost b t k (cur b v)"
      using A aext_cur [OF ext] by (intro lost_mono(1) [OF ext]) auto
    moreover have "prefix (take k (llog a t)) (alog b v) \<or> lost b t k (cur b v)"
      if p: "prefix (take k (llog a t)) (alog a v)"
      using st
    proof cases
      case (accept p')
      show ?thesis
      proof (cases "v = i")
        case True
        obtain c where c: "lead a (cur a i) = Some c" using accept by auto
        have "prefix (take k (llog a t)) p' \<or> lost a t k (cur a i)"
          using accept_keeps [OF inv _ _ _ c accept(3,4)] A p True by blast
        then show ?thesis
          using True accept calculation(5) by auto
      qed (use accept p in auto)
    qed (use p in \<open>auto simp: prefix_append\<close>)
    ultimately show ?thesis using A by auto
  next
    case False
    obtain j where j: "v = i" "t = cur a i" "k \<le> j" "lead a t \<noteq> None" "j \<le> length (llog a t)"
      "prefix (take j (llog a t)) (alog a i)"
      and b: "lead b = lead a" "llog b = llog a" "cur b = cur a" "alog b = alog a"
      using st vtk False by (cases rule: astep.cases) auto
    have "prefix (take k (llog a t)) (take j (llog a t))"
      using j(3) by (rule prefix_take_take)
    then have "prefix (take k (llog a t)) (alog a i)"
      using j(6) by (rule prefix_order.order_trans)
    then show ?thesis using j(1-5) b by simp
  qed
qed

lemma astep_inv_voter_acks:
  assumes inv: "ainv Q a" and st: "astep Q i a b"
  shows "inv_voter_acks b"
  unfolding inv_voter_acks_def
proof (intro allI impI)
  fix v u c l t k
  assume V: "(v, u, c, l) \<in> votes b" and A: "(v, t, k) \<in> acks b" and less: "t < u"
  note ext = astep_aext [OF inv st]
  have newV: "v = i \<and> u = cur b i \<and> l = alog a i" if "(v, u, c, l) \<notin> votes a"
    using st V that by (cases rule: astep.cases) auto
  have newA: "v = i \<and> t = cur a i \<and> votes b = votes a" if "(v, t, k) \<notin> acks a"
    using st A that by (cases rule: astep.cases) auto
  have A': "(v, t, k) \<in> acks a"
    using newA V less ainv_votesD [OF inv, of v u c l] by fastforce
  note AD = ainv_acksD [OF inv A']
  have "take k (llog b t) = take k (llog a t)"
    using AD by (intro aext_take_llog [OF ext]) auto
  moreover have "prefix (take k (llog a t)) l \<or> lost a t k u"
  proof (cases "(v, u, c, l) \<in> votes a")
    case True
    then show ?thesis using ainv_voter_acksD [OF inv _ A' less] by blast
  next
    case False
    then have "cur a i \<le> u" "v = i" "l = alog a i"
      using newV aext_cur [OF ext, of i] by auto
    then show ?thesis
      using AD lost_le by blast
  qed
  moreover have "lost a t k u \<Longrightarrow> lost b t k u"
    using AD by (intro lost_mono(1) [OF ext]) auto
  ultimately show "prefix (take k (llog b t)) l \<or> lost b t k u" by auto
qed

lemma elected_mono:
  assumes inv: "ainv Q a" and st: "astep Q i a b" and el: "elected Q a t c"
  shows "elected Q b t c"
proof -
  note ext = astep_aext [OF inv st]
  obtain q where q: "q \<in> Q" and E: "\<And>v. v \<in> q \<Longrightarrow> \<exists>l. (v, t, c, l) \<in> votes a \<and>
      (\<forall>s k. (v, s, k) \<in> acks a \<longrightarrow> s < t \<longrightarrow>
         prefix (take k (llog a s)) l \<or> lost_before a s k t)"
    using el unfolding elected_def by blast
  show ?thesis
    unfolding elected_def
  proof (intro bexI [OF _ q] ballI)
    fix v assume "v \<in> q"
    then obtain l where l: "(v, t, c, l) \<in> votes a"
      and K: "\<And>s k. (v, s, k) \<in> acks a \<Longrightarrow> s < t \<Longrightarrow>
         prefix (take k (llog a s)) l \<or> lost_before a s k t"
      using E by blast
    have "prefix (take k (llog b s)) l \<or> lost_before b s k t"
      if sk: "(v, s, k) \<in> acks b" "s < t" for s k
    proof -
      have "(v, s, k) \<in> acks a"
        using st sk ainv_votesD [OF inv l] by (cases rule: astep.cases) auto
      then have A: "lead a s \<noteq> None" "k \<le> length (llog a s)"
        and P: "prefix (take k (llog a s)) l \<or> lost_before a s k t"
        using ainv_acksD [OF inv] K sk(2) by blast+
      show ?thesis
        using P aext_take_llog [OF ext A] lost_mono(2) [OF ext A order_refl] by auto
    qed
    then show "\<exists>l. (v, t, c, l) \<in> votes b \<and> (\<forall>s k. (v, s, k) \<in> acks b \<longrightarrow> s < t \<longrightarrow>
         prefix (take k (llog b s)) l \<or> lost_before b s k t)"
      using aext_votes [OF ext l] by blast
  qed
qed

lemma win_elected:
  assumes inv: "ainv Q a" and "lead a (cur a i) = None" "q \<in> Q"
    and V: "\<And>v. v \<in> q \<Longrightarrow> \<exists>l. (v, cur a i, i, l) \<in> votes a"
  shows "elected Q a (cur a i) i"
  unfolding elected_def
proof (intro bexI [OF _ \<open>q \<in> Q\<close>] ballI)
  fix v assume "v \<in> q"
  then obtain l where l: "(v, cur a i, i, l) \<in> votes a" using V by blast
  have "prefix (take k (llog a s)) l \<or> lost_before a s k (cur a i)"
    if "(v, s, k) \<in> acks a" "s < cur a i" for s k
    using ainv_voter_acksD [OF inv l that] assms(2) unfolding lost_def lost_before_def
    by (metis order_le_imp_less_or_eq)
  then show "\<exists>l. (v, cur a i, i, l) \<in> votes a \<and> (\<forall>s k. (v, s, k) \<in> acks a \<longrightarrow> s < cur a i \<longrightarrow>
      prefix (take k (llog a s)) l \<or> lost_before a s k (cur a i))"
    using l by blast
qed

lemma astep_inv_elected:
  assumes inv: "ainv Q a" and st: "astep Q i a b"
  shows "inv_elected Q b"
  unfolding inv_elected_def
proof (intro allI impI)
  fix t c assume t: "lead b t = Some c"
  have "elected Q a t c"
  proof (cases "lead a t = Some c")
    case True
    then show ?thesis by (rule ainv_electedD [OF inv])
  next
    case False
    obtain q where "t = cur a i" "c = i" "q \<in> Q" "lead a (cur a i) \<noteq> Some i"
      "\<And>v. v \<in> q \<Longrightarrow> \<exists>l. (v, cur a i, i, l) \<in> votes a"
      using st t False by (cases rule: astep.cases) (auto split: if_splits)
    then show ?thesis
      using win_elected [OF inv win_fresh [OF inv]] by blast
  qed
  then show "elected Q b t c" by (rule elected_mono [OF inv st])
qed

lemma astep_inv_committed:
  assumes inv: "ainv Q a" and st: "astep Q i a b"
  shows "inv_committed Q b"
  unfolding inv_committed_def
proof (intro allI impI)
  fix t k assume tk: "(t, k) \<in> committed b"
  note ext = astep_aext [OF inv st]
  have C: "lead a t \<noteq> None \<and> 0 < k \<and> k \<le> length (llog a t) \<and> le_term (llog a t ! (k - 1)) = t \<and>
      (\<exists>q \<in> Q. \<forall>v \<in> q. (v, t, k) \<in> acks a)"
  proof (cases "(t, k) \<in> committed a")
    case True
    then show ?thesis by (rule ainv_committedD [OF inv])
  next
    case False
    show ?thesis using st tk False by (cases rule: astep.cases) auto
  qed
  moreover have "llog b t ! (k - 1) = llog a t ! (k - 1)"
    using C aext_lead [OF ext, of t] by (auto intro: prefix_nth)
  moreover have "lead b t \<noteq> None" "k \<le> length (llog b t)"
    using C aext_lead [OF ext, of t] aext_length_llog [OF ext, of t] by auto
  ultimately show "lead b t \<noteq> None \<and> 0 < k \<and> k \<le> length (llog b t) \<and>
      le_term (llog b t ! (k - 1)) = t \<and> (\<exists>q \<in> Q. \<forall>v \<in> q. (v, t, k) \<in> acks b)"
    using aext_acks [OF ext] by metis
qed

lemma astep_ainv:
  assumes inv: "ainv Q a" and st: "astep Q i a b"
  shows "ainv Q b"
  unfolding ainv_def
  using astep_inv_cand [OF inv st] astep_inv_votes [OF inv st] astep_inv_node [OF inv st]
    astep_inv_acks [OF inv st] astep_inv_voter_acks [OF inv st] astep_inv_lead [OF inv st]
    astep_inv_elected [OF inv st] astep_inv_committed [OF inv st]
  by blast

section \<open>Safety\<close>

text \<open>
  The crux of leader completeness: a log that is at least as up to date as a log with an entry of
  term \<open>t\<close> at the end of its prefix \<open>p\<close> extends \<open>p\<close>, provided that every leader elected between
  \<open>t\<close> and the term of its own election does.
\<close>

lemma up_to_date_extends:
  assumes inv: "ainv Q a" and cl: "wflog a cl" and vl: "wflog a vl" and up: "up_to_date cl vl"
    and p: "prefix p vl" "p \<noteq> []" "le_term (last p) = t"
    and between: "\<And>s. t < s \<Longrightarrow> s \<in> le_term ` set cl \<Longrightarrow> prefix p (elog a s)"
  shows "prefix p cl"
proof -
  have vl0: "vl \<noteq> []" using p(1,2) by auto
  have "last p \<in> set vl"
    using p(1,2) last_in_set set_mono_prefix by blast
  obtain cv where cv: "lead a (last_term vl) = Some cv" and pv: "prefix vl (llog a (last_term vl))"
    using wflog_last [OF vl vl0] by blast
  have tle: "t \<le> last_term vl"
    using llog_terms [OF inv cv] pv \<open>last p \<in> set vl\<close> p(3) set_mono_prefix by blast
  have "0 < last_term vl"
    using ainv_candD [OF inv] ainv_leadD [OF inv cv] by blast
  then have cl0: "cl \<noteq> []"
    using up by (auto simp: up_to_date_def last_term_def)
  obtain cc where cc: "lead a (last_term cl) = Some cc" and pc: "prefix cl (llog a (last_term cl))"
    using wflog_last [OF cl cl0] by blast
  show ?thesis
  proof (cases "last_term cl = last_term vl")
    case True
    then have "length vl \<le> length cl" using up by (auto simp: up_to_date_def)
    then have "prefix vl cl"
      using True pv pc prefix_length_prefix by metis
    then show ?thesis using p(1) prefix_order.order_trans by blast
  next
    case False
    then have less: "t < last_term cl"
      using up tle by (auto simp: up_to_date_def)
    have tm: "le_term (last cl) = last_term cl"
      using cl0 by (simp add: last_term_def)
    have pe: "prefix p (elog a (last_term cl))"
      using between [OF less] cl0 tm by (metis image_eqI last_in_set)
    have el: "prefix (elog a (last_term cl)) (llog a (last_term cl))"
      by (rule elog_prefix_llog [OF inv cc])
    have "\<not> prefix cl (elog a (last_term cl))"
    proof
      assume "prefix cl (elog a (last_term cl))"
      then have "last cl \<in> set (elog a (last_term cl))"
        using cl0 last_in_set set_mono_prefix by blast
      then show False
        using ainv_candD [OF inv] ainv_leadD [OF inv cc] tm by fastforce
    qed
    then have "prefix (elog a (last_term cl)) cl"
      using prefix_same_cases [OF pc el] by blast
    then show ?thesis using pe prefix_order.order_trans by blast
  qed
qed

text \<open>Leader completeness: every later leader is elected with all committed entries.\<close>

lemma leader_completeness:
  assumes inv: "ainv Q a" and com: "(t, k) \<in> committed a"
  shows "lead a u = Some c \<Longrightarrow> t < u \<Longrightarrow> prefix (take k (llog a t)) (elog a u)"
proof (induction u arbitrary: c rule: less_induct)
  case (less u)
  note C = ainv_committedD [OF inv com]
  let ?p = "take k (llog a t)"
  obtain q1 where q1: "q1 \<in> Q" "\<And>v. v \<in> q1 \<Longrightarrow> (v, t, k) \<in> acks a"
    using C by blast
  obtain q2 where q2: "q2 \<in> Q" and V: "\<And>v. v \<in> q2 \<Longrightarrow> \<exists>l. (v, u, c, l) \<in> votes a \<and>
      (\<forall>s k. (v, s, k) \<in> acks a \<longrightarrow> s < u \<longrightarrow> prefix (take k (llog a s)) l \<or> lost_before a s k u)"
    using ainv_electedD [OF inv less.prems(1)] unfolding elected_def by blast
  obtain v where v: "v \<in> q1" "v \<in> q2"
    using quorum_intersect [OF q1(1) q2] by blast
  obtain l where l: "(v, u, c, l) \<in> votes a" and kept: "prefix ?p l \<or> lost_before a t k u"
    using V [OF v(2)] q1(2) [OF v(1)] less.prems(2) by blast
  have IH: "prefix ?p (elog a s)" if "t < s" "s < u" "lead a s \<noteq> None" for s
    using less.IH [OF that(2)] that(1,3) by blast
  have pl: "prefix ?p l"
    using kept IH unfolding lost_before_def by blast
  have cd: "cand a u c = Some (elog a u)"
    using ainv_leadD [OF inv less.prems(1)] by blast
  have up: "up_to_date (elog a u) l" and wl: "wflog a l"
    using ainv_votesD [OF inv l] cd by auto
  have wu: "wflog a (elog a u)" and below: "\<And>e. e \<in> set (elog a u) \<Longrightarrow> le_term e < u"
    using ainv_candD [OF inv cd] by blast+
  have p0: "?p \<noteq> []" using C by auto
  have pt: "le_term (last ?p) = t"
    using C last_conv_nth [OF p0] by (simp add: min_absorb2)
  show ?case
  proof (rule up_to_date_extends [OF inv wu wl up pl p0 pt])
    fix s assume s: "t < s" "s \<in> le_term ` set (elog a u)"
    then obtain j where j: "j < length (elog a u)" "s = le_term (elog a u ! j)"
      by (auto simp: in_set_conv_nth)
    show "prefix ?p (elog a s)"
      using IH s below wflogD [OF wu j(1)] j(2) by auto
  qed
qed

text \<open>Committed prefixes of any two terms agree.\<close>

lemma committed_llog:
  assumes inv: "ainv Q a" and com: "(t, k) \<in> committed a" and "lead a u = Some c" "t \<le> u"
  shows "prefix (take k (llog a t)) (llog a u)"
proof (cases "t = u")
  case True
  then show ?thesis by (simp add: take_is_prefix)
next
  case False
  then show ?thesis
    using leader_completeness [OF inv com assms(3)] elog_prefix_llog [OF inv assms(3)] assms(4)
      prefix_order.order_trans by (metis order_le_imp_less_or_eq)
qed

lemma committed_agree:
  assumes inv: "ainv Q a" and "(t, k) \<in> committed a" "(u, m) \<in> committed a" "j < k" "j < m"
  shows "llog a t ! j = llog a u ! j"
proof -
  have *: "llog a t ! j = llog a u ! j"
    if t: "(t, k) \<in> committed a" and u: "(u, m) \<in> committed a" and "t \<le> u" "j < k" for t u k m
  proof -
    obtain c where c: "lead a u = Some c" using ainv_committedD [OF inv u] by blast
    have "k \<le> length (llog a t)" using ainv_committedD [OF inv t] by blast
    then show ?thesis
      using prefix_nth [OF committed_llog [OF inv t c \<open>t \<le> u\<close>], of j] \<open>j < k\<close> by simp
  qed
  show ?thesis
  proof (cases "t \<le> u")
    case True
    then show ?thesis using * [OF assms(2,3)] assms(4) by blast
  next
    case False
    then show ?thesis using * [OF assms(3,2)] assms(5) by (metis linear)
  qed
qed

end

end
