(* ===== verification/RaftNodeFacts.thy ===== *)
theory RaftNodeFacts
  imports RaftNode RaftSpec
begin

text \<open>
  What the loops and helpers of \<open>src/raft/raft_node.cpp\<close> compute, as closed forms: the entries a
  commit delivers, the index an advance commits, the outcome of the entry comparison, the answer
  taken from the outbox. The later theories use these facts instead of the loops.
\<close>

named_theorems node_simps

section \<open>Indexes of a log\<close>

lemma unat_last_index:
  "entries \<noteq> [] \<Longrightarrow> length entries \<le> 2 ^ 64 \<Longrightarrow> unat (last_index entries) = length entries - 1"
proof -
  assume ne: "entries \<noteq> []" and len: "length entries \<le> 2 ^ 64"
  have "last_index entries = of_nat (length entries - 1)"
    using ne by (cases "length entries") (auto simp: last_index_def)
  then show ?thesis
    using ne len by (cases "length entries") auto
qed

lemma le_last_index_iff:
  "entries \<noteq> [] \<Longrightarrow> length entries \<le> 2 ^ 64 \<Longrightarrow> i \<le> last_index entries \<longleftrightarrow> unat i < length entries"
  by (simp add: word_le_nat_alt unat_last_index) (metis Suc_pred le_imp_less_Suc length_greater_0_conv less_Suc_eq_le)

lemma log_at_Some [simp]: "unat i < length entries \<Longrightarrow> log_at entries i = Some (entries ! unat i)"
  by (simp add: log_at_def)

lemma reset_election_timeout_fields [simp]:
  "node_state (reset_election_timeout_locked E n) = node_state n"
  "current_term (reset_election_timeout_locked E n) = current_term n"
  "voted_for (reset_election_timeout_locked E n) = voted_for n"
  "rlog (reset_election_timeout_locked E n) = rlog n"
  "commit_index (reset_election_timeout_locked E n) = commit_index n"
  "last_applied (reset_election_timeout_locked E n) = last_applied n"
  "node_config (reset_election_timeout_locked E n) = node_config n"
  "members (reset_election_timeout_locked E n) = members n"
  "storage (reset_election_timeout_locked E n) = storage n"
  "outbox (reset_election_timeout_locked E n) = outbox n"
  "committed_entries (reset_election_timeout_locked E n) = committed_entries n"
  by (simp_all add: reset_election_timeout_locked_def split: prod.splits)

lemma map_index_Some [simp]: "m k = Some v \<Longrightarrow> map_index m k = (v, m)"
  by (simp add: map_index_def)

section \<open>Delivering committed entries\<close>

definition committed_between :: "LogEntry list \<Rightarrow> nat \<Rightarrow> nat \<Rightarrow> CommittedEntry list" where
  "committed_between entries a b =
     map (\<lambda>j. CommittedEntry (of_nat j) (le_term (entries ! j)) (le_command (entries ! j)))
       (filter (\<lambda>j. \<not> le_is_no_op (entries ! j)) [Suc a..<Suc b])"

lemma in_committed_between:
  "ce \<in> set (committed_between entries a b) \<longleftrightarrow>
     (\<exists>j. a < j \<and> j \<le> b \<and> \<not> le_is_no_op (entries ! j) \<and>
        ce = CommittedEntry (of_nat j) (le_term (entries ! j)) (le_command (entries ! j)))"
  unfolding committed_between_def set_map set_filter set_upt image_iff Bex_def mem_Collect_eq
    atLeastLessThan_iff Suc_le_eq less_Suc_eq_le
  by blast

lemma committed_between_step:
  "a < b \<Longrightarrow> committed_between entries a b =
     (if le_is_no_op (entries ! Suc a) then []
      else [CommittedEntry (of_nat (Suc a)) (le_term (entries ! Suc a)) (le_command (entries ! Suc a))]) @
     committed_between entries (Suc a) b"
  by (simp add: committed_between_def upt_conv_Cons del: upt_Suc)

lemma apply_committed_entries_spec:
  "last_applied n \<le> commit_index n \<Longrightarrow> unat (commit_index n) < length (rlog n) \<Longrightarrow>
   apply_committed_entries_locked n =
     Ret () (n\<lparr>last_applied := commit_index n,
               committed_entries := committed_entries n @
                 committed_between (rlog n) (unat (last_applied n)) (unat (commit_index n))\<rparr>)"
proof (induction n rule: apply_committed_entries_locked.induct)
  case (1 n)
  show ?case
  proof (cases "last_applied n < commit_index n")
    case False
    then have "last_applied n = commit_index n" using 1(2) by simp
    then show ?thesis
      by (simp add: apply_committed_entries_locked.simps [of n] committed_between_def)
  next
    case True
    let ?n1 = "n\<lparr>last_applied := last_applied n + 1\<rparr>"
    have u: "unat (last_applied n + 1) = Suc (unat (last_applied n))"
      and le: "Suc (unat (last_applied n)) \<le> unat (commit_index n)"
      using unat_word_Suc_le [OF True] by auto
    have at: "log_at (rlog ?n1) (last_applied ?n1) = Some (rlog n ! Suc (unat (last_applied n)))"
      using u le 1(3) by simp
    have le': "last_applied n + 1 \<le> commit_index n"
      using u le by (simp add: word_le_nat_alt)
    have idx: "last_applied n + 1 = of_nat (Suc (unat (last_applied n)))"
      by simp
    note IH = 1(1) [OF True refl at]
    show ?thesis
      using IH le' 1(3) True at u le
      by (subst apply_committed_entries_locked.simps)
        (simp add: Let_def committed_between_step [of "unat (last_applied n)"] split: if_splits)
  qed
qed

definition deliver :: "('st, 'g) RaftNode \<Rightarrow> ('st, 'g) RaftNode" where
  "deliver n =
     n\<lparr>last_applied := commit_index n,
       committed_entries := committed_entries n @
         committed_between (rlog n) (unat (last_applied n)) (unat (commit_index n))\<rparr>"

lemma apply_committed_entries_deliver:
  "last_applied n \<le> commit_index n \<Longrightarrow> unat (commit_index n) < length (rlog n) \<Longrightarrow>
   apply_committed_entries_locked n = Ret () (deliver n)"
  by (simp add: apply_committed_entries_spec deliver_def)

section \<open>Advancing the commit index\<close>

definition replicas :: "('st, 'g) RaftNode \<Rightarrow> LogIndex \<Rightarrow> NodeId list" where
  "replicas n j = filter (\<lambda>p. j \<le> the (match_index n p)) (peers n)"

definition committable :: "('st, 'g) RaftNode \<Rightarrow> LogIndex \<Rightarrow> bool" where
  "committable n j \<longleftrightarrow>
     le_term (rlog n ! unat j) = current_term n \<and>
     quorum_size_locked n \<le> Suc (length (replicas n j))"

lemma count_replicated_spec:
  "(\<And>p. p \<in> set ps \<Longrightarrow> m p \<noteq> None) \<Longrightarrow>
   count_replicated ps c r m = (r + length (filter (\<lambda>p. c \<le> the (m p)) ps), m)"
proof (induction ps arbitrary: r)
  case (Cons p ps)
  then obtain v where "m p = Some v" by fastforce
  with Cons show ?case by auto
qed simp

lemma word_le_pred_iff: "0 < (c :: u64) \<Longrightarrow> j \<le> c - 1 \<longleftrightarrow> j < c"
proof -
  assume c: "0 < c"
  then have "c \<noteq> 0" by auto
  then have "unat (c - 1) = unat c - 1" and "0 < unat c"
    by (auto simp: unat_minus_one_u64 unat_gt_0)
  then show ?thesis by (auto simp: word_le_nat_alt word_less_nat_alt)
qed

lemma advance_commit_loop_spec:
  assumes "\<And>p. p \<in> set (peers n) \<Longrightarrow> match_index n p \<noteq> None"
    and "last_applied n \<le> commit_index n" and "unat c < length (rlog n)"
  shows "(\<exists>j. commit_index n < j \<and> j \<le> c \<and> committable n j \<and>
            (\<forall>j'. j < j' \<and> j' \<le> c \<longrightarrow> \<not> committable n j') \<and>
            advance_commit_loop n c = Ret True (deliver (n\<lparr>commit_index := j\<rparr>))) \<or>
         ((\<forall>j. commit_index n < j \<and> j \<le> c \<longrightarrow> \<not> committable n j) \<and>
            advance_commit_loop n c = Ret False n)"
  using assms
proof (induction "unat c" arbitrary: c rule: less_induct)
  case less
  show ?case
  proof (cases "commit_index n < c")
    case False
    then show ?thesis
      by (auto simp: advance_commit_loop.simps [of n c])
  next
    case True
    have pos: "0 < c" using True by (metis word_gt_0 word_not_simps(1))
    have IH: "(\<exists>j. commit_index n < j \<and> j < c \<and> committable n j \<and>
            (\<forall>j'. j < j' \<and> j' < c \<longrightarrow> \<not> committable n j') \<and>
            advance_commit_loop n (c - 1) = Ret True (deliver (n\<lparr>commit_index := j\<rparr>))) \<or>
         ((\<forall>j. commit_index n < j \<and> j < c \<longrightarrow> \<not> committable n j) \<and>
            advance_commit_loop n (c - 1) = Ret False n)"
      using less.hyps [of "c - 1"] less.prems unat_pred_less [OF True] word_le_pred_iff [OF pos]
      by auto
    have cnt: "count_replicated (peers n) c 1 (match_index n) =
        (Suc (length (replicas n c)), match_index n)"
      using count_replicated_spec [of "peers n" "match_index n" c 1] less.prems(1)
      by (simp add: replicas_def)
    show ?thesis
    proof (cases "committable n c")
      case com: True
      have "advance_commit_loop n c = Ret True (deliver (n\<lparr>commit_index := c\<rparr>))"
        using com True less.prems cnt
        by (subst advance_commit_loop.simps)
          (auto simp: committable_def Let_def quorum_size_locked_def
            apply_committed_entries_deliver order.strict_implies_order
            dest: order_le_less_trans)
      then show ?thesis using com True by (metis leD order_refl)
    next
      case False
      have "advance_commit_loop n c = advance_commit_loop n (c - 1)"
        using False True less.prems cnt
        by (subst advance_commit_loop.simps)
          (auto simp: committable_def Let_def quorum_size_locked_def)
      then show ?thesis
        using IH False by (metis order_le_less order_less_imp_le)
    qed
  qed
qed

section \<open>Replication messages\<close>

definition append_request_for ::
    "('st, 'g) RaftNode \<Rightarrow> LogIndex \<Rightarrow> u64 \<Rightarrow> AppendEntriesRequest" where
  "append_request_for n next request_id =
     AppendEntriesRequest (current_term n) (node_id n) (next - 1) (le_term (rlog n ! unat (next - 1)))
       (drop (unat next) (rlog n)) (commit_index n) request_id"

lemma send_append_entries_spec:
  assumes "next_index n p = Some next" "0 < next" "unat next \<le> length (rlog n)"
  shows "\<exists>ids rid. send_append_entries_locked n p =
    Ret () (n\<lparr>append_request_id := ids,
              outbox := outbox n @ [Message (node_id n) p
                (RpcAppendEntriesRequest (append_request_for n next rid))]\<rparr>)"
proof -
  have "unat (next - 1) < length (rlog n)"
    using assms(2,3) unat_pred_less [of 0 "next"] by simp
  then show ?thesis
    using assms
    by (auto simp: send_append_entries_locked_def Let_def send_locked_def append_request_for_def
        split: prod.splits)
qed

definition progress_ok :: "('st, 'g) RaftNode \<Rightarrow> NodeId \<Rightarrow> bool" where
  "progress_ok n p \<longleftrightarrow>
     (\<exists>next m. next_index n p = Some next \<and> 0 < next \<and> unat next \<le> length (rlog n) \<and>
        match_index n p = Some m \<and> unat m < length (rlog n))"

definition append_message_of :: "('st, 'g) RaftNode \<Rightarrow> NodeId \<Rightarrow> Message \<Rightarrow> bool" where
  "append_message_of n p m \<longleftrightarrow>
     (\<exists>next rid. next_index n p = Some next \<and>
        m = Message (node_id n) p (RpcAppendEntriesRequest (append_request_for n next rid)))"

lemma send_append_entries_to_spec:
  assumes "\<And>p. p \<in> set ps \<Longrightarrow> progress_ok n p"
  shows "\<exists>ids ms. send_append_entries_to ps n =
      Ret () (n\<lparr>append_request_id := ids, outbox := outbox n @ ms\<rparr>) \<and>
      list_all2 (append_message_of n) ps ms"
  using assms
proof (induction ps arbitrary: n)
  case Nil
  have "n = n\<lparr>append_request_id := append_request_id n, outbox := outbox n @ []\<rparr>" by simp
  then show ?case by (metis list_all2_Nil send_append_entries_to.simps(1))
next
  case (Cons p ps)
  obtain "next" where nx: "next_index n p = Some next" "0 < next" "unat next \<le> length (rlog n)"
    using Cons.prems [of p] by (auto simp: progress_ok_def)
  obtain ids rid where s: "send_append_entries_locked n p =
    Ret () (n\<lparr>append_request_id := ids, outbox := outbox n @ [Message (node_id n) p
      (RpcAppendEntriesRequest (append_request_for n next rid))]\<rparr>)" (is "_ = Ret () ?n1")
    using send_append_entries_spec [OF nx] by blast
  have "progress_ok ?n1 p'" if "p' \<in> set ps" for p'
    using Cons.prems [of p'] that by (auto simp: progress_ok_def)
  then obtain ids' ms where r: "send_append_entries_to ps ?n1 =
      Ret () (?n1\<lparr>append_request_id := ids', outbox := outbox ?n1 @ ms\<rparr>)"
    and l: "list_all2 (append_message_of ?n1) ps ms"
    using Cons.IH [of ?n1] by blast
  have "append_message_of ?n1 = append_message_of n"
    by (auto simp: append_message_of_def append_request_for_def fun_eq_iff)
  then have "list_all2 (append_message_of n) (p # ps) (Message (node_id n) p
      (RpcAppendEntriesRequest (append_request_for n next rid)) # ms)"
    using l nx(1) by (auto simp: append_message_of_def)
  then show ?case using s r by fastforce
qed

lemma init_peer_progress_spec:
  "init_peer_progress ps next n =
     n\<lparr>next_index := (\<lambda>p. if p \<in> set ps then Some next else next_index n p),
       match_index := (\<lambda>p. if p \<in> set ps then Some 0 else match_index n p),
       append_request_id := (\<lambda>p. if p \<in> set ps then Some 0 else append_request_id n p)\<rparr>"
  by (induction ps arbitrary: n) (auto simp: fun_eq_iff)

lemma send_to_all_spec:
  "send_to_all ps rpc n = n\<lparr>outbox := outbox n @ map (\<lambda>p. Message (node_id n) p rpc) ps\<rparr>"
  by (induction ps arbitrary: n) (auto simp: send_locked_def)

section \<open>Comparing incoming entries with the log\<close>

text \<open>
  The possible results of the comparison that starts at index \<open>i\<close> of a log with incoming entries
  \<open>inc\<close>. If nothing is left to do, the log already extends the target \<open>take i entries @ inc\<close>;
  otherwise the new log is exactly that target, and truncation happened above the commit index.
\<close>

lemma scan_entries_spec:
  assumes "entries \<noteq> []" "unat i \<le> length entries" "length entries < 2 ^ 64"
    and "unat c < length entries"
  shows "case scan_entries entries c i inc of
      ScanOutOfBounds \<Rightarrow> False
    | ScanMismatch \<Rightarrow> \<exists>j < length inc. unat i + j < length entries \<and>
        entries ! (unat i + j) \<noteq> inc ! j \<and> le_term (entries ! (unat i + j)) = le_term (inc ! j)
    | ScanReject k t \<Rightarrow> unat i \<le> unat k \<and> k \<le> c \<and> unat k - unat i < length inc \<and>
        t = le_term (entries ! unat k) \<and> t \<noteq> le_term (inc ! (unat k - unat i))
    | ScanDone l rest truncated \<Rightarrow>
        (if truncated \<or> rest \<noteq> [] then
           l @ rest = take (unat i) entries @ inc \<and> \<not> prefix (take (unat i) entries @ inc) entries \<and>
           unat c < length (l @ rest) \<and> take (Suc (unat c)) (l @ rest) = take (Suc (unat c)) entries
         else l = entries \<and> prefix (take (unat i) entries @ inc) entries)"
  using assms
proof (induction entries c i inc rule: scan_entries.induct)
  case (1 entries c i)
  then show ?case by (simp add: take_is_prefix)
next
  case (2 entries c i e rest)
  have len: "length entries \<le> 2 ^ 64" using 2(4) by simp
  show ?case
  proof (cases "unat i < length entries")
    case False
    then have eq: "unat i = length entries" using 2(3) by simp
    have "\<not> i \<le> last_index entries"
      using False le_last_index_iff [OF 2(2) len] by simp
    then show ?thesis
      using eq 2(5) by (auto dest: prefix_length_le)
  next
    case True
    have le: "i \<le> last_index entries"
      using True le_last_index_iff [OF 2(2) len] by simp
    show ?thesis
    proof (cases "entries ! unat i = e")
      case same: True
      have u: "unat (i + 1) = Suc (unat i)"
        using True 2(4) by (simp add: unat_plus_one_u64)
      have target: "take (Suc (unat i)) entries @ rest = take (unat i) entries @ e # rest"
        using True same by (simp add: take_Suc_conv_app_nth)
      have step: "scan_entries entries c i (e # rest) = scan_entries entries c (i + 1) rest"
        using le True same by simp
      have IH: "case scan_entries entries c (i + 1) rest of
          ScanOutOfBounds \<Rightarrow> False
        | ScanMismatch \<Rightarrow> \<exists>j < length rest. Suc (unat i) + j < length entries \<and>
            entries ! (Suc (unat i) + j) \<noteq> rest ! j \<and>
            le_term (entries ! (Suc (unat i) + j)) = le_term (rest ! j)
        | ScanReject k t \<Rightarrow> Suc (unat i) \<le> unat k \<and> k \<le> c \<and> unat k - Suc (unat i) < length rest \<and>
            t = le_term (entries ! unat k) \<and> t \<noteq> le_term (rest ! (unat k - Suc (unat i)))
        | ScanDone l rest' truncated \<Rightarrow>
            (if truncated \<or> rest' \<noteq> [] then
               l @ rest' = take (unat i) entries @ e # rest \<and>
               \<not> prefix (take (unat i) entries @ e # rest) entries \<and>
               unat c < length (l @ rest') \<and>
               take (Suc (unat c)) (l @ rest') = take (Suc (unat c)) entries
             else l = entries \<and> prefix (take (unat i) entries @ e # rest) entries)"
        using 2(1) [OF le log_at_Some [OF True]] 2(2-5) same True
        unfolding u target by simp
      show ?thesis
      proof (cases "scan_entries entries c (i + 1) rest")
        case (ScanReject k t)
        then have "Suc (unat i) \<le> unat k" using IH by simp
        then have "unat k - unat i = Suc (unat k - Suc (unat i))" by arith
        then show ?thesis using IH ScanReject unfolding step by auto
      next
        case ScanMismatch
        then obtain j where "j < length rest" "Suc (unat i) + j < length entries"
            "entries ! (Suc (unat i) + j) \<noteq> rest ! j"
            "le_term (entries ! (Suc (unat i) + j)) = le_term (rest ! j)"
          using IH by auto
        then show ?thesis
          unfolding step ScanMismatch by (auto intro!: exI [of _ "Suc j"])
      qed (use IH step in auto)
    next
      case diff: False
      show ?thesis
      proof (cases "le_term (entries ! unat i) = le_term e")
        case True
        then show ?thesis using le \<open>unat i < length entries\<close> diff by (auto intro!: exI [of _ 0])
      next
        case False
        have np: "\<not> prefix (take (unat i) entries @ e # rest) entries"
        proof
          assume "prefix (take (unat i) entries @ e # rest) entries"
          then have "entries ! unat i = (take (unat i) entries @ e # rest) ! unat i"
            by (rule prefix_nth) (use \<open>unat i < length entries\<close> in simp)
          then show False using diff \<open>unat i < length entries\<close> by (simp add: nth_append)
        qed
        show ?thesis
        proof (cases "i \<le> c")
          case True
          then show ?thesis using False le \<open>unat i < length entries\<close> by simp
        next
          case nle: False
          then have "unat c < unat i" by (simp add: word_le_nat_alt)
          then show ?thesis
            using False le \<open>unat i < length entries\<close> nle np by (simp add: min_absorb2)
        qed
      qed
    qed
  qed
qed

section \<open>Conflict search\<close>

text \<open>The follower reports the first index of the run of entries with the conflicting term.\<close>

lemma first_index_of_term_spec:
  assumes "unat i < length entries" "0 < i" "le_term (entries ! unat i) = t"
  shows "\<exists>k. first_index_of_term entries t i = Some k \<and> 0 < k \<and> k \<le> i \<and>
    (\<forall>j. unat k \<le> j \<and> j \<le> unat i \<longrightarrow> le_term (entries ! j) = t) \<and>
    (1 < k \<longrightarrow> le_term (entries ! (unat k - 1)) \<noteq> t)"
  using assms
proof (induction entries t i rule: first_index_of_term.induct)
  case (1 entries t i)
  have self: "\<forall>j. unat i \<le> j \<and> j \<le> unat i \<longrightarrow> le_term (entries ! j) = t"
    using 1(4) by auto
  show ?case
  proof (cases "1 < i")
    case False
    then show ?thesis using 1(3) self by (subst first_index_of_term.simps) auto
  next
    case True
    have ne: "i \<noteq> 0" using 1(3) by auto
    have u: "unat (i - 1) = unat i - 1" and pos: "0 < i - 1"
      using unat_minus_one_u64 [OF ne] True word_le_pred_iff [OF 1(3)]
      by (auto simp: word_less_nat_alt)
    have rng: "unat (i - 1) < length entries" using 1(2) u by simp
    show ?thesis
    proof (cases "le_term (entries ! unat (i - 1)) = t")
      case same: True
      obtain k where k: "first_index_of_term entries t (i - 1) = Some k" "0 < k" "k \<le> i - 1"
        "\<forall>j. unat k \<le> j \<and> j \<le> unat (i - 1) \<longrightarrow> le_term (entries ! j) = t"
        "1 < k \<longrightarrow> le_term (entries ! (unat k - 1)) \<noteq> t"
        using 1(1) [OF True log_at_Some [OF rng] same rng pos same] by blast
      have "k \<le> i" using k(3) word_le_pred_iff [OF 1(3), of k] by auto
      moreover have "\<forall>j. unat k \<le> j \<and> j \<le> unat i \<longrightarrow> le_term (entries ! j) = t"
      proof (intro allI impI)
        fix j assume "unat k \<le> j \<and> j \<le> unat i"
        then show "le_term (entries ! j) = t"
          using k(4) self u by (cases "j = unat i") auto
      qed
      ultimately show ?thesis
        using k True rng same by (subst first_index_of_term.simps) auto
    next
      case False
      then show ?thesis
        using True rng self u 1(3) by (subst first_index_of_term.simps) auto
    qed
  qed
qed

text \<open>The leader looks for its last entry of the reported term.\<close>

lemma last_index_of_term_spec:
  assumes "unat i < length entries"
  shows "(\<exists>k. last_index_of_term entries t i = Inr (Some k) \<and> 0 < k \<and> k \<le> i \<and>
            le_term (entries ! unat k) = t \<and>
            (\<forall>j. unat k < j \<and> j \<le> unat i \<longrightarrow> le_term (entries ! j) \<noteq> t)) \<or>
         last_index_of_term entries t i = Inr None \<and>
            (\<forall>j. 0 < j \<and> j \<le> unat i \<longrightarrow> le_term (entries ! j) \<noteq> t)"
  using assms
proof (induction entries t i rule: last_index_of_term.induct)
  case (1 entries t i)
  show ?case
  proof (cases "0 < i")
    case False
    then have "i = 0" by (simp add: word_gt_0)
    then show ?thesis by (subst (1 2) last_index_of_term.simps) auto
  next
    case True
    then have ne: "i \<noteq> 0" by auto
    have u: "unat i = Suc (unat (i - 1))"
      using unat_minus_one_u64 [OF ne] ne by (simp add: unat_gt_0)
    show ?thesis
    proof (cases "le_term (entries ! unat i) = t")
      case same: True
      have "last_index_of_term entries t i = Inr (Some i)"
        using True 1(2) same by (subst last_index_of_term.simps) simp
      then show ?thesis using True same by auto
    next
      case False
      have st: "last_index_of_term entries t i = last_index_of_term entries t (i - 1)"
        using True 1(2) False by (subst last_index_of_term.simps) simp
      have IH: "(\<exists>k. last_index_of_term entries t (i - 1) = Inr (Some k) \<and> 0 < k \<and> k \<le> i - 1 \<and>
            le_term (entries ! unat k) = t \<and>
            (\<forall>j. unat k < j \<and> j \<le> unat (i - 1) \<longrightarrow> le_term (entries ! j) \<noteq> t)) \<or>
         last_index_of_term entries t (i - 1) = Inr None \<and>
            (\<forall>j. 0 < j \<and> j \<le> unat (i - 1) \<longrightarrow> le_term (entries ! j) \<noteq> t)"
        using 1(1) [OF True log_at_Some [OF 1(2)] False] u 1(2) by simp
      show ?thesis
        using IH False u word_le_pred_iff [OF True] unfolding st
        by (metis le_SucE order_less_imp_le)
    qed
  qed
qed

section \<open>Loading a log\<close>

text \<open>The constructor accepts exactly the logs with positive, monotone terms up to the current one.\<close>

lemma load_log_spec:
  "load_log c p acc es =
     (if sorted (p # map le_term es) \<and> (\<forall>e \<in> set es. 0 < le_term e \<and> le_term e \<le> c)
      then Inr (acc @ es) else Inl (RaftError ''persisted Raft log is invalid''))"
proof (induction es arbitrary: p acc)
  case (Cons e es)
  have "sorted (p # map le_term (e # es)) \<longleftrightarrow> p \<le> le_term e \<and> sorted (le_term e # map le_term es)"
    by (auto intro: order_trans)
  then show ?case using Cons by (auto simp: word_gt_0 not_less)
qed simp

lemma new_raft_node_fields:
  assumes "new_raft_node E config (Some st) = Inr n"
  shows "outbox n = []" "committed_entries n = []" "node_state n = Follower" "storage n = st"
    "node_config n = config" "commit_index n = 0" "last_applied n = 0"
  using assms
  by (auto simp: new_raft_node_def Let_def split: sum.splits option.splits if_splits)

section \<open>Answers\<close>

lemma take_answer_Some:
  "take_answer q ms = Some (r, rest) \<Longrightarrow>
   r \<in> set ms \<and> set rest \<subseteq> set ms \<and> msg_to r = msg_from q \<and> answers (msg_rpc q) (msg_rpc r)"
  by (induction ms arbitrary: rest) (auto split: if_splits)

lemma take_answer_last:
  "msg_to r = msg_from q \<Longrightarrow> answers (msg_rpc q) (msg_rpc r) \<Longrightarrow>
   (\<And>m. m \<in> set ms \<Longrightarrow> \<not> (msg_to m = msg_from q \<and> answers (msg_rpc q) (msg_rpc m))) \<Longrightarrow>
   take_answer q (ms @ [r]) = Some (r, ms)"
  by (induction ms) auto

end
