(* ===== verification/RaftCluster.thy ===== *)
theory RaftCluster
  imports RaftNodeFacts
begin

text \<open>
  A cluster of Raft nodes over an unreliable network. Every step is one public operation of one
  node, as the runtime and the RPC layer call them. The messages ever placed in an outbox form a
  set from which any message may be delivered at any time, any number of times or never, so loss,
  duplication, reordering and delay are all covered. A node may be restarted at any time from what
  its storage holds, and stops when one of its operations throws. The second half of the theory relates a cluster to the abstract protocol.
\<close>

section \<open>The cluster\<close>

record ('st, 'g) cluster =
  nodes :: "NodeId \<Rightarrow> ('st, 'g) RaftNode"
  sent :: "Message set"
  delivered :: "(NodeId \<times> CommittedEntry) set"

text \<open>
  The members are given once; every node is configured with its own identity and the others as its
  peers.
\<close>

definition valid_membership :: "NodeId list \<Rightarrow> (NodeId \<Rightarrow> RaftConfig) \<Rightarrow> bool" where
  "valid_membership ms cfgs \<longleftrightarrow>
     (\<forall>i \<in> set ms. validate_config (cfgs i) = Inr () \<and> cfg_node_id (cfgs i) = i \<and>
        set (cfg_peers (cfgs i)) = set ms - {i})"

definition initial_cluster ::
    "('st, 'g) RaftEnv \<Rightarrow> NodeId list \<Rightarrow> (NodeId \<Rightarrow> RaftConfig) \<Rightarrow> ('st, 'g) cluster \<Rightarrow> bool" where
  "initial_cluster E ms cfgs s \<longleftrightarrow>
     valid_membership ms cfgs \<and> sent s = {} \<and> delivered s = {} \<and>
     (\<forall>i \<in> set ms. \<exists>st. storage_load E st = Inr default_persistent_state \<and>
        new_raft_node E (cfgs i) (Some st) = Inr (nodes s i))"

definition with_node ::
    "('st, 'g) cluster \<Rightarrow> NodeId \<Rightarrow> ('st, 'g) RaftNode \<Rightarrow> Message set \<Rightarrow> ('st, 'g) cluster" where
  "with_node s i n extra =
     s\<lparr>nodes := (nodes s)(i := n), sent := sent s \<union> set (outbox n) \<union> extra\<rparr>"

text \<open>
  \<open>fails E s i n\<close>: an operation of node \<open>i\<close> throws with the node in state \<open>n\<close>.
\<close>

definition fails ::
    "('st, 'g) RaftEnv \<Rightarrow> ('st, 'g) cluster \<Rightarrow> NodeId \<Rightarrow> ('st, 'g) RaftNode \<Rightarrow> bool" where
  "fails E s i n \<longleftrightarrow>
     (\<exists>e elapsed. tick E (nodes s i) elapsed = Exc e n) \<or>
     (\<exists>e. \<exists>m \<in> sent s. step E (nodes s i) m = Exc e n \<or> handle_request E (nodes s i) m = Exc e n) \<or>
     (\<exists>e command. propose E (nodes s i) command = Exc e n)"

text \<open>
  A node whose operation throws stops: nothing of its memory is used again, the messages of its
  outbox are lost, and it comes back only through its constructor, from a storage that holds what its
  own storage holds. A node may also stop between two operations, and in the middle of one: a stop
  during a save is an operation over any saves \<open>save'\<close> that obey the contract of a storage, one of which
  throws.
\<close>

inductive cluster_step ::
    "('st, 'g) RaftEnv \<Rightarrow> NodeId list \<Rightarrow> (NodeId \<Rightarrow> RaftConfig) \<Rightarrow>
     ('st, 'g) cluster \<Rightarrow> ('st, 'g) cluster \<Rightarrow> bool"
  for E :: "('st, 'g) RaftEnv" and ms :: "NodeId list" and cfgs :: "NodeId \<Rightarrow> RaftConfig" where
  tick: "i \<in> set ms \<Longrightarrow> tick E (nodes s i) elapsed = Ret u n \<Longrightarrow>
    cluster_step E ms cfgs s (with_node s i n {})"
| deliver: "i \<in> set ms \<Longrightarrow> m \<in> sent s \<Longrightarrow> step E (nodes s i) m = Ret b n \<Longrightarrow>
    cluster_step E ms cfgs s (with_node s i n {})"
| request: "i \<in> set ms \<Longrightarrow> m \<in> sent s \<Longrightarrow> handle_request E (nodes s i) m = Ret answer n \<Longrightarrow>
    cluster_step E ms cfgs s (with_node s i n (set_option answer))"
| propose: "i \<in> set ms \<Longrightarrow> propose E (nodes s i) command = Ret x n \<Longrightarrow>
    cluster_step E ms cfgs s (with_node s i n {})"
| take_messages: "i \<in> set ms \<Longrightarrow>
    cluster_step E ms cfgs s (with_node s i (snd (take_messages (nodes s i))) {})"
| take_committed: "i \<in> set ms \<Longrightarrow> take_committed_entries (nodes s i) = (es, n) \<Longrightarrow>
    cluster_step E ms cfgs s
      ((with_node s i n {})\<lparr>delivered := delivered s \<union> Pair i ` set es\<rparr>)"
| restart: "i \<in> set ms \<Longrightarrow> storage_load E st = storage_load E (storage (nodes s i)) \<Longrightarrow>
    new_raft_node E (cfgs i) (Some st) = Inr n \<Longrightarrow> cluster_step E ms cfgs s (with_node s i n {})"
| crash: "i \<in> set ms \<Longrightarrow> raft_storage (storage_load E) save' \<Longrightarrow>
    fails (E\<lparr>storage_save := save'\<rparr>) s i n0 \<Longrightarrow> storage_load E st = storage_load E (storage n0) \<Longrightarrow>
    new_raft_node E (cfgs i) (Some st) = Inr n \<Longrightarrow> cluster_step E ms cfgs s (with_node s i n {})"

text \<open>The states after exactly \<open>k\<close> steps.\<close>

inductive reachable_in ::
    "('st, 'g) RaftEnv \<Rightarrow> NodeId list \<Rightarrow> (NodeId \<Rightarrow> RaftConfig) \<Rightarrow> nat \<Rightarrow>
     ('st, 'g) cluster \<Rightarrow> bool"
  for E :: "('st, 'g) RaftEnv" and ms :: "NodeId list" and cfgs :: "NodeId \<Rightarrow> RaftConfig" where
  start: "initial_cluster E ms cfgs s \<Longrightarrow> reachable_in E ms cfgs 0 s"
| more: "reachable_in E ms cfgs k s \<Longrightarrow> cluster_step E ms cfgs s s' \<Longrightarrow>
    reachable_in E ms cfgs (Suc k) s'"

section \<open>Majorities\<close>

definition majorities :: "NodeId list \<Rightarrow> NodeId set set" where
  "majorities ms = {q. q \<subseteq> set ms \<and> card (set ms) div 2 + 1 \<le> card q}"

interpretation maj: quorum_system "majorities ms" for ms
proof
  fix q q' assume q: "q \<in> majorities ms" "q' \<in> majorities ms"
  show "q \<inter> q' \<noteq> {}"
  proof
    assume "q \<inter> q' = {}"
    then have "card (q \<union> q') = card q + card q'"
      using q by (intro card_Un_disjoint) (auto simp: majorities_def intro: finite_subset)
    moreover have "card (q \<union> q') \<le> card (set ms)"
      using q by (intro card_mono) (auto simp: majorities_def)
    ultimately show False using q by (auto simp: majorities_def)
  qed
qed

section \<open>Abstraction\<close>

subsection \<open>Frames of abstract steps\<close>

abbreviation asteps :: "NodeId list \<Rightarrow> NodeId \<Rightarrow> raft_abs \<Rightarrow> raft_abs \<Rightarrow> bool" where
  "asteps ms i \<equiv> (astep (majorities ms) i)\<^sup>*\<^sup>*"

text \<open>What a node can see of the histories is unchanged from \<open>a\<close> to \<open>b\<close>.\<close>

definition same_node :: "NodeId \<Rightarrow> raft_abs \<Rightarrow> raft_abs \<Rightarrow> bool" where
  "same_node j a b \<longleftrightarrow>
     cur b j = cur a j \<and> alog b j = alog a j \<and>
     (\<forall>t c l. (j, t, c, l) \<in> votes b \<longleftrightarrow> (j, t, c, l) \<in> votes a) \<and>
     (\<forall>t. cand b t j = cand a t j) \<and>
     (\<forall>t. lead b t = Some j \<longleftrightarrow> lead a t = Some j) \<and>
     (\<forall>t. lead a t = Some j \<longrightarrow> llog b t = llog a t)"

lemma same_node_refl [simp]: "same_node j a a"
  by (simp add: same_node_def)

lemma same_node_trans: "same_node j a b \<Longrightarrow> same_node j b c \<Longrightarrow> same_node j a c"
  by (simp add: same_node_def)

lemma astep_frame:
  assumes inv: "ainv (majorities ms) a" and st: "astep (majorities ms) i a b" and "j \<noteq> i"
  shows "same_node j a b"
  using st
proof cases
  case (win q)
  have "lead a (cur a i) = None"
    by (rule maj.win_fresh [OF inv win(3-5)])
  then show ?thesis using win \<open>j \<noteq> i\<close> by (auto simp: same_node_def)
qed (use \<open>j \<noteq> i\<close> in \<open>auto simp: same_node_def\<close>)

lemma asteps_ainv: "asteps ms i a b \<Longrightarrow> ainv (majorities ms) a \<Longrightarrow> ainv (majorities ms) b"
  by (induction rule: rtranclp_induct) (auto intro: maj.astep_ainv)

lemma asteps_aext:
  assumes "asteps ms i a b" "ainv (majorities ms) a"
  shows "aext a b"
  using assms
proof (induction rule: rtranclp_induct)
  case (step b c)
  then show ?case
    using asteps_ainv [of ms i a b] maj.astep_aext [of ms b i c] aext_trans by blast
qed simp

lemma asteps_frame:
  assumes "asteps ms i a b" "ainv (majorities ms) a" "j \<noteq> i"
  shows "same_node j a b"
  using assms
proof (induction rule: rtranclp_induct)
  case (step b c)
  then show ?case
    using asteps_ainv [of ms i a b] astep_frame [of ms b i c j] same_node_trans by blast
qed simp

text \<open>Bounds on terms and log lengths.\<close>

definition abounded :: "nat \<Rightarrow> nat \<Rightarrow> raft_abs \<Rightarrow> bool" where
  "abounded T L a \<longleftrightarrow>
     (\<forall>v. unat (cur a v) \<le> T \<and> length (alog a v) \<le> L) \<and>
     (\<forall>t. lead a t \<noteq> None \<longrightarrow> length (llog a t) \<le> L)"

lemma abounded_mono: "abounded T L a \<Longrightarrow> T \<le> T' \<Longrightarrow> L \<le> L' \<Longrightarrow> abounded T' L' a"
  unfolding abounded_def by (meson order_trans)

lemma aboundedD:
  "abounded T L a \<Longrightarrow> unat (cur a v) \<le> T" "abounded T L a \<Longrightarrow> length (alog a v) \<le> L"
  "abounded T L a \<Longrightarrow> lead a t = Some c \<Longrightarrow> length (llog a t) \<le> L"
  by (auto simp: abounded_def)

end
