(* ===== verification/RaftRefinement.thy ===== *)
theory RaftRefinement
  imports RaftCluster
begin

text \<open>
  The operations of \<open>src/raft/raft_node.cpp\<close> implement the abstract protocol: each operation of a
  node in a cluster corresponds to a sequence of abstract steps of that node and keeps the relation
  between the node, the messages and the histories; it returns, without undefined behaviour, unless a
  save throws, and then what the storage holds corresponds to the steps taken so far. The relation is stated first, then one lemma per operation.
\<close>

section \<open>The relation\<close>

definition commit_ok :: "raft_abs \<Rightarrow> Term \<Rightarrow> LogEntry list \<Rightarrow> nat \<Rightarrow> bool" where
  "commit_ok a t l c \<longleftrightarrow>
     c \<le> length l \<and>
     (c = 0 \<or> (\<exists>u k. (u, k) \<in> committed a \<and> u \<le> t \<and> c \<le> k \<and> take c l = take c (llog a u)))"

definition delivered_ok :: "raft_abs \<Rightarrow> CommittedEntry \<Rightarrow> bool" where
  "delivered_ok a ce \<longleftrightarrow>
     (\<exists>u k. (u, k) \<in> committed a \<and> 0 < unat (ce_index ce) \<and> unat (ce_index ce) \<le> k \<and>
        llog a u ! (unat (ce_index ce) - 1) = LogEntry (ce_term ce) (ce_command ce) False)"

definition term_before :: "LogEntry list \<Rightarrow> nat \<Rightarrow> Term" where
  "term_before l p = (if p = 0 then 0 else le_term (l ! (p - 1)))"

fun rpc_ok :: "raft_abs \<Rightarrow> NodeId \<Rightarrow> NodeId \<Rightarrow> Rpc \<Rightarrow> bool" where
  "rpc_ok a from to (RpcRequestVoteRequest r) \<longleftrightarrow>
     rvq_candidate_id r = from \<and>
     (\<exists>l. cand a (rvq_term r) from = Some l \<and> unat (rvq_last_log_index r) = length l \<and>
          rvq_last_log_term r = last_term l)"
| "rpc_ok a from to (RpcRequestVoteResponse r) \<longleftrightarrow>
     rvr_term r \<le> cur a from \<and>
     (rvr_vote_granted r \<longrightarrow> (\<exists>l. (from, rvr_term r, to, l) \<in> votes a))"
| "rpc_ok a from to (RpcAppendEntriesRequest r) \<longleftrightarrow>
     aeq_leader_id r = from \<and> lead a (aeq_term r) = Some from \<and>
     (let ll = llog a (aeq_term r); p = unat (aeq_previous_log_index r) in
      p \<le> length ll \<and> prefix (take p ll @ aeq_entries r) ll \<and>
      aeq_previous_log_term r = term_before ll p \<and>
      unat (aeq_leader_commit r) \<le> p + length (aeq_entries r) \<and>
      commit_ok a (aeq_term r) ll (unat (aeq_leader_commit r)))"
| "rpc_ok a from to (RpcAppendEntriesResponse r) \<longleftrightarrow>
     aer_term r \<le> cur a from \<and>
     (aer_success r \<longrightarrow> (\<forall>j \<le> unat (aer_match_index r). (from, aer_term r, j) \<in> acks a))"

definition msg_ok :: "raft_abs \<Rightarrow> Message \<Rightarrow> bool" where
  "msg_ok a m \<longleftrightarrow> rpc_ok a (msg_from m) (msg_to m) (msg_rpc m)"

definition core_ok ::
    "('st, 'g) RaftEnv \<Rightarrow> NodeId list \<Rightarrow> raft_abs \<Rightarrow> NodeId \<Rightarrow> ('st, 'g) RaftNode \<Rightarrow> bool" where
  "core_ok E ms a i n \<longleftrightarrow>
     rlog n = default_log_entry # alog a i \<and> current_term n = cur a i \<and>
     (case voted_for n of
        None \<Rightarrow> \<forall>c l. (i, cur a i, c, l) \<notin> votes a
      | Some c \<Rightarrow> c \<in> set ms \<and> (\<exists>l. (i, cur a i, c, l) \<in> votes a)) \<and>
     storage_load E (storage n) = Inr (persistent_part n)"

definition peer_ok :: "raft_abs \<Rightarrow> NodeId \<Rightarrow> ('st, 'g) RaftNode \<Rightarrow> NodeId \<Rightarrow> bool" where
  "peer_ok a i n p \<longleftrightarrow>
     (\<exists>nx m. next_index n p = Some nx \<and> match_index n p = Some m \<and> 0 < nx \<and>
        unat nx \<le> Suc (length (alog a i)) \<and> unat m \<le> length (alog a i) \<and>
        (m = 0 \<or> (\<forall>j \<le> unat m. (p, cur a i, j) \<in> acks a)))"

definition role_ok :: "NodeId list \<Rightarrow> raft_abs \<Rightarrow> NodeId \<Rightarrow> ('st, 'g) RaftNode \<Rightarrow> bool" where
  "role_ok ms a i n \<longleftrightarrow>
     (node_state n = Candidate \<longrightarrow>
        cand a (cur a i) i = Some (alog a i) \<and> lead a (cur a i) \<noteq> Some i \<and>
        votes_received n \<subseteq> set ms \<and>
        (\<forall>v \<in> votes_received n. \<exists>l. (v, cur a i, i, l) \<in> votes a)) \<and>
     (node_state n = Leader \<longrightarrow>
        lead a (cur a i) = Some i \<and> llog a (cur a i) = alog a i \<and>
        (\<forall>p \<in> set ms - {i}. peer_ok a i n p))"

definition applied_ok :: "raft_abs \<Rightarrow> NodeId \<Rightarrow> ('st, 'g) RaftNode \<Rightarrow> bool" where
  "applied_ok a i n \<longleftrightarrow>
     last_applied n \<le> commit_index n \<and>
     commit_ok a (cur a i) (alog a i) (unat (commit_index n)) \<and>
     (\<forall>ce \<in> set (committed_entries n). delivered_ok a ce)"

definition out_ok :: "raft_abs \<Rightarrow> NodeId \<Rightarrow> ('st, 'g) RaftNode \<Rightarrow> bool" where
  "out_ok a i n \<longleftrightarrow> (\<forall>m \<in> set (outbox n). msg_ok a m \<and> msg_from m = i)"

definition node_ok ::
    "('st, 'g) RaftEnv \<Rightarrow> NodeId list \<Rightarrow> (NodeId \<Rightarrow> RaftConfig) \<Rightarrow> raft_abs \<Rightarrow> NodeId
     \<Rightarrow> ('st, 'g) RaftNode \<Rightarrow> bool" where
  "node_ok E ms cfgs a i n \<longleftrightarrow>
     valid_membership ms cfgs \<and> node_config n = cfgs i \<and> members n = set ms \<and>
     core_ok E ms a i n \<and> role_ok ms a i n \<and> applied_ok a i n \<and> out_ok a i n"

lemmas node_ok_defs = node_ok_def core_ok_def role_ok_def applied_ok_def out_ok_def

text \<open>What a storage holds for node \<open>i\<close>, as far as the node can be restored from it.\<close>

definition stored_ok ::
    "('st, 'g) RaftEnv \<Rightarrow> NodeId list \<Rightarrow> raft_abs \<Rightarrow> NodeId \<Rightarrow> 'st \<Rightarrow> bool" where
  "stored_ok E ms a i st \<longleftrightarrow>
     (\<exists>ps. storage_load E st = Inr ps \<and> ps_current_term ps = cur a i \<and> ps_log ps = alog a i \<and>
        (case ps_voted_for ps of
           None \<Rightarrow> \<forall>c l. (i, cur a i, c, l) \<notin> votes a
         | Some c \<Rightarrow> c \<in> set ms \<and> (\<exists>l. (i, cur a i, c, l) \<in> votes a)))"

definition cluster_ok ::
    "('st, 'g) RaftEnv \<Rightarrow> NodeId list \<Rightarrow> (NodeId \<Rightarrow> RaftConfig) \<Rightarrow> raft_abs
     \<Rightarrow> ('st, 'g) cluster \<Rightarrow> bool" where
  "cluster_ok E ms cfgs a s \<longleftrightarrow>
     (\<forall>i \<in> set ms. node_ok E ms cfgs a i (nodes s i)) \<and> (\<forall>m \<in> sent s. msg_ok a m) \<and>
     (\<forall>x \<in> delivered s. delivered_ok a (snd x))"

lemma node_ok_stored: "node_ok E ms cfgs a i n \<Longrightarrow> stored_ok E ms a i (storage n)"
  by (auto simp: node_ok_def core_ok_def stored_ok_def persistent_part_def)

section \<open>Stability\<close>

lemma committed_take:
  assumes "ainv Q a" "aext a b" "(u, k) \<in> committed a" "c \<le> k"
  shows "(u, k) \<in> committed b" "take c (llog b u) = take c (llog a u)"
proof -
  show "(u, k) \<in> committed b" using assms by (blast intro: aext_committed)
  show "take c (llog b u) = take c (llog a u)"
    using ainv_committedD [OF assms(1,3)] assms(4) by (intro aext_take_llog [OF assms(2)]) auto
qed

lemma commit_ok_mono:
  assumes "ainv Q a" "aext a b" "commit_ok a t l c" "t \<le> t'" "c \<le> length l'"
    "take c l' = take c l"
  shows "commit_ok b t' l' c"
proof (cases "c = 0")
  case False
  then obtain u k where "(u, k) \<in> committed a" "u \<le> t" "c \<le> k" "take c l = take c (llog a u)"
    using assms(3) by (auto simp: commit_ok_def)
  then show ?thesis
    unfolding commit_ok_def
    using committed_take [OF assms(1,2)] assms(4-6) by (metis order_trans)
qed (use assms in \<open>simp add: commit_ok_def\<close>)

lemma delivered_ok_mono:
  assumes "ainv Q a" "aext a b" "delivered_ok a ce"
  shows "delivered_ok b ce"
proof -
  obtain u k where u: "(u, k) \<in> committed a" "0 < unat (ce_index ce)" "unat (ce_index ce) \<le> k"
    "llog a u ! (unat (ce_index ce) - 1) = LogEntry (ce_term ce) (ce_command ce) False"
    using assms(3) by (auto simp: delivered_ok_def)
  have "lead a u \<noteq> None" "k \<le> length (llog a u)"
    using ainv_committedD [OF assms(1) u(1)] by auto
  then have "llog b u ! (unat (ce_index ce) - 1) = llog a u ! (unat (ce_index ce) - 1)"
    using u(2,3) aext_lead [OF assms(2), of u] by (auto intro: prefix_nth)
  then show ?thesis
    unfolding delivered_ok_def using u committed_take(1) [OF assms(1,2) u(1)] by auto
qed

lemma voted_mono: "aext a b \<Longrightarrow> \<exists>l. (v, t, c, l) \<in> votes a \<Longrightarrow> \<exists>l. (v, t, c, l) \<in> votes b"
  using aext_votes by blast

lemma msg_ok_mono:
  assumes inv: "ainv Q a" and ext: "aext a b" and ok: "msg_ok a m"
  shows "msg_ok b m"
proof (cases "msg_rpc m")
  case (RpcRequestVoteRequest r)
  then show ?thesis using ok aext_cand [OF ext] by (auto simp: msg_ok_def)
next
  case (RpcRequestVoteResponse r)
  then show ?thesis
    using ok aext_cur [OF ext, of "msg_from m"] voted_mono [OF ext]
    by (simp add: msg_ok_def) (meson order_trans)
next
  case (RpcAppendEntriesResponse r)
  then show ?thesis
    using ok aext_cur [OF ext, of "msg_from m"] aext_acks [OF ext]
    by (auto simp: msg_ok_def intro: order_trans)
next
  case (RpcAppendEntriesRequest r)
  let ?t = "aeq_term r" and ?p = "unat (aeq_previous_log_index r)"
  have l: "lead a ?t = Some (msg_from m)" and p: "?p \<le> length (llog a ?t)"
    and pre: "prefix (take ?p (llog a ?t) @ aeq_entries r) (llog a ?t)"
    and c: "commit_ok a ?t (llog a ?t) (unat (aeq_leader_commit r))"
    using ok RpcAppendEntriesRequest by (auto simp: msg_ok_def Let_def)
  have ll: "lead b ?t = Some (msg_from m)" "prefix (llog a ?t) (llog b ?t)"
    using aext_lead [OF ext l] by auto
  have tk: "take ?p (llog b ?t) = take ?p (llog a ?t)"
    by (rule prefix_take_same [OF ll(2) p])
  have "term_before (llog b ?t) ?p = term_before (llog a ?t) ?p"
    using prefix_nth [OF ll(2), of "?p - 1"] p by (auto simp: term_before_def)
  moreover have "commit_ok b ?t (llog b ?t) (unat (aeq_leader_commit r))"
    using c prefix_length_le [OF ll(2)]
    by (intro commit_ok_mono [OF inv ext c]) (auto simp: commit_ok_def prefix_take_same [OF ll(2)])
  ultimately show ?thesis
    using ok RpcAppendEntriesRequest ll tk prefix_length_le [OF ll(2)]
      prefix_order.order_trans [OF pre ll(2)]
    by (auto simp: msg_ok_def Let_def)
qed

lemma node_ok_same:
  assumes inv: "ainv Q a" and ext: "aext a b" and same: "same_node i a b"
    and ok: "node_ok E ms cfgs a i n"
  shows "node_ok E ms cfgs b i n"
proof -
  have e: "cur b i = cur a i" "alog b i = alog a i" using same by (auto simp: same_node_def)
  have v: "\<And>t c l. (i, t, c, l) \<in> votes b \<longleftrightarrow> (i, t, c, l) \<in> votes a"
    using same by (auto simp: same_node_def)
  have "core_ok E ms b i n"
    using ok e v by (simp add: node_ok_def core_ok_def split: option.splits)
  moreover have "role_ok ms b i n"
  proof -
    have "peer_ok a i n p \<Longrightarrow> peer_ok b i n p" for p
      unfolding peer_ok_def e using aext_acks [OF ext] by blast
    then show ?thesis
      using ok same voted_mono [OF ext] unfolding node_ok_def role_ok_def same_node_def by simp
  qed
  moreover have "applied_ok b i n"
    using ok commit_ok_mono [OF inv ext, of "cur a i" "alog a i" "unat (commit_index n)"
        "cur a i" "alog a i"] delivered_ok_mono [OF inv ext]
    unfolding node_ok_def applied_ok_def e by (auto simp: commit_ok_def)
  moreover have "out_ok b i n"
    using ok msg_ok_mono [OF inv ext] by (auto simp: node_ok_def out_ok_def)
  ultimately show ?thesis using ok by (simp add: node_ok_def)
qed

lemma node_ok_reset [simp]:
  "node_ok E ms cfgs a i (reset_election_timeout_locked E' n) \<longleftrightarrow> node_ok E ms cfgs a i n"
  by (auto simp: reset_election_timeout_locked_def node_ok_defs peer_ok_def persistent_part_def
      split: prod.splits)

end
