(* ===== verification/RaftSimulation.thy ===== *)
theory RaftSimulation
  imports RaftRefinement
begin

text \<open>
  One lemma per operation of \<open>src/raft/raft_node.cpp\<close>: run on a node of a cluster, its effect is a
  sequence of abstract steps of that node. It returns, or it throws what a save threw, and then the
  storage corresponds to the steps taken until the save.
\<close>

locale raft_cluster =
  raft_storage "storage_load E" "storage_save E" for E :: "('st, 'g) RaftEnv" +
  fixes ms :: "NodeId list" and cfgs :: "NodeId \<Rightarrow> RaftConfig"
begin

abbreviation ok :: "raft_abs \<Rightarrow> NodeId \<Rightarrow> ('st, 'g) RaftNode \<Rightarrow> bool" where
  "ok \<equiv> node_ok E ms cfgs"

abbreviation inv :: "raft_abs \<Rightarrow> bool" where
  "inv \<equiv> ainv (majorities ms)"

abbreviation stored :: "raft_abs \<Rightarrow> NodeId \<Rightarrow> 'st \<Rightarrow> bool" where
  "stored \<equiv> stored_ok E ms"

definition save_error :: "error \<Rightarrow> bool" where
  "save_error e \<longleftrightarrow> (\<exists>ps st st'. storage_save E ps st = (Inl e, st'))"

definition sim ::
    "nat \<Rightarrow> nat \<Rightarrow> (raft_abs \<Rightarrow> 'a \<Rightarrow> ('st, 'g) RaftNode \<Rightarrow> bool) \<Rightarrow> raft_abs \<Rightarrow> NodeId
     \<Rightarrow> ('a, ('st, 'g) RaftNode) outcome \<Rightarrow> bool" where
  "sim T L P a i r \<longleftrightarrow>
     post (\<lambda>x n. \<exists>b. asteps ms i a b \<and> ok b i n \<and> abounded T L b \<and> P b x n)
       (\<lambda>e n. save_error e \<and> (\<exists>b. asteps ms i a b \<and> stored b i (storage n) \<and> abounded T L b)) r"

lemma sim_Ret [simp]:
  "sim T L P a i (Ret x n) \<longleftrightarrow> (\<exists>b. asteps ms i a b \<and> ok b i n \<and> abounded T L b \<and> P b x n)"
  by (simp add: sim_def)

lemma sim_stay: "ok a i n \<Longrightarrow> abounded T L a \<Longrightarrow> P a x n \<Longrightarrow> sim T L P a i (Ret x n)"
  by auto

lemma sim_step:
  "astep (majorities ms) i a b \<Longrightarrow> ok b i n \<Longrightarrow> abounded T L b \<Longrightarrow> P b x n \<Longrightarrow>
   sim T L P a i (Ret x n)"
  by auto

lemma sim_and_then:
  assumes r: "sim T L P a i r"
    and f: "\<And>x n b. asteps ms i a b \<Longrightarrow> ok b i n \<Longrightarrow> abounded T L b \<Longrightarrow> P b x n \<Longrightarrow>
           sim T' L' P' b i (f x n)"
    and "T \<le> T'" "L \<le> L'"
  shows "sim T' L' P' a i (and_then r f)"
proof -
  have "post (\<lambda>y m. \<exists>c. asteps ms i a c \<and> ok c i m \<and> abounded T' L' c \<and> P' c y m)
      (\<lambda>e m. save_error e \<and> (\<exists>c. asteps ms i a c \<and> stored c i (storage m) \<and> abounded T' L' c)) (f x n)"
    if b: "asteps ms i a b" "ok b i n" "abounded T L b" "P b x n" for x n b
    by (rule post_mono [OF f [OF b, unfolded sim_def]]) (use rtranclp_trans [OF b(1)] in blast)+
  then show ?thesis
    using r unfolding sim_def post_and_then
    by (elim post_mono) (use abounded_mono assms(3,4) in blast)+
qed

lemma sim_prepend:
  assumes "asteps ms i a b" "sim T L P b i r"
  shows "sim T L P a i r"
  using assms(2) unfolding sim_def by (rule post_mono) (use rtranclp_trans [OF assms(1)] in blast)+

lemma sim_weaken:
  "sim T L P a i r \<Longrightarrow> (\<And>b x n. ok b i n \<Longrightarrow> P b x n \<Longrightarrow> P' b x n) \<Longrightarrow> sim T L P' a i r"
  unfolding sim_def by (erule post_mono) blast+

lemma config:
  assumes "ok a i n" "i \<in> set ms"
  shows "node_id n = i" "set (peers n) = set ms - {i}" "distinct (peers n)" "members n = set ms"
proof -
  have c: "node_config n = cfgs i" "members n = set ms" using assms(1) by (auto simp: node_ok_def)
  have v: "validate_config (cfgs i) = Inr ()" "cfg_node_id (cfgs i) = i"
    "set (cfg_peers (cfgs i)) = set ms - {i}"
    using assms by (auto simp: node_ok_def valid_membership_def)
  show "node_id n = i" "set (peers n) = set ms - {i}" "members n = set ms" using c v by auto
  show "distinct (peers n)"
    using v(1) c by (auto simp: validate_config_def insert_members_iff split: if_splits)
qed

text \<open>
  A save: the abstract steps \<open>a\<close> to \<open>b\<close> happen when it succeeds. When it throws, the storage holds what
  corresponds to \<open>a\<close> or to \<open>b\<close>.
\<close>

lemma sim_persist:
  assumes "stored a i (storage n)" "astep (majorities ms) i a b" "abounded T L a" "abounded T L b"
    and okb: "\<And>st. storage_load E st = Inr (persistent_part n) \<Longrightarrow> ok b i (n\<lparr>storage := st\<rparr>)"
    and f: "\<And>st. ok b i (n\<lparr>storage := st\<rparr>) \<Longrightarrow> sim T L P b i (f () (n\<lparr>storage := st\<rparr>))"
  shows "sim T L P a i (and_then (persist_locked E n) f)"
proof -
  obtain res st where save: "storage_save E (persistent_part n) (storage n) = (res, st)" by fastforce
  show ?thesis
  proof (cases res)
    case (Inr u)
    then have "ok b i (n\<lparr>storage := st\<rparr>)" using load_after_save save okb by blast
    then show ?thesis
      using sim_prepend [OF r_into_rtranclp [of "astep (majorities ms) i", OF assms(2)] f] save Inr
      by (simp add: persist_locked_def)
  next
    case (Inl e)
    have "stored a i st \<or> stored b i st"
      using load_after_failed_save [OF save [unfolded Inl]] assms(1) node_ok_stored [OF okb, of st]
      by (auto simp: stored_ok_def)
    then show ?thesis
      using save Inl assms(2-4) unfolding sim_def
      by (auto simp: persist_locked_def save_error_def)
  qed
qed

lemma sim_persist_last:
  assumes "stored a i (storage n)" "astep (majorities ms) i a b" "abounded T L a" "abounded T L b"
    and "\<And>st. storage_load E st = Inr (persistent_part n) \<Longrightarrow> ok b i (n\<lparr>storage := st\<rparr>)"
    and "\<And>st. P b () (n\<lparr>storage := st\<rparr>)"
  shows "sim T L P a i (persist_locked E n)"
proof -
  have "and_then (persist_locked E n) Ret = persist_locked E n" by (cases "persist_locked E n") auto
  then show ?thesis
    using sim_persist [where f = Ret and P = P, OF assms(1-5)] assms(4,6) by auto
qed

lemma abounded_len:
  "ok a i n \<Longrightarrow> abounded T L a \<Longrightarrow> rlog n = default_log_entry # alog a i \<and> length (alog a i) \<le> L"
  by (auto simp: node_ok_def core_ok_def abounded_def)

lemma unat_last_log_index:
  "ok a i n \<Longrightarrow> abounded T L a \<Longrightarrow> L + 2 < 2 ^ 64 \<Longrightarrow>
   unat (last_log_index_locked n) = length (alog a i)"
  using abounded_len [of a i n T L] by (simp add: last_log_index_locked_def unat_last_index)

section \<open>Becoming a follower\<close>

lemma become_follower_higher:
  assumes "ok a i n" "cur a i < t" "unat t \<le> T" "abounded T L a" and ia: "inv a"
  shows "sim T L (\<lambda>b _ n'. cur b i = t \<and> node_state n' = Follower) a i
           (become_follower_locked E n t ld)"
proof -
  let ?b = "a\<lparr>cur := (cur a)(i := t)\<rparr>"
  have st: "astep (majorities ms) i a ?b" by (rule astep.bump) fact
  have ext: "aext a ?b" by (rule maj.astep_aext [OF ia st])
  have nv: "\<forall>c l. (i, t, c, l) \<notin> votes a"
    using ainv_votesD [OF ia] assms(2) leD by blast
  have ab: "abounded T L ?b" using assms(3,4) by (auto simp: abounded_def)
  have cur: "t > current_term n" using assms(1,2) by (auto simp: node_ok_def core_ok_def)
  have out: "\<forall>m \<in> set (outbox n). msg_ok ?b m \<and> msg_from m = i"
    using assms(1) msg_ok_mono [OF ia ext] by (auto simp: node_ok_def out_ok_def)
  have del: "\<forall>ce \<in> set (committed_entries n). delivered_ok ?b ce"
    using assms(1) delivered_ok_mono [OF ia ext] by (auto simp: node_ok_def applied_ok_def)
  have com: "commit_ok ?b t (alog a i) (unat (commit_index n))"
    using assms(1,2)
    by (intro commit_ok_mono [OF ia ext, of "cur a i" "alog a i"])
      (auto simp: node_ok_def applied_ok_def commit_ok_def)
  obtain g t' where g: "uniform_int E (cfg_election_timeout_min (node_config n))
      (cfg_election_timeout_max (node_config n)) (random n) = (t', g)"
    by fastforce
  show ?thesis
    unfolding become_follower_locked_def Let_def reset_election_timeout_locked_def if_P [OF cur]
    by (rule sim_persist_last [where b = ?b])
      (use assms(1,4) nv out del com g ab node_ok_stored [OF assms(1)] st
        in \<open>auto simp: node_ok_defs persistent_part_def\<close>)
qed

lemma become_follower_same:
  assumes "ok a i n"
  shows "\<exists>n'. become_follower_locked E n (current_term n) ld = Ret () n' \<and> ok a i n' \<and>
    node_state n' = Follower \<and> rlog n' = rlog n \<and> current_term n' = current_term n \<and>
    commit_index n' = commit_index n"
proof -
  obtain g t' where g: "uniform_int E (cfg_election_timeout_min (node_config n))
      (cfg_election_timeout_max (node_config n)) (random n) = (t', g)"
    by fastforce
  then show ?thesis
    using assms
    by (auto simp: become_follower_locked_def Let_def reset_election_timeout_locked_def node_ok_def
        core_ok_def role_ok_def applied_ok_def out_ok_def persistent_part_def)
qed

section \<open>Votes\<close>

lemma ok_send:
  assumes "ok a i n" "i \<in> set ms" "msg_ok a (Message i p rpc)"
  shows "ok a i (send_locked n p rpc)"
  using assms config [OF assms(1,2)]
  by (auto simp: send_locked_def node_ok_defs peer_ok_def persistent_part_def)

lemma last_log_term_eq:
  "ok a i n \<Longrightarrow> last_log_term_locked n = last_term (alog a i)"
  by (auto simp: node_ok_def core_ok_def last_log_term_locked_def last_term_def default_log_entry_def)

lemma candidate_current_iff:
  assumes "ok a i n" "abounded T L a" "L + 2 < 2 ^ 64"
    and "unat (rvq_last_log_index r) = length cl" "rvq_last_log_term r = last_term cl"
  shows "candidate_log_is_current_locked n r \<longleftrightarrow> up_to_date cl (alog a i)"
  using unat_last_log_index [OF assms(1-3)] assms(4,5)
  by (auto simp: candidate_log_is_current_locked_def Let_def up_to_date_def last_log_term_eq [OF assms(1)]
      word_le_nat_alt)

lemma handle_request_vote_sim:
  assumes ok: "ok a i n" and i: "i \<in> set ms" and ia: "inv a" and ab: "abounded T L a"
    and L: "L + 2 < 2 ^ 64"
    and msg: "msg_ok a (Message from to (RpcRequestVoteRequest r))"
    and tle: "rvq_term r \<le> cur a i" and fr: "from \<in> set ms"
  shows "sim T L (\<lambda>_ _ _. True) a i (handle_request_vote_locked E n from r)"
proof -
  have ct: "current_term n = cur a i" using ok by (simp add: node_ok_def core_ok_def)
  have refuse: "msg_ok a (Message i from (RpcRequestVoteResponse (RequestVoteResponse (cur a i) False)))"
    by (simp add: msg_ok_def)
  show ?thesis
  proof (cases "rvq_candidate_id r \<noteq> from \<or> rvq_term r < cur a i")
    case True
    then show ?thesis
      using ct ok_send [OF ok i refuse] ab
      by (auto simp: handle_request_vote_locked_def)
  next
    case False
    then have t: "rvq_term r = cur a i" and c: "rvq_candidate_id r = from" using tle by auto
    obtain cl where cl: "cand a (cur a i) from = Some cl"
      "unat (rvq_last_log_index r) = length cl" "rvq_last_log_term r = last_term cl"
      using msg t by (auto simp: msg_ok_def)
    note iff = candidate_current_iff [OF ok ab L cl(2,3)]
    consider (no) "\<not> ((voted_for n = None \<or> voted_for n = Some from) \<and> up_to_date cl (alog a i))"
      | (again) "voted_for n = Some from" "up_to_date cl (alog a i)"
      | (new) "voted_for n = None" "up_to_date cl (alog a i)"
      by blast
    then show ?thesis
    proof cases
      case no
      then show ?thesis
        using False c ct iff ok_send [OF ok i refuse] ab
        by (auto simp: handle_request_vote_locked_def Let_def)
    next
      case again
      have "\<exists>l. (i, cur a i, from, l) \<in> votes a"
        using ok again by (simp add: node_ok_def core_ok_def)
      then have "msg_ok a (Message i from (RpcRequestVoteResponse (RequestVoteResponse (cur a i) True)))"
        by (simp add: msg_ok_def)
      then have "ok a i (send_locked (reset_election_timeout_locked E n) from
          (RpcRequestVoteResponse (RequestVoteResponse (cur a i) True)))"
        using ok i by (intro ok_send) auto
      moreover have "current_term (reset_election_timeout_locked E n) = cur a i"
        using ct by (simp add: reset_election_timeout_locked_def split: prod.splits)
      ultimately show ?thesis
        using False c ct iff again ab
        by (auto simp: handle_request_vote_locked_def Let_def)
    next
      case new
      let ?b = "a\<lparr>votes := insert (i, cur a i, from, alog a i) (votes a)\<rparr>"
      have nv: "\<And>c' l. (i, cur a i, c', l) \<notin> votes a"
        using ok new by (simp add: node_ok_def core_ok_def)
      have st: "astep (majorities ms) i a ?b"
        by (rule astep.vote [OF cl(1) nv new(2)])
      have ext: "aext a ?b" by (rule maj.astep_aext [OF ia st])
      let ?n1 = "n\<lparr>voted_for := Some from\<rparr>"
      have "commit_ok ?b (cur a i) (alog a i) (unat (commit_index n))"
        using ok by (intro commit_ok_mono [OF ia ext, of "cur a i" "alog a i"])
          (auto simp: node_ok_def applied_ok_def commit_ok_def)
      then have ok2: "ok ?b i (?n1\<lparr>storage := s\<rparr>)" if "storage_load E s = Inr (persistent_part ?n1)" for s
        using ok that fr msg_ok_mono [OF ia ext] delivered_ok_mono [OF ia ext]
        by (auto simp: node_ok_defs peer_ok_def persistent_part_def)
      have "msg_ok ?b (Message i from (RpcRequestVoteResponse (RequestVoteResponse (cur a i) True)))"
        by (auto simp: msg_ok_def)
      then have sent: "ok ?b i (send_locked (reset_election_timeout_locked E m) from
          (RpcRequestVoteResponse (RequestVoteResponse (cur a i) True)))" if "ok ?b i m" for m
        using that i by (intro ok_send) auto
      have ct': "current_term (reset_election_timeout_locked E (?n1\<lparr>storage := s\<rparr>)) = cur a i" for s
        using ct by (simp add: reset_election_timeout_locked_def split: prod.splits)
      have abb: "abounded T L ?b" using ab by (simp add: abounded_def)
      have "handle_request_vote_locked E n from r = and_then (persist_locked E ?n1)
          (\<lambda>_ n2. let n3 = reset_election_timeout_locked E n2
             in Ret () (send_locked n3 from (RpcRequestVoteResponse (RequestVoteResponse (current_term n3) True))))"
        using False c ct iff new
        by (cases "persist_locked E ?n1") (auto simp: handle_request_vote_locked_def Let_def)
      then show ?thesis
        using ok node_ok_stored [OF ok] sent ct' abb
        by (auto simp: Let_def intro!: sim_persist [where b = ?b, OF _ st ab abb ok2] exI [of _ ?b])
    qed
  qed
qed

section \<open>Committing\<close>

lemma commit_okI:
  "(u, k) \<in> committed a \<Longrightarrow> u \<le> t \<Longrightarrow> c \<le> k \<Longrightarrow> c \<le> length l \<Longrightarrow> take c l = take c (llog a u) \<Longrightarrow>
   commit_ok a t l c"
  unfolding commit_ok_def by blast

lemma committed_between_ok:
  assumes "rlog n = default_log_entry # alog b i" "length (alog b i) < 2 ^ 64"
    and com: "commit_ok b t (alog b i) c" and "ce \<in> set (committed_between (rlog n) la c)"
  shows "delivered_ok b ce"
proof -
  obtain x where x: "la < x" "x \<le> c" "\<not> le_is_no_op (rlog n ! x)"
    and ce: "ce = CommittedEntry (of_nat x) (le_term (rlog n ! x)) (le_command (rlog n ! x))"
    using assms(4) by (auto simp: in_committed_between)
  obtain u k where u: "(u, k) \<in> committed b" "c \<le> k" "take c (alog b i) = take c (llog b u)"
    and c: "c \<le> length (alog b i)"
    using com x by (auto simp: commit_ok_def)
  have "rlog n ! x = alog b i ! (x - 1)" using x(1) assms(1) by simp
  also have "x - 1 < c" using x by simp
  then have "alog b i ! (x - 1) = llog b u ! (x - 1)"
    using u(3) by (metis nth_take)
  finally have e: "llog b u ! (x - 1) = LogEntry (ce_term ce) (ce_command ce) False"
    using x(3) ce by (cases "llog b u ! (x - 1)") auto
  have "unat (ce_index ce) = x" using ce x c assms(2) by simp
  then show ?thesis
    unfolding delivered_ok_def using e u x by (auto intro!: exI [of _ u] exI [of _ k])
qed

lemma deliver_ok:
  assumes ok: "ok b i n" and com: "commit_ok b (cur b i) (alog b i) (unat c)"
    and "last_applied n \<le> c" "length (alog b i) < 2 ^ 64"
  shows "ok b i (deliver (n\<lparr>commit_index := c\<rparr>))"
proof -
  have "rlog n = default_log_entry # alog b i" using ok by (simp add: node_ok_def core_ok_def)
  then have "\<forall>ce \<in> set (committed_between (rlog n) (unat (last_applied n)) (unat c)). delivered_ok b ce"
    using committed_between_ok [OF _ assms(4) com] by blast
  then show ?thesis
    using ok com by (auto simp: deliver_def node_ok_defs peer_ok_def persistent_part_def)
qed

lemma leaderD:
  assumes "ok a i n" "node_state n = Leader"
  shows "lead a (cur a i) = Some i" "llog a (cur a i) = alog a i"
    "\<And>p. p \<in> set ms \<Longrightarrow> p \<noteq> i \<Longrightarrow> peer_ok a i n p"
  using assms by (auto simp: node_ok_def role_ok_def)

lemma commit_steps:
  assumes ok: "ok a i n" and ld: "node_state n = Leader" and i: "i \<in> set ms" and ia: "inv a"
    and j: "0 < k" "k \<le> length (alog a i)" "le_term (alog a i ! (k - 1)) = cur a i"
    and R: "R \<subseteq> set ms - {i}" "card (set ms) div 2 + 1 \<le> Suc (card R)"
    and acked: "\<And>p. p \<in> R \<Longrightarrow> (p, cur a i, k) \<in> acks a"
  shows "\<exists>b. asteps ms i a b \<and> aext a b \<and> same_node i a b \<and> (cur a i, k) \<in> committed b \<and>
    (\<forall>T L. abounded T L a \<longrightarrow> abounded T L b)"
proof -
  note l = leaderD(1,2) [OF ok ld]
  let ?b = "a\<lparr>acks := acks a \<union> {(i, cur a i, j) | j. j \<le> length (llog a (cur a i))}\<rparr>"
  have s1: "astep (majorities ms) i a ?b"
    by (rule astep.ack) (use l in auto)
  let ?c = "?b\<lparr>committed := insert (cur ?b i, k) (committed ?b)\<rparr>"
  have "finite R" using R(1) by (rule finite_subset) simp
  moreover have "i \<notin> R" using R(1) by auto
  ultimately have "card (insert i R) = Suc (card R)" by simp
  then have q: "insert i R \<in> majorities ms"
    using R i by (auto simp: majorities_def)
  have s2: "astep (majorities ms) i ?b ?c"
    by (rule astep.commit [OF _ _ _ _ q]) (use l j acked in auto)
  have st: "asteps ms i a ?c"
    using s1 s2 by (meson converse_rtranclp_into_rtranclp r_into_rtranclp)
  show ?thesis
    using st asteps_aext [OF st ia]
    by (intro exI [of _ ?c]) (auto simp: same_node_def abounded_def)
qed

lemma advance_commit_sim:
  assumes ok: "ok a i n" and ld: "node_state n = Leader" and i: "i \<in> set ms" and ia: "inv a"
    and ab: "abounded T L a" and L: "L + 2 < 2 ^ 64"
  shows "sim T L (\<lambda>b _ n'. node_state n' = Leader) a i (advance_commit_index_locked n)"
proof -
  note cf = config [OF ok i]
  note len = abounded_len [OF ok ab]
  have P: "peer_ok a i n p" if "p \<in> set (peers n)" for p
    using leaderD(3) [OF ok ld] cf(2) that by auto
  have la: "last_applied n \<le> commit_index n" using ok by (simp add: node_ok_def applied_ok_def)
  have "unat (last_log_index_locked n) < length (rlog n)"
    using unat_last_log_index [OF ok ab L] len by simp
  moreover have "\<And>p. p \<in> set (peers n) \<Longrightarrow> match_index n p \<noteq> None"
    using P by (auto simp: peer_ok_def)
  ultimately consider
      (adv) j where "commit_index n < j" "j \<le> last_log_index_locked n" "committable n j"
        "advance_commit_index_locked n = Ret True (deliver (n\<lparr>commit_index := j\<rparr>))"
    | (stay) "advance_commit_index_locked n = Ret False n"
    unfolding advance_commit_index_locked_def
    using advance_commit_loop_spec [OF _ la, of "last_log_index_locked n"] by blast
  then show ?thesis
  proof cases
    case stay
    then show ?thesis using ok ab ld by auto
  next
    case adv
    let ?R = "set (replicas n j)"
    have j0: "0 < unat j" using adv(1) by (simp add: word_less_nat_alt)
    have jl: "unat j \<le> length (alog a i)"
      using adv(2) unat_last_log_index [OF ok ab L] by (simp add: word_le_nat_alt)
    have tm: "le_term (alog a i ! (unat j - 1)) = cur a i"
      using adv(3) len j0 ok by (simp add: committable_def node_ok_def core_ok_def)
    have R: "?R \<subseteq> set ms - {i}" using cf(2) by (auto simp: replicas_def)
    have "distinct (replicas n j)" using cf(3) by (simp add: replicas_def)
    then have "length (replicas n j) = card ?R" by (rule distinct_card [symmetric])
    then have card: "card (set ms) div 2 + 1 \<le> Suc (card ?R)"
      using adv(3) cf(4) by (simp add: committable_def quorum_size_locked_def)
    have acked: "(p, cur a i, unat j) \<in> acks a" if p: "p \<in> ?R" for p
    proof -
      have "p \<in> set (peers n)" "j \<le> the (match_index n p)" using p by (auto simp: replicas_def)
      then obtain m where "match_index n p = Some m" "unat j \<le> unat m"
        "m = 0 \<or> (\<forall>j \<le> unat m. (p, cur a i, j) \<in> acks a)"
        using P [of p] by (auto simp: peer_ok_def word_le_nat_alt)
      then show ?thesis using j0 by auto
    qed
    obtain b where b: "asteps ms i a b" "aext a b" "same_node i a b" "(cur a i, unat j) \<in> committed b"
      "abounded T L b"
      using commit_steps [OF ok ld i ia j0 jl tm R card acked] ab by blast
    have e: "cur b i = cur a i" "alog b i = alog a i" using b(3) by (auto simp: same_node_def)
    have "llog b (cur a i) = alog a i"
      using b(3) leaderD(1,2) [OF ok ld] by (simp add: same_node_def)
    then have "commit_ok b (cur b i) (alog b i) (unat j)"
      using e jl by (intro commit_okI [OF b(4)]) auto
    then have "ok b i (deliver (n\<lparr>commit_index := j\<rparr>))"
      using node_ok_same [OF ia b(2,3) ok] la adv(1) len L e
      by (intro deliver_ok) auto
    then show ?thesis
      using adv(4) b(1,5) ld by (auto simp: deliver_def)
  qed
qed

section \<open>Replicating\<close>

lemma append_message_ok:
  assumes ok: "ok a i n" and ld: "node_state n = Leader" and i: "i \<in> set ms"
    and p: "p \<in> set ms" "p \<noteq> i" and m: "append_message_of n p m"
  shows "msg_ok a m \<and> msg_from m = i"
proof -
  obtain nx rid where nx: "next_index n p = Some nx"
    and mm: "m = Message (node_id n) p (RpcAppendEntriesRequest (append_request_for n nx rid))"
    using m by (auto simp: append_message_of_def)
  have b: "0 < nx" "unat nx \<le> Suc (length (alog a i))"
    using leaderD(3) [OF ok ld p] nx by (auto simp: peer_ok_def)
  have u: "unat nx = Suc (unat (nx - 1))"
    by (rule unat_Suc_pred) fact
  note l = leaderD(1,2) [OF ok ld]
  have r: "rlog n = default_log_entry # alog a i" "current_term n = cur a i"
    using ok by (auto simp: node_ok_def core_ok_def)
  have "le_term (rlog n ! unat (nx - 1)) = term_before (alog a i) (unat (nx - 1))"
    using r by (simp add: term_before_def nth_Cons default_log_entry_def split: nat.split)
  moreover have "drop (unat nx) (rlog n) = drop (unat (nx - 1)) (alog a i)"
    using r u by simp
  moreover have "commit_ok a (cur a i) (alog a i) (unat (commit_index n))"
    using ok by (simp add: node_ok_def applied_ok_def)
  ultimately show ?thesis
    using mm l r u b config [OF ok i]
    by (auto simp: msg_ok_def append_request_for_def Let_def commit_ok_def)
qed

lemma progress_of_peer:
  "ok a i n \<Longrightarrow> peer_ok a i n p \<Longrightarrow> progress_ok n p"
  by (auto simp: peer_ok_def progress_ok_def node_ok_def core_ok_def)

lemma ok_sent:
  "ok a i n \<Longrightarrow> (\<forall>m \<in> set out. msg_ok a m \<and> msg_from m = i) \<Longrightarrow>
   ok a i (n\<lparr>append_request_id := ids, outbox := outbox n @ out\<rparr>)"
  by (auto simp: node_ok_defs peer_ok_def persistent_part_def)

lemma send_append_to_sim:
  assumes ok: "ok a i n" and ld: "node_state n = Leader" and i: "i \<in> set ms"
    and ps: "set ps \<subseteq> set ms - {i}" and ab: "abounded T L a"
  shows "sim T L (\<lambda>b _ n'. b = a \<and> node_state n' = Leader) a i (send_append_entries_to ps n)"
proof -
  have "progress_ok n p" if "p \<in> set ps" for p
    using that ps leaderD(3) [OF ok ld] progress_of_peer [OF ok] by auto
  then obtain ids out where s: "send_append_entries_to ps n =
      Ret () (n\<lparr>append_request_id := ids, outbox := outbox n @ out\<rparr>)"
    and l: "list_all2 (append_message_of n) ps out"
    using send_append_entries_to_spec [of ps n] by blast
  have "msg_ok a m \<and> msg_from m = i" if m: "m \<in> set out" for m
  proof -
    obtain k where "k < length out" "out ! k = m" using m by (auto simp: in_set_conv_nth)
    then have "append_message_of n (ps ! k) m" "ps ! k \<in> set ps"
      using l by (auto simp: list_all2_conv_all_nth)
    then show ?thesis using append_message_ok [OF ok ld i] ps by auto
  qed
  then have "ok a i (n\<lparr>append_request_id := ids, outbox := outbox n @ out\<rparr>)"
    using ok_sent [OF ok] by blast
  then show ?thesis using s ld ab by auto
qed

lemma broadcast_sim:
  assumes "ok a i n" "node_state n = Leader" "i \<in> set ms" "abounded T L a"
  shows "sim T L (\<lambda>b _ n'. b = a \<and> node_state n' = Leader) a i (broadcast_append_entries_locked n)"
  unfolding broadcast_append_entries_locked_def
  using config(2) [OF assms(1,3)] by (intro send_append_to_sim assms) auto

lemma broadcast_sim_any:
  "ok a i n \<Longrightarrow> node_state n = Leader \<Longrightarrow> i \<in> set ms \<Longrightarrow> abounded T L a \<Longrightarrow>
   sim T L (\<lambda>_ _ _. True) a i (broadcast_append_entries_locked n)"
  by (rule sim_weaken [OF broadcast_sim]) auto

lemma send_append_sim:
  assumes "ok a i n" "node_state n = Leader" "i \<in> set ms" "abounded T L a" "p \<in> set ms" "p \<noteq> i"
  shows "sim T L (\<lambda>b _ n'. b = a \<and> node_state n' = Leader) a i (send_append_entries_locked n p)"
proof -
  have "sim T L (\<lambda>b _ n'. b = a \<and> node_state n' = Leader) a i (send_append_entries_to [p] n)"
    using assms by (intro send_append_to_sim) auto
  then show ?thesis by (cases "send_append_entries_locked n p") (auto simp: sim_def)
qed

section \<open>Elections\<close>

lemma win_step:
  assumes ok: "ok a i n" and cd: "node_state n = Candidate" and i: "i \<in> set ms" and ia: "inv a"
    and q: "quorum_size_locked n \<le> card (votes_received n)" and ab: "abounded T L a"
  shows "\<exists>b. astep (majorities ms) i a b \<and> cur b i = cur a i \<and>
    alog b i = alog a i @ [LogEntry (cur a i) [] True] \<and> lead b (cur a i) = Some i \<and>
    llog b (cur a i) = alog b i \<and> votes b = votes a \<and> abounded T (Suc L) b"
proof -
  have r: "cand a (cur a i) i = Some (alog a i)" "lead a (cur a i) \<noteq> Some i"
    "votes_received n \<subseteq> set ms" "\<And>v. v \<in> votes_received n \<Longrightarrow> \<exists>l. (v, cur a i, i, l) \<in> votes a"
    using ok cd by (auto simp: node_ok_def role_ok_def)
  have "votes_received n \<in> majorities ms"
    using q r(3) config(4) [OF ok i] by (simp add: majorities_def quorum_size_locked_def)
  note st = astep.win [OF r(1,2) this r(4)]
  show ?thesis
    by (intro exI conjI, rule st) (use ab in \<open>auto simp: noop_entry_def abounded_def intro: le_SucI\<close>)
qed

lemma become_leader_sim:
  assumes ok: "ok a i n" and cd: "node_state n = Candidate" and i: "i \<in> set ms" and ia: "inv a"
    and q: "quorum_size_locked n \<le> card (votes_received n)" and ab: "abounded T L a"
    and L: "L + 3 < 2 ^ 64"
  shows "sim T (Suc L) (\<lambda>_ _ _. True) a i (become_leader_locked E n)"
proof -
  obtain b where st: "astep (majorities ms) i a b" and b: "cur b i = cur a i"
    "alog b i = alog a i @ [LogEntry (cur a i) [] True]" "lead b (cur a i) = Some i"
    "llog b (cur a i) = alog b i" "votes b = votes a" "abounded T (Suc L) b"
    using win_step [OF ok cd i ia q ab] by blast
  have ib: "inv b" and ext: "aext a b"
    using maj.astep_ainv [OF ia st] maj.astep_aext [OF ia st] by auto
  note cf = config [OF ok i]
  have len: "rlog n = default_log_entry # alog a i" "length (alog a i) \<le> L"
    using abounded_len [OF ok ab] by auto
  define n1 where "n1 = n\<lparr>node_state := Leader, leader_id := Some (node_id n), heartbeat_elapsed := 0\<rparr>"
  define nx where "nx = last_log_index_locked n1 + 1"
  have "last_log_index_locked n1 = last_log_index_locked n"
    by (simp add: n1_def last_log_index_locked_def)
  then have nx: "unat nx = Suc (length (alog a i))"
    using unat_last_log_index [OF ok ab] L len unat_plus_one_u64 [of "last_log_index_locked n"]
    by (simp add: nx_def)
  then have nx0: "0 < nx" by (simp add: word_less_nat_alt)
  define n3 where "n3 = (init_peer_progress (peers n1) nx n1)\<lparr>rlog := rlog (init_peer_progress (peers n1) nx n1) @
      [LogEntry (current_term (init_peer_progress (peers n1) nx n1)) [] True]\<rparr>"
  have eq: "become_leader_locked E n = and_then (persist_locked E n3) (\<lambda>_ n4.
      and_then (advance_commit_index_locked n4) (\<lambda>_ n5. broadcast_append_entries_locked n5))"
    by (simp add: become_leader_locked_def Let_def n3_def nx_def n1_def)
  have ld: "node_state n3 = Leader" and st3: "storage n3 = storage n"
    by (simp_all add: n3_def n1_def init_peer_progress_spec)
  have com: "commit_ok b (cur b i) (alog b i) (unat (commit_index n))"
    using ok b(1,2) by (intro commit_ok_mono [OF ia ext, of "cur a i" "alog a i"])
      (auto simp: node_ok_def applied_ok_def commit_ok_def)
  have ok4: "ok b i (n3\<lparr>storage := s\<rparr>)" if "storage_load E s = Inr (persistent_part n3)" for s
    using ok that cf b(1-5) com len nx nx0 msg_ok_mono [OF ia ext] delivered_ok_mono [OF ia ext]
    by (auto simp: n3_def n1_def init_peer_progress_spec node_ok_defs peer_ok_def
        persistent_part_def split: option.splits)
  show ?thesis
    unfolding eq
  proof (rule sim_persist [where b = b, OF _ st _ b(6) ok4], goal_cases)
    case (4 s)
    then show ?case
      by (rule sim_and_then [OF advance_commit_sim])
        (use ld i ib b(6) L in \<open>auto intro: broadcast_sim_any\<close>)
  qed (use st3 node_ok_stored [OF ok] abounded_mono [OF ab, of T "Suc L"] in auto)
qed

lemma handle_request_vote_response_sim:
  assumes ok: "ok a i n" and i: "i \<in> set ms" and ia: "inv a" and ab: "abounded T L a"
    and L: "L + 3 < 2 ^ 64" and fr: "from \<in> set ms"
    and msg: "msg_ok a (Message from i (RpcRequestVoteResponse r))"
  shows "sim T (Suc L) (\<lambda>_ _ _. True) a i (handle_request_vote_response_locked E n from r)"
proof -
  have ab': "abounded T (Suc L) a" using ab by (rule abounded_mono) auto
  show ?thesis
  proof (cases "node_state n \<noteq> Candidate \<or> rvr_term r \<noteq> current_term n \<or> \<not> rvr_vote_granted r")
    case True
    then show ?thesis
      using ok ab' by (auto simp: handle_request_vote_response_locked_def)
  next
    case False
    let ?n1 = "n\<lparr>votes_received := insert from (votes_received n)\<rparr>"
    have "\<exists>l. (from, cur a i, i, l) \<in> votes a"
      using False msg ok by (auto simp: msg_ok_def node_ok_def core_ok_def)
    then have ok1: "ok a i ?n1"
      using ok fr by (auto simp: node_ok_defs peer_ok_def persistent_part_def)
    show ?thesis
      using False ok1 ab' become_leader_sim [OF ok1 _ i ia _ ab L]
      by (auto simp: handle_request_vote_response_locked_def Let_def)
  qed
qed

lemma campaign_step:
  assumes ok: "ok a i n" and ia: "inv a" and ab: "abounded T L a" and T: "T + 2 < 2 ^ 64"
  defines "t \<equiv> cur a i + 1"
  shows "\<exists>b. astep (majorities ms) i a b \<and> cur b i = t \<and> alog b i = alog a i \<and>
    cand b t i = Some (alog a i) \<and> lead b t \<noteq> Some i \<and> (i, t, i, alog a i) \<in> votes b \<and>
    abounded (Suc T) L b"
proof -
  have "unat (cur a i) \<le> T" using ab by (rule aboundedD)
  then have u: "unat t = Suc (unat (cur a i))"
    unfolding t_def using T unat_plus_one_u64 [of "cur a i"] by simp
  then have less: "cur a i < t" by (simp add: word_less_nat_alt)
  let ?b = "a\<lparr>cur := (cur a)(i := t), cand := (cand a)(t := (cand a t)(i \<mapsto> alog a i)),
      votes := insert (i, t, i, alog a i) (votes a)\<rparr>"
  have st: "astep (majorities ms) i a ?b" by (rule astep.campaign [OF less])
  have "lead a t \<noteq> Some i"
    using ainv_leadD [OF ia, of t i] ainv_candD [OF ia, of t i] less leD by blast
  moreover have "abounded (Suc T) L ?b"
    using ab u \<open>unat (cur a i) \<le> T\<close> by (auto simp: abounded_def intro: le_SucI)
  ultimately show ?thesis
    using st by (intro exI [of _ ?b]) auto
qed

lemma start_election_sim:
  assumes ok: "ok a i n" and i: "i \<in> set ms" and ia: "inv a" and ab: "abounded T L a"
    and T: "T + 2 < 2 ^ 64" and L: "L + 3 < 2 ^ 64"
  shows "sim (Suc T) (Suc L) (\<lambda>_ _ _. True) a i (start_election_locked E n)"
proof -
  let ?t = "cur a i + 1"
  obtain b where st: "astep (majorities ms) i a b" and b: "cur b i = ?t" "alog b i = alog a i"
    "cand b ?t i = Some (alog a i)" "lead b ?t \<noteq> Some i" "(i, ?t, i, alog a i) \<in> votes b"
    "abounded (Suc T) L b"
    using campaign_step [OF ok ia ab T] by blast
  have ib: "inv b" and ext: "aext a b"
    using maj.astep_ainv [OF ia st] maj.astep_aext [OF ia st] by auto
  note cf = config [OF ok i]
  define n2 where "n2 = reset_election_timeout_locked E (n\<lparr>node_state := Candidate, leader_id := None,
      current_term := current_term n + 1, voted_for := Some (node_id n), votes_received := {node_id n}\<rparr>)"
  have com: "commit_ok b (cur b i) (alog b i) (unat (commit_index n))"
    using ok b(1,2) aext_cur [OF ext, of i]
    by (intro commit_ok_mono [OF ia ext, of "cur a i" "alog a i"])
      (auto simp: node_ok_def applied_ok_def commit_ok_def)
  have okb: "ok b i (n2\<lparr>storage := s\<rparr>)" if "storage_load E s = Inr (persistent_part n2)" for s
    using ok that cf i b com msg_ok_mono [OF ia ext] delivered_ok_mono [OF ia ext]
    by (auto simp: n2_def reset_election_timeout_locked_def node_ok_defs peer_ok_def
        persistent_part_def split: prod.splits)
  have n2: "node_state n2 = Candidate" "storage n2 = storage n"
    by (simp_all add: n2_def reset_election_timeout_locked_def split: prod.splits)
  have bb: "abounded (Suc T) (Suc L) a" "abounded (Suc T) (Suc L) b"
    using abounded_mono [OF ab] abounded_mono [OF b(6)] by auto
  have solicit: "sim (Suc T) (Suc L) (\<lambda>_ _ _. True) b i
      (if card (votes_received n3) \<ge> quorum_size_locked n3 then become_leader_locked E n3
       else Ret () (send_to_all (peers n3) (RpcRequestVoteRequest (RequestVoteRequest (current_term n3)
              (node_id n3) (last_log_index_locked n3) (last_log_term_locked n3))) n3))"
    if ok3: "ok b i n3" and cd: "node_state n3 = Candidate" for n3
  proof (cases "card (votes_received n3) \<ge> quorum_size_locked n3")
    case True
    then show ?thesis
      using become_leader_sim [OF ok3 cd i ib True b(6) L] by simp
  next
    case False
    have "msg_ok b (Message i p (RpcRequestVoteRequest (RequestVoteRequest (current_term n3)
        (node_id n3) (last_log_index_locked n3) (last_log_term_locked n3))))" for p
      using b config [OF ok3 i] unat_last_log_index [OF ok3 b(6)] L ok3 last_log_term_eq [OF ok3]
      by (simp add: msg_ok_def node_ok_def core_ok_def)
    then have "ok b i (send_to_all (peers n3) (RpcRequestVoteRequest (RequestVoteRequest (current_term n3)
        (node_id n3) (last_log_index_locked n3) (last_log_term_locked n3))) n3)"
      using ok3 config [OF ok3 i]
      by (auto simp: send_to_all_spec node_ok_defs peer_ok_def persistent_part_def)
    then show ?thesis using False bb by auto
  qed
  show ?thesis
    unfolding start_election_locked_def Let_def n2_def [symmetric]
    by (rule sim_persist [where b = b, OF _ st bb okb])
      (use n2 node_ok_stored [OF ok] in simp, assumption, rule solicit, use n2 in simp_all)
qed

section \<open>Timers and proposals\<close>

lemma ok_timers:
  "ok a i n \<Longrightarrow> ok a i (n\<lparr>heartbeat_elapsed := h\<rparr>)"
  "ok a i n \<Longrightarrow> ok a i (n\<lparr>election_elapsed := e\<rparr>)"
  by (auto simp: node_ok_defs peer_ok_def persistent_part_def)

lemma tick_sim:
  assumes ok: "ok a i n" and i: "i \<in> set ms" and ia: "inv a" and ab: "abounded T L a"
    and T: "T + 2 < 2 ^ 64" and L: "L + 3 < 2 ^ 64" and el: "0 \<le> elapsed"
  shows "sim (Suc T) (Suc L) (\<lambda>_ _ _. True) a i (tick E n elapsed)"
proof -
  have ab': "abounded (Suc T) (Suc L) a" using ab by (rule abounded_mono) auto
  show ?thesis
    using el ab' start_election_sim [OF ok i ia ab T L] ok_timers [OF ok]
      broadcast_sim_any [OF ok_timers(1) [OF ok] _ i ab']
    by (auto simp: tick_def)
qed

lemma extend_step:
  assumes ok: "ok a i n" and ld: "node_state n = Leader" and e: "le_term e = cur a i"
    and ab: "abounded T L a"
  shows "\<exists>b. astep (majorities ms) i a b \<and> cur b i = cur a i \<and> alog b i = alog a i @ [e] \<and>
    lead b (cur a i) = Some i \<and> llog b (cur a i) = alog b i \<and> votes b = votes a \<and>
    acks b = acks a \<and> abounded T (Suc L) b"
proof -
  let ?b = "a\<lparr>llog := (llog a)(cur a i := alog a i @ [e]), alog := (alog a)(i := alog a i @ [e])\<rparr>"
  note l = leaderD(1,2) [OF ok ld]
  have "astep (majorities ms) i a ?b"
    by (rule astep.extend) (use l e in auto)
  then show ?thesis
    using l ab by (intro exI [of _ ?b]) (auto simp: abounded_def intro: le_SucI)
qed

lemma propose_sim:
  assumes ok: "ok a i n" and i: "i \<in> set ms" and ia: "inv a" and ab: "abounded T L a"
    and L: "L + 3 < 2 ^ 64"
  shows "sim T (Suc L) (\<lambda>_ _ _. True) a i (propose E n command)"
proof (cases "node_state n = Leader")
  case False
  have "abounded T (Suc L) a" using ab by (rule abounded_mono) auto
  then show ?thesis using False ok by (auto simp: propose_def)
next
  case ld: True
  let ?e = "LogEntry (current_term n) command False"
  have ct: "current_term n = cur a i" and r: "rlog n = default_log_entry # alog a i"
    using ok by (auto simp: node_ok_def core_ok_def)
  obtain b where st: "astep (majorities ms) i a b" and b: "cur b i = cur a i"
    "alog b i = alog a i @ [?e]" "lead b (cur a i) = Some i" "llog b (cur a i) = alog b i"
    "votes b = votes a" "acks b = acks a" "abounded T (Suc L) b"
    using extend_step [OF ok ld, of ?e T L] ct ab by auto
  have ib: "inv b" and ext: "aext a b"
    using maj.astep_ainv [OF ia st] maj.astep_aext [OF ia st] by auto
  have len: "length (rlog n) < 2 ^ 64 - 1" using r aboundedD(2) [OF ab, of i] L by simp
  have nofl: "(of_nat (length (rlog n)) :: u64) \<noteq> - 1"
    by (rule of_nat_u64_not_max) fact
  define n1 where "n1 = n\<lparr>rlog := rlog n @ [?e]\<rparr>"
  have com: "commit_ok b (cur b i) (alog b i) (unat (commit_index n))"
    using ok b(1,2) by (intro commit_ok_mono [OF ia ext, of "cur a i" "alog a i"])
      (auto simp: node_ok_def applied_ok_def commit_ok_def)
  have P: "peer_ok b i (n1\<lparr>storage := s\<rparr>) p" if "p \<in> set ms" "p \<noteq> i" for p s
    using leaderD(3) [OF ok ld that] b(1,2,6) by (auto simp: peer_ok_def n1_def)
  have okb: "ok b i (n1\<lparr>storage := s\<rparr>)" if "storage_load E s = Inr (persistent_part n1)" for s
    using ok that ld b com r P msg_ok_mono [OF ia ext] delivered_ok_mono [OF ia ext]
    by (auto simp: n1_def node_ok_defs persistent_part_def split: option.splits)
  have eq: "propose E n command = and_then (persist_locked E n1) (\<lambda>_ n2.
      and_then (advance_commit_index_locked n2) (\<lambda>_ m.
      and_then (broadcast_append_entries_locked m) (\<lambda>_ m'. Ret (Some (last_log_index_locked n2)) m')))"
    using ld nofl by (simp add: propose_def n1_def Let_def)
  have n1: "node_state n1 = Leader" "storage n1 = storage n" using ld by (simp_all add: n1_def)
  show ?thesis
    unfolding eq
  proof (rule sim_persist [where b = b, OF _ st _ b(7) okb], goal_cases)
    case (4 s)
    then show ?case
      by (intro sim_and_then [OF advance_commit_sim] sim_and_then [OF broadcast_sim_any])
        (use n1 i ib b(7) L in auto)
  qed (use n1 node_ok_stored [OF ok] abounded_mono [OF ab, of T "Suc L"] in auto)
qed

end

end
