(* ===== verification/RaftAppend.thy ===== *)
theory RaftAppend
  imports RaftSimulation
begin

text \<open>
  Log replication: the simulation lemmas of the AppendEntries handlers, on the follower and on the
  leader.
\<close>

context raft_cluster
begin

section \<open>The follower\<close>

lemma ok_reject:
  assumes "ok a i n" "i \<in> set ms"
  shows "ok a i (reject_append n from r x t)"
proof -
  have "current_term n = cur a i" using assms(1) by (simp add: node_ok_def core_ok_def)
  then show ?thesis
    unfolding reject_append_def by (intro ok_send [OF assms]) (simp add: msg_ok_def)
qed

text \<open>
  \<open>fits a i ll p inc\<close>: the incoming entries continue the leader's log \<open>ll\<close> after index \<open>p\<close>, and the
  node has the same entries up to \<open>p\<close>.
\<close>

definition fits :: "raft_abs \<Rightarrow> NodeId \<Rightarrow> LogEntry list \<Rightarrow> nat \<Rightarrow> LogEntry list \<Rightarrow> bool" where
  "fits a i ll p inc \<longleftrightarrow>
     lead a (cur a i) \<noteq> None \<and> ll = llog a (cur a i) \<and> p \<le> length (alog a i) \<and> p \<le> length ll \<and>
     take p (alog a i) = take p ll \<and> prefix (take p ll @ inc) ll"

lemma fits_nth:
  assumes "fits a i ll p inc" "j < length inc"
  shows "ll ! (p + j) = inc ! j" "p + j < length ll"
proof -
  have pre: "prefix (take p ll @ inc) ll" and p: "p \<le> length ll" using assms by (auto simp: fits_def)
  show "p + j < length ll" using prefix_length_le [OF pre] p assms(2) by simp
  show "ll ! (p + j) = inc ! j"
    using prefix_nth [OF pre, of "p + j"] p assms(2) by (simp add: nth_append)
qed

lemma fits_same_term:
  assumes ia: "inv a" and f: "fits a i ll p inc" "j < length inc" "p + j < length (alog a i)"
    and t: "le_term (alog a i ! (p + j)) = le_term (inc ! j)"
  shows "alog a i ! (p + j) = inc ! j"
proof -
  obtain c where c: "lead a (cur a i) = Some c" and ll: "ll = llog a (cur a i)"
    using f(1) by (auto simp: fits_def)
  note n = fits_nth [OF f(1,2)]
  have "take (Suc (p + j)) (alog a i) = take (Suc (p + j)) ll"
    using ainv_nodeD(1) [OF ia] ainv_leadD [OF ia c] ll f(3) n t by (intro wflog_matching) auto
  then show ?thesis using n by (metis lessI nth_take)
qed

lemma commit_ok_llog:
  assumes ia: "inv a" and c: "lead a (cur a i) = Some l" and com: "commit_ok a (cur a i) (alog a i) k"
    and "j < k"
  shows "j < length (llog a (cur a i)) \<and> alog a i ! j = llog a (cur a i) ! j"
proof -
  obtain u m where u: "(u, m) \<in> committed a" "u \<le> cur a i" "k \<le> m"
    "take k (alog a i) = take k (llog a u)"
    using com \<open>j < k\<close> by (auto simp: commit_ok_def)
  have pre: "prefix (take m (llog a u)) (llog a (cur a i))"
    by (rule maj.committed_llog [OF ia u(1) c u(2)])
  have m: "m \<le> length (llog a u)" using ainv_committedD [OF ia u(1)] by blast
  have "alog a i ! j = llog a u ! j" using u(4) \<open>j < k\<close> by (metis nth_take)
  then show ?thesis
    using prefix_nth [OF pre, of j] prefix_length_le [OF pre] m u(3) \<open>j < k\<close> by auto
qed

text \<open>The result of comparing the incoming entries of a leader with the node's log.\<close>

lemma scan_fits:
  assumes ia: "inv a" and ok: "ok a i n" and ab: "abounded T L a" and L: "L + 2 < 2 ^ 64"
    and f: "fits a i ll p inc" and x: "unat x = Suc p"
  shows "\<exists>l rest tr. scan_entries (rlog n) (commit_index n) x inc = ScanDone l rest tr \<and>
    (if tr \<or> rest \<noteq> []
     then l @ rest = default_log_entry # take p ll @ inc \<and> \<not> prefix (take p ll @ inc) (alog a i) \<and>
       unat (commit_index n) \<le> length (take p ll @ inc) \<and>
       take (unat (commit_index n)) (take p ll @ inc) = take (unat (commit_index n)) (alog a i)
     else l = rlog n \<and> rest = [] \<and> prefix (take p ll @ inc) (alog a i))"
proof -
  have r: "rlog n = default_log_entry # alog a i" and len: "length (alog a i) \<le> L"
    using abounded_len [OF ok ab] by auto
  have com: "commit_ok a (cur a i) (alog a i) (unat (commit_index n))"
    using ok by (simp add: node_ok_def applied_ok_def)
  obtain c where c: "lead a (cur a i) = Some c" and ll: "ll = llog a (cur a i)"
    and pl: "p \<le> length (alog a i)" and tk: "take p (alog a i) = take p ll"
    using f by (auto simp: fits_def)
  have tgt: "take (unat x) (rlog n) @ inc = default_log_entry # take p ll @ inc"
    using r x tk by simp
  have S: "case scan_entries (rlog n) (commit_index n) x inc of
      ScanOutOfBounds \<Rightarrow> False
    | ScanMismatch \<Rightarrow> \<exists>j < length inc. unat x + j < length (rlog n) \<and>
        rlog n ! (unat x + j) \<noteq> inc ! j \<and> le_term (rlog n ! (unat x + j)) = le_term (inc ! j)
    | ScanReject k t \<Rightarrow> unat x \<le> unat k \<and> k \<le> commit_index n \<and> unat k - unat x < length inc \<and>
        t = le_term (rlog n ! unat k) \<and> t \<noteq> le_term (inc ! (unat k - unat x))
    | ScanDone l rest truncated \<Rightarrow>
        (if truncated \<or> rest \<noteq> [] then
           l @ rest = take (unat x) (rlog n) @ inc \<and>
           \<not> prefix (take (unat x) (rlog n) @ inc) (rlog n) \<and>
           unat (commit_index n) < length (l @ rest) \<and>
           take (Suc (unat (commit_index n))) (l @ rest) =
             take (Suc (unat (commit_index n))) (rlog n)
         else l = rlog n \<and> prefix (take (unat x) (rlog n) @ inc) (rlog n))"
    by (rule scan_entries_spec) (use r x pl len L com in \<open>auto simp: commit_ok_def\<close>)
  show ?thesis
  proof (cases "scan_entries (rlog n) (commit_index n) x inc")
    case ScanOutOfBounds
    then show ?thesis using S by simp
  next
    case ScanMismatch
    then obtain j where "j < length inc" "p + j < length (alog a i)" "alog a i ! (p + j) \<noteq> inc ! j"
      "le_term (alog a i ! (p + j)) = le_term (inc ! j)"
      using S r x by auto
    then show ?thesis using fits_same_term [OF ia f] by blast
  next
    case (ScanReject k t)
    then have k: "Suc p \<le> unat k" "unat k \<le> unat (commit_index n)" "unat k - Suc p < length inc"
      "le_term (rlog n ! unat k) \<noteq> le_term (inc ! (unat k - Suc p))"
      using S x by (auto simp: word_le_nat_alt)
    have "alog a i ! (unat k - 1) = ll ! (unat k - 1)"
      using commit_ok_llog [OF ia c com, of "unat k - 1"] k ll by auto
    moreover have "ll ! (p + (unat k - Suc p)) = inc ! (unat k - Suc p)"
      by (rule fits_nth(1) [OF f k(3)])
    moreover have "p + (unat k - Suc p) = unat k - 1" using k(1) by simp
    ultimately show ?thesis using k r by simp
  next
    case (ScanDone l rest tr)
    show ?thesis
    proof (cases "tr \<or> rest \<noteq> []")
      case True
      define P where "P = take p ll @ inc"
      have D: "l @ rest = default_log_entry # P \<and> \<not> prefix (default_log_entry # P) (rlog n) \<and>
        unat (commit_index n) < length (l @ rest) \<and>
        take (Suc (unat (commit_index n))) (l @ rest) = take (Suc (unat (commit_index n))) (rlog n)"
        using S [unfolded tgt, folded P_def] unfolding ScanDone scan_result.case if_P [OF True] .
      then have e: "l @ rest = default_log_entry # P" by simp
      have "\<not> prefix P (alog a i)" "unat (commit_index n) \<le> length P"
        "take (unat (commit_index n)) P = take (unat (commit_index n)) (alog a i)"
        using D unfolding e r by simp_all
      then show ?thesis using ScanDone True e unfolding P_def [symmetric] by auto
    next
      case False
      then show ?thesis using S ScanDone r unfolding tgt by auto
    qed
  qed
qed

lemma accept_sim:
  assumes ok: "ok a i n" and ia: "inv a" and ab: "abounded T L a" and fo: "node_state n = Follower"
    and c: "lead a (cur a i) \<noteq> None" and P: "prefix P (llog a (cur a i))" "\<not> prefix P (alog a i)"
    and len: "length P \<le> L"
    and com: "unat (commit_index n) \<le> length P"
      "take (unat (commit_index n)) P = take (unat (commit_index n)) (alog a i)"
  shows "sim T L (\<lambda>b _ m. aext a b \<and> cur b i = cur a i \<and> llog b = llog a \<and> lead b = lead a \<and>
      prefix P (alog b i) \<and> node_state m = Follower) a i
    (persist_locked E (n\<lparr>rlog := default_log_entry # P\<rparr>))"
proof -
  let ?b = "a\<lparr>alog := (alog a)(i := P)\<rparr>"
  have st: "astep (majorities ms) i a ?b" by (rule astep.accept [OF c P])
  have ext: "aext a ?b" by (rule maj.astep_aext [OF ia st])
  have "commit_ok ?b (cur ?b i) (alog ?b i) (unat (commit_index n))"
    using ok com by (intro commit_ok_mono [OF ia ext, of "cur a i" "alog a i"])
      (auto simp: node_ok_def applied_ok_def)
  then have okb: "ok ?b i (n\<lparr>rlog := default_log_entry # P, storage := s\<rparr>)"
    if "storage_load E s = Inr (persistent_part (n\<lparr>rlog := default_log_entry # P\<rparr>))" for s
    using ok that fo msg_ok_mono [OF ia ext] delivered_ok_mono [OF ia ext]
    by (auto simp: node_ok_defs persistent_part_def split: option.splits)
  have "abounded T L ?b" using ab len by (auto simp: abounded_def)
  then show ?thesis
    by (intro sim_persist_last [where b = ?b, OF _ st ab])
      (use ext fo okb node_ok_stored [OF ok] in simp_all)
qed

lemma commit_and_reply_sim:
  assumes ok: "ok b i m" and i: "i \<in> set ms" and ib: "inv b" and ab: "abounded T L b"
    and L: "L + 2 < 2 ^ 64" and c: "lead b (cur b i) \<noteq> None" and ll: "ll = llog b (cur b i)"
    and P: "prefix P ll" "prefix P (alog b i)" "node_state m = Follower"
    and mt: "unat matched = length P" and lc: "unat lc \<le> length P"
    and cok: "commit_ok b (cur b i) ll (unat lc)"
  shows "sim T L (\<lambda>_ _ _. True) b i
    (and_then (if lc > commit_index m
        then apply_committed_entries_locked
          (m\<lparr>commit_index := min lc (last_log_index_locked m)\<rparr>) else Ret () m)
      (\<lambda>_ n3. Ret () (send_locked n3 from (RpcAppendEntriesResponse
         (AppendEntriesResponse (current_term n3) True matched (matched + 1) None rid)))))"
proof -
  let ?c = "b\<lparr>acks := acks b \<union> {(i, cur b i, j) | j. j \<le> length P}\<rparr>"
  have tk: "take (length P) ll = P" using P(1) by (auto elim: prefixE)
  have st: "astep (majorities ms) i b ?c"
    by (rule astep.ack) (use c ll P prefix_length_le [OF P(1)] tk in auto)
  have ext: "aext b ?c" by (rule maj.astep_aext [OF ib st])
  have ic: "inv ?c" by (rule maj.astep_ainv [OF ib st])
  have okc: "ok ?c i m"
    by (rule node_ok_same [OF ib ext _ ok]) (simp add: same_node_def)
  have len: "length (alog b i) < 2 ^ 64" "rlog m = default_log_entry # alog b i"
    using abounded_len [OF ok ab] L by auto
  have lcl: "unat lc \<le> length (alog b i)" using lc prefix_length_le [OF P(2)] by simp
  have mn: "min lc (last_log_index_locked m) = lc"
    using unat_last_log_index [OF ok ab L] lcl by (simp add: min_def word_le_nat_alt)
  have ct: "current_term m = cur b i" using ok by (simp add: node_ok_def core_ok_def)
  have reply: "msg_ok ?c (Message i from (RpcAppendEntriesResponse
      (AppendEntriesResponse (cur b i) True matched (matched + 1) None rid)))"
    using mt by (simp add: msg_ok_def)
  have abc: "abounded T L ?c" using ab by (simp add: abounded_def)
  show ?thesis
  proof (cases "lc > commit_index m")
    case False
    then show ?thesis
      using ok_send [OF okc i reply] ct st abc by (auto intro!: exI [of _ ?c])
  next
    case True
    have la: "last_applied m \<le> commit_index m" using ok by (simp add: node_ok_def applied_ok_def)
    have ap: "apply_committed_entries_locked (m\<lparr>commit_index := lc\<rparr>) =
        Ret () (deliver (m\<lparr>commit_index := lc\<rparr>))"
      using la True lcl len
      by (subst apply_committed_entries_spec) (auto simp: deliver_def)
    have "take (unat lc) (alog b i) = take (unat lc) ll"
      using prefix_take_same [OF P(1) lc] prefix_take_same [OF P(2) lc] by simp
    then have "commit_ok ?c (cur b i) (alog b i) (unat lc)"
      using lcl by (intro commit_ok_mono [OF ib ext cok]) auto
    then have "ok ?c i (deliver (m\<lparr>commit_index := lc\<rparr>))"
      using la True len by (intro deliver_ok [OF okc]) auto
    then show ?thesis
      using ok_send [OF _ i reply] ct st abc ap mn True
      by (auto intro!: exI [of _ ?c] simp: deliver_def)
  qed
qed

lemma append_and_commit_sim:
  assumes ok: "ok a i n" and i: "i \<in> set ms" and ia: "inv a" and ab: "abounded T L a"
    and L: "L + 2 < 2 ^ 64" and fo: "node_state n = Follower"
    and f: "fits a i ll (unat (aeq_previous_log_index r)) (aeq_entries r)"
    and lc: "unat (aeq_leader_commit r) \<le> unat (aeq_previous_log_index r) + length (aeq_entries r)"
    and cok: "commit_ok a (cur a i) ll (unat (aeq_leader_commit r))"
  shows "sim T L (\<lambda>_ _ _. True) a i (append_and_commit E n from r)"
proof -
  let ?p = "unat (aeq_previous_log_index r)" and ?lc = "aeq_leader_commit r"
  define P where "P = take ?p ll @ aeq_entries r"
  have c: "lead a (cur a i) \<noteq> None" and ll: "ll = llog a (cur a i)" and pre: "prefix P ll"
    and p: "?p \<le> length (alog a i)" "?p \<le> length ll"
    using f by (auto simp: fits_def P_def)
  have lenP: "length P = ?p + length (aeq_entries r)" using p by (simp add: P_def)
  have lenL: "length P \<le> L"
    using prefix_length_le [OF pre] ll c aboundedD(3) [OF ab] by fastforce
  have x: "unat (aeq_previous_log_index r + 1) = Suc ?p"
    using p abounded_len [OF ok ab] L by (simp add: unat_plus_one_u64)
  obtain l rest tr where sc: "scan_entries (rlog n) (commit_index n)
      (aeq_previous_log_index r + 1) (aeq_entries r) = ScanDone l rest tr"
    and D: "if tr \<or> rest \<noteq> []
     then l @ rest = default_log_entry # P \<and> \<not> prefix P (alog a i) \<and>
       unat (commit_index n) \<le> length P \<and>
       take (unat (commit_index n)) P = take (unat (commit_index n)) (alog a i)
     else l = rlog n \<and> rest = [] \<and> prefix P (alog a i)"
    using scan_fits [OF ia ok ab L f x] unfolding P_def by blast
  let ?first = "if tr \<or> rest \<noteq> [] then persist_locked E (n\<lparr>rlog := l @ rest\<rparr>)
    else Ret () (n\<lparr>rlog := l @ rest\<rparr>)"
  have first: "sim T L (\<lambda>b _ m. aext a b \<and> cur b i = cur a i \<and> llog b = llog a \<and> lead b = lead a \<and>
      prefix P (alog b i) \<and> node_state m = Follower) a i ?first"
  proof (cases "tr \<or> rest \<noteq> []")
    case True
    then show ?thesis using accept_sim [OF ok ia ab fo c _ _ lenL] D pre ll by auto
  next
    case False
    then show ?thesis using D ok ab fo by auto
  qed
  show ?thesis
    unfolding append_and_commit_def sc Let_def scan_result.case
  proof (rule sim_and_then [OF first], elim conjE, goal_cases)
    case (1 u m b)
    have mt: "unat (aeq_previous_log_index r + of_nat (length (aeq_entries r))) = length P"
      using lenP lenL L by (simp add: unat_plus_u64)
    have "commit_ok b (cur b i) ll (unat ?lc)"
      using cok 1 by (intro commit_ok_mono [OF ia _ cok]) (auto simp: commit_ok_def)
    then show ?case
      using 1 asteps_ainv [OF 1(1) ia] c ll pre lc lenP
      by (intro commit_and_reply_sim [OF _ i _ _ L _ _ _ _ _ mt, where ll = ll]) auto
  qed simp_all
qed

text \<open>The handler of a request of the node's own term, after its guards.\<close>

definition append_checked ::
    "('st, 'g) RaftNode \<Rightarrow> NodeId \<Rightarrow> AppendEntriesRequest \<Rightarrow> (unit, ('st, 'g) RaftNode) outcome" where
  "append_checked n from r =
     (if aeq_previous_log_index r > last_log_index_locked n then
        Ret () (reject_append n from r (last_log_index_locked n + 1) None)
      else if aeq_previous_log_index r > 0 then
        (case log_at (rlog n) (aeq_previous_log_index r) of
           None \<Rightarrow> Exc UndefinedBehaviour n
         | Some previous \<Rightarrow>
             if le_term previous \<noteq> aeq_previous_log_term r then
               (case first_index_of_term (rlog n) (le_term previous) (aeq_previous_log_index r) of
                  None \<Rightarrow> Exc UndefinedBehaviour n
                | Some x \<Rightarrow> Ret () (reject_append n from r x (Some (le_term previous))))
             else append_and_commit E n from r)
      else append_and_commit E n from r)"

lemma handle_append_entries_current:
  assumes ok: "ok a i n" and r: "aeq_leader_id r = from" "aeq_term r = current_term n"
    "\<not> list_ex (\<lambda>entry. le_term entry = 0 \<or> le_term entry > aeq_term r) (aeq_entries r)"
  shows "\<exists>n1. ok a i n1 \<and> node_state n1 = Follower \<and> rlog n1 = rlog n \<and> current_term n1 = current_term n \<and>
    handle_append_entries_locked E n from r = append_checked n1 from r"
proof -
  define first where "first = (if node_state n \<noteq> Follower \<or> leader_id n \<noteq> Some (aeq_leader_id r)
      then become_follower_locked E n (current_term n) (Some (aeq_leader_id r))
      else Ret () (reset_election_timeout_locked E n))"
  obtain n1 where n1: "first = Ret () n1" "ok a i n1" "node_state n1 = Follower" "rlog n1 = rlog n"
      "current_term n1 = current_term n"
    using become_follower_same [OF ok, of "Some (aeq_leader_id r)"] ok unfolding first_def
    by (cases "node_state n \<noteq> Follower \<or> leader_id n \<noteq> Some (aeq_leader_id r)")
      auto
  have "handle_append_entries_locked E n from r = append_checked n1 from r"
    using r n1(1) unfolding handle_append_entries_locked_def first_def [symmetric] append_checked_def by simp
  then show ?thesis using n1 by blast
qed

lemma handle_append_entries_sim:
  assumes ok: "ok a i n" and i: "i \<in> set ms" and ia: "inv a" and ab: "abounded T L a"
    and L: "L + 2 < 2 ^ 64" and tle: "aeq_term r \<le> cur a i"
    and msg: "msg_ok a (Message from to (RpcAppendEntriesRequest r))"
  shows "sim T L (\<lambda>_ _ _. True) a i (handle_append_entries_locked E n from r)"
proof (cases "aeq_leader_id r \<noteq> from \<or> aeq_term r < cur a i \<or>
    list_ex (\<lambda>entry. le_term entry = 0 \<or> le_term entry > aeq_term r) (aeq_entries r)")
  case True
  have "current_term n = cur a i" using ok by (simp add: node_ok_def core_ok_def)
  then show ?thesis
    using True ok_reject [OF ok i] ab by (auto simp: handle_append_entries_locked_def)
next
  case False
  let ?p = "unat (aeq_previous_log_index r)" and ?ll = "llog a (cur a i)"
  have t: "aeq_term r = cur a i" using False tle by auto
  have ct: "current_term n = cur a i" using ok by (simp add: node_ok_def core_ok_def)
  have c: "lead a (cur a i) = Some from" and p: "?p \<le> length ?ll"
    and pre: "prefix (take ?p ?ll @ aeq_entries r) ?ll"
    and pt: "aeq_previous_log_term r = term_before ?ll ?p"
    and lc: "unat (aeq_leader_commit r) \<le> ?p + length (aeq_entries r)"
    and cok: "commit_ok a (cur a i) ?ll (unat (aeq_leader_commit r))"
    using msg t by (auto simp: msg_ok_def Let_def)
  obtain n1 where n1: "ok a i n1" "node_state n1 = Follower"
    and H: "handle_append_entries_locked E n from r = append_checked n1 from r"
    using handle_append_entries_current [OF ok, of r "from"] False t ct by auto
  have len: "rlog n1 = default_log_entry # alog a i" "length (alog a i) \<le> L"
    using abounded_len [OF n1(1) ab] by auto
  have go: "sim T L (\<lambda>_ _ _. True) a i (append_and_commit E n1 from r)"
    if "?p \<le> length (alog a i)" "take ?p (alog a i) = take ?p ?ll"
    using that c p pre by (intro append_and_commit_sim [OF n1(1) i ia ab L n1(2) _ lc cok])
      (auto simp: fits_def)
  consider (long) "aeq_previous_log_index r > last_log_index_locked n1"
    | (zero) "aeq_previous_log_index r = 0"
    | (mid) "0 < aeq_previous_log_index r" "?p \<le> length (alog a i)"
    using unat_last_log_index [OF n1(1) ab L] unfolding word_less_nat_alt
    by (metis not_le unat_0 unat_gt_0)
  then show ?thesis
  proof cases
    case long
    then show ?thesis using H [unfolded append_checked_def] ok_reject [OF n1(1) i] ab by auto
  next
    case zero
    then show ?thesis using H [unfolded append_checked_def] go by simp
  next
    case mid
    have rng: "?p < length (rlog n1)" using mid len by simp
    have p0: "0 < ?p" using mid(1) by (simp add: word_less_nat_alt)
    have prev: "rlog n1 ! ?p = alog a i ! (?p - 1)" using p0 len by simp
    have nl: "\<not> aeq_previous_log_index r > last_log_index_locked n1"
      using mid unat_last_log_index [OF n1(1) ab L] by (simp add: word_less_nat_alt)
    show ?thesis
    proof (cases "le_term (alog a i ! (?p - 1)) = aeq_previous_log_term r")
      case True
      have "take (Suc (?p - 1)) (alog a i) = take (Suc (?p - 1)) ?ll"
        using ainv_nodeD(1) [OF ia] ainv_leadD [OF ia c] mid(2) p p0 True pt
        by (intro wflog_matching) (auto simp: term_before_def)
      then have "take ?p (alog a i) = take ?p ?ll" using p0 by simp
      then show ?thesis using H [unfolded append_checked_def] go mid nl rng prev True by simp
    next
      case False
      obtain k where "first_index_of_term (rlog n1) (le_term (rlog n1 ! ?p))
          (aeq_previous_log_index r) = Some k"
        using first_index_of_term_spec [OF rng mid(1) refl] by blast
      then show ?thesis
        using H [unfolded append_checked_def] mid nl rng prev False ok_reject [OF n1(1) i] ab by auto
    qed
  qed
qed

section \<open>The leader\<close>

lemma set_progress_ok:
  assumes ok: "ok a i n" and ld: "node_state n = Leader"
    and nx: "0 < nx" "unat nx \<le> Suc (length (alog a i))"
    and m: "unat m \<le> length (alog a i)" "m = 0 \<or> (\<forall>j \<le> unat m. (p, cur a i, j) \<in> acks a)"
  shows "ok a i (n\<lparr>match_index := (match_index n)(p \<mapsto> m), next_index := (next_index n)(p \<mapsto> nx)\<rparr>)"
proof -
  have "peer_ok a i (n\<lparr>match_index := (match_index n)(p \<mapsto> m),
      next_index := (next_index n)(p \<mapsto> nx)\<rparr>) q" if "q \<in> set ms" "q \<noteq> i" for q
    using leaderD(3) [OF ok ld that] nx m by (cases "q = p") (auto simp: peer_ok_def)
  then show ?thesis
    using ok ld by (auto simp: node_ok_defs persistent_part_def split: option.splits)
qed

lemma append_success_sim:
  assumes ok: "ok a i n" and ld: "node_state n = Leader" and i: "i \<in> set ms" and ia: "inv a"
    and ab: "abounded T L a" and L: "L + 2 < 2 ^ 64" and fr: "from \<in> set ms" "from \<noteq> i"
    and acked: "\<And>j. j \<le> unat (aer_match_index r) \<Longrightarrow> (from, cur a i, j) \<in> acks a"
  shows "sim T L (\<lambda>_ _ _. True) a i (handle_append_success n from r)"
proof (cases "aer_match_index r > last_log_index_locked n")
  case True
  then show ?thesis using ok ab by (auto simp: handle_append_success_def)
next
  case False
  obtain nx m where nx: "next_index n from = Some nx" and m: "match_index n from = Some m"
    and b: "0 < nx" "unat nx \<le> Suc (length (alog a i))" "unat m \<le> length (alog a i)"
      "m = 0 \<or> (\<forall>j \<le> unat m. (from, cur a i, j) \<in> acks a)"
    using leaderD(3) [OF ok ld fr] by (auto simp: peer_ok_def)
  have le: "unat (aer_match_index r) \<le> length (alog a i)"
    using False unat_last_log_index [OF ok ab L] by (simp add: word_less_nat_alt)
  then have u: "unat (aer_match_index r + 1) = Suc (unat (aer_match_index r))"
    using abounded_len [OF ok ab] L by (simp add: unat_plus_one_u64)
  let ?m = "max m (aer_match_index r)" and ?nx = "max nx (aer_match_index r + 1)"
  define n2 where "n2 = n\<lparr>match_index := (match_index n)(from \<mapsto> ?m),
    next_index := (next_index n)(from \<mapsto> ?nx)\<rparr>"
  have "0 < ?nx" using b(1) by (simp add: less_max_iff_disj)
  moreover have "unat ?nx \<le> Suc (length (alog a i))" using b le u by (simp add: max_def)
  moreover have "unat ?m \<le> length (alog a i)" using b le by (simp add: max_def)
  moreover have "?m = 0 \<or> (\<forall>j \<le> unat ?m. (from, cur a i, j) \<in> acks a)"
    using b(4) acked by (auto simp: max_def)
  ultimately have ok2: "ok a i n2"
    unfolding n2_def by (rule set_progress_ok [OF ok ld])
  have eq: "handle_append_success n from r = and_then (advance_commit_index_locked n2)
      (\<lambda>advanced n3. if advanced then broadcast_append_entries_locked n3
        else (let (m, ms') = map_index (match_index n3) from; n4 = n3\<lparr>match_index := ms'\<rparr>
              in if m < last_log_index_locked n4 then send_append_entries_locked n4 from
                 else Ret () n4))"
    using False nx m by (simp add: handle_append_success_def Let_def n2_def)
  have ld2: "node_state n2 = Leader" using ld by (simp add: n2_def)
  show ?thesis
    unfolding eq
  proof (rule sim_and_then [OF advance_commit_sim [OF ok2 ld2 i ia ab L]], goal_cases)
    case (1 adv n3 b)
    obtain m' where "match_index n3 from = Some m'"
      using leaderD(3) [OF 1(2,4) fr] by (auto simp: peer_ok_def)
    then show ?case
      using 1 i fr sim_weaken [OF send_append_sim [OF 1(2,4) i 1(3) fr], of "\<lambda>_ _ _. True"]
      by (auto intro: broadcast_sim_any)
  qed simp_all
qed

lemma append_failure_sim:
  assumes ok: "ok a i n" and ld: "node_state n = Leader" and i: "i \<in> set ms" and ia: "inv a"
    and ab: "abounded T L a" and L: "L + 2 < 2 ^ 64" and fr: "from \<in> set ms" "from \<noteq> i"
  shows "sim T L (\<lambda>_ _ _. True) a i (handle_append_failure n from r)"
proof -
  obtain rid ids where ids: "map_index (append_request_id n) from = (rid, ids)" by fastforce
  define n1 where "n1 = n\<lparr>append_request_id := ids\<rparr>"
  have ok1: "ok a i n1" using ok_sent [OF ok, of "[]" ids] by (simp add: n1_def)
  have ld1: "node_state n1 = Leader" using ld by (simp add: n1_def)
  show ?thesis
  proof (cases "rid = aer_request_id r")
    case False
    then show ?thesis using ids ok1 ab by (auto simp: handle_append_failure_def n1_def)
  next
    case True
    obtain m where m: "match_index n1 from = Some m" "unat m \<le> length (alog a i)"
      "m = 0 \<or> (\<forall>j \<le> unat m. (from, cur a i, j) \<in> acks a)"
      using leaderD(3) [OF ok1 ld1 fr] by (auto simp: peer_ok_def)
    have len: "length (alog a i) \<le> L" and last: "unat (last_log_index_locked n1) = length (alog a i)"
      "unat (last_log_index_locked n1) < length (rlog n1)"
      using abounded_len [OF ok1 ab] unat_last_log_index [OF ok1 ab L] by auto
    define search where "search = (case aer_conflict_term r of None \<Rightarrow> Inr None
      | Some t \<Rightarrow> last_index_of_term (rlog n1) t (last_log_index_locked n1))"
    have "\<exists>found. last_index_of_term (rlog n1) t (last_log_index_locked n1) = Inr found" for t
      using last_index_of_term_spec [OF last(2), of t] by blast
    then obtain found where found: "search = Inr found"
      unfolding search_def by (cases "aer_conflict_term r") auto
    define nx where "nx = max (clamp_u64
      (case found of None \<Rightarrow> aer_conflict_index r | Some x \<Rightarrow> x + 1) 1
      (last_log_index_locked n1 + 1)) (m + 1)"
    have u: "unat (m + 1) = Suc (unat m)" "unat (last_log_index_locked n1 + 1) = Suc (length (alog a i))"
      using m(2) len last(1) L by (simp_all add: unat_plus_one_u64)
    have "0 < m + 1" using u(1) by (simp add: word_less_nat_alt)
    then have "0 < nx" by (simp add: nx_def less_max_iff_disj)
    moreover have "unat nx \<le> Suc (length (alog a i))"
      using u m(2) by (auto simp: nx_def clamp_u64_def max_def word_less_nat_alt)
    ultimately have ok2: "ok a i (n1\<lparr>match_index := (match_index n1)(from \<mapsto> m),
        next_index := (next_index n1)(from \<mapsto> nx)\<rparr>)"
      by (rule set_progress_ok [OF ok1 ld1 _ _ m(2,3)])
    have "handle_append_failure n from r = send_append_entries_locked
        (n1\<lparr>match_index := (match_index n1)(from \<mapsto> m), next_index := (next_index n1)(from \<mapsto> nx)\<rparr>)
        from"
      using True found m(1)
      unfolding handle_append_failure_def ids prod.case Let_def n1_def [symmetric]
        search_def [symmetric]
      by (simp add: nx_def map_upd_triv)
    then show ?thesis
      using sim_weaken [OF send_append_sim [OF ok2 _ i ab fr]] ld1 by simp
  qed
qed

lemma handle_append_response_sim:
  assumes ok: "ok a i n" and i: "i \<in> set ms" and ia: "inv a"
    and ab: "abounded T L a" and L: "L + 2 < 2 ^ 64" and fr: "from \<in> set ms" "from \<noteq> i"
    and msg: "msg_ok a (Message from to (RpcAppendEntriesResponse r))"
  shows "sim T L (\<lambda>_ _ _. True) a i (handle_append_entries_response_locked n from r)"
proof -
  have "current_term n = cur a i" using ok by (simp add: node_ok_def core_ok_def)
  then show ?thesis
    using ok ab msg append_success_sim [OF ok _ i ia ab L fr] append_failure_sim [OF ok _ i ia ab L fr]
    by (auto simp: handle_append_entries_response_locked_def msg_ok_def)
qed

end

end
