(* ===== verification/RaftClusterInv.thy ===== *)
theory RaftClusterInv
  imports RaftAppend
begin

text \<open>
  The public operations of a node and the cluster: every operation, on a message the cluster sent, is
  a sequence of abstract steps, also when a save throws; a restart always succeeds; hence every
  reachable cluster is related to a reachable state of the abstract protocol.
\<close>

context raft_cluster
begin

section \<open>Messages\<close>

lemma msg_term_bound:
  assumes ia: "inv a" and m: "msg_ok a m" and ab: "abounded T L a"
  shows "unat (message_term m) \<le> T"
proof -
  have below: "unat t \<le> T" if "t \<le> cur a v" for t v
    using that aboundedD(1) [OF ab, of v] by (simp add: word_le_nat_alt)
  show ?thesis
  proof (cases "msg_rpc m")
    case (RpcRequestVoteRequest r)
    then obtain l where "cand a (rvq_term r) (msg_from m) = Some l" using m by (auto simp: msg_ok_def)
    then have "rvq_term r \<le> cur a (msg_from m)" using ainv_candD [OF ia] by blast
    then show ?thesis using below RpcRequestVoteRequest by (simp add: message_term_def)
  next
    case (RpcAppendEntriesRequest r)
    then have "lead a (aeq_term r) = Some (msg_from m)" using m by (auto simp: msg_ok_def)
    then show ?thesis using ainv_leadD [OF ia] ainv_candD [OF ia] below RpcAppendEntriesRequest
      by (fastforce simp: message_term_def)
  qed (use m below in \<open>auto simp: message_term_def msg_ok_def\<close>)
qed

lemma dispatch_sim:
  assumes ok: "ok a i n" and i: "i \<in> set ms" and ia: "inv a" and ab: "abounded T L a"
    and L: "L + 3 < 2 ^ 64" and msg: "msg_ok a m" "msg_to m = i"
    and fr: "msg_from m \<in> set ms" "msg_from m \<noteq> i" and tle: "message_term m \<le> cur a i"
  shows "sim T (Suc L) (\<lambda>_ _ _. True) a i (dispatch_rpc E n (msg_from m) (msg_rpc m))"
proof -
  have ab': "abounded T (Suc L) a" using ab by (rule abounded_mono) auto
  have m: "msg_ok a (Message (msg_from m) i (msg_rpc m))" using msg by (cases m) simp
  show ?thesis
  proof (cases "msg_rpc m")
    case (RpcRequestVoteRequest r)
    then show ?thesis
      using handle_request_vote_sim [OF ok i ia ab' _ _ _ fr(1)] L m tle by (simp add: message_term_def)
  next
    case (RpcRequestVoteResponse r)
    then show ?thesis
      using handle_request_vote_response_sim [OF ok i ia ab] L m fr by simp
  next
    case (RpcAppendEntriesRequest r)
    then show ?thesis
      using handle_append_entries_sim [OF ok i ia ab'] L m tle by (simp add: message_term_def)
  next
    case (RpcAppendEntriesResponse r)
    then show ?thesis
      using handle_append_response_sim [OF ok i ia ab' _ fr] L m by simp
  qed
qed

lemma step_sim:
  assumes ok: "ok a i n" and i: "i \<in> set ms" and ia: "inv a" and ab: "abounded T L a"
    and L: "L + 3 < 2 ^ 64" and msg: "msg_ok a m"
  shows "sim T (Suc L) (\<lambda>_ _ _. True) a i (step_locked E n m)"
proof (cases "msg_to m \<noteq> node_id n \<or> \<not> is_peer_locked n (msg_from m)")
  case True
  have "abounded T (Suc L) a" using ab by (rule abounded_mono) auto
  then show ?thesis using True ok by (auto simp: step_locked_def)
next
  case False
  have to: "msg_to m = i" and fr: "msg_from m \<in> set ms" "msg_from m \<noteq> i"
    using False config [OF ok i] by (auto simp: is_peer_locked_def)
  have ct: "current_term n = cur a i" using ok by (simp add: node_ok_def core_ok_def)
  let ?first = "if message_term m > current_term n
    then become_follower_locked E n (message_term m) None else Ret () n"
  have "sim T L (\<lambda>b _ _. message_term m \<le> cur b i) a i ?first"
  proof (cases "message_term m > current_term n")
    case True
    then show ?thesis
      using sim_weaken [OF become_follower_higher [OF ok _ msg_term_bound [OF ia msg ab] ab ia]] ct
      by auto
  qed (use ok ab ct in auto)
  then show ?thesis
    unfolding step_locked_def if_not_P [OF False]
  proof (rule sim_and_then, goal_cases)
    case (1 u n1 b)
    have "msg_ok b m" using msg_ok_mono [OF ia asteps_aext [OF 1(1) ia] msg] .
    then have "sim T (Suc L) (\<lambda>_ _ _. True) b i (dispatch_rpc E n1 (msg_from m) (msg_rpc m))"
      using dispatch_sim [OF 1(2) i asteps_ainv [OF 1(1) ia] 1(3) L _ to fr 1(4)] by blast
    then show ?case by (rule sim_and_then) auto
  qed auto
qed

lemma handle_request_sim:
  assumes ok: "ok a i n" and i: "i \<in> set ms" and ia: "inv a" and ab: "abounded T L a"
    and L: "L + 3 < 2 ^ 64" and msg: "msg_ok a m" and rq: "is_request (msg_rpc m)"
  shows "sim T (Suc L) (\<lambda>b ans _. \<forall>r. ans = Some r \<longrightarrow> msg_ok b r) a i (handle_request E n m)"
proof -
  have eq: "handle_request E n m =
     and_then (step_locked E n m) (\<lambda>accepted n1.
           if \<not> accepted then Ret None n1
           else
             (case take_answer m (drop (length (outbox n)) (outbox n1)) of
                None \<Rightarrow> Ret None n1
              | Some (response, rest) \<Rightarrow>
                  Ret (Some response)
                    (n1\<lparr>outbox := take (length (outbox n)) (outbox n1) @ rest\<rparr>)))"
    using rq by (simp add: handle_request_def Let_def)
  show ?thesis
    unfolding eq
  proof (rule sim_and_then [OF step_sim [OF ok i ia ab L msg]], goal_cases)
    case (1 acc n1 b)
    have out: "\<And>x. x \<in> set (outbox n1) \<Longrightarrow> msg_ok b x \<and> msg_from x = i"
      using 1(2) by (auto simp: node_ok_def out_ok_def)
    show ?case
    proof (cases "take_answer m (drop (length (outbox n)) (outbox n1))")
      case None
      then show ?thesis using 1 by auto
    next
      case (Some p)
      obtain r rest where p: "p = (r, rest)" by fastforce
      have "r \<in> set (outbox n1)" "set rest \<subseteq> set (outbox n1)"
        using take_answer_Some [OF Some [unfolded p]] by (auto dest: in_set_dropD)
      then have "msg_ok b r" "ok b i (n1\<lparr>outbox := take (length (outbox n)) (outbox n1) @ rest\<rparr>)"
        using out 1(2)
        by (auto simp: node_ok_defs peer_ok_def persistent_part_def dest: in_set_takeD split: option.splits)
      then show ?thesis using 1 Some p by auto
    qed
  qed auto
qed

section \<open>Restarts\<close>

lemma wflog_terms:
  assumes ia: "inv a" and w: "wflog a l"
  shows "sorted (0 # map le_term l)" "e \<in> set l \<Longrightarrow> 0 < le_term e"
proof -
  have le: "le_term (l ! k) \<le> le_term (l ! Suc k)" if "Suc k < length l" for k
  proof -
    let ?t = "le_term (l ! Suc k)"
    have pre: "prefix (take (Suc (Suc k)) l) (llog a ?t)" and "lead a ?t \<noteq> None"
      using wflogD [OF w that] by auto
    moreover have "l ! k \<in> set (take (Suc (Suc k)) l)"
      using that by (auto simp: in_set_conv_nth intro!: exI [of _ k])
    ultimately show ?thesis using llog_terms [OF ia] set_mono_prefix [OF pre] by blast
  qed
  then show "sorted (0 # map le_term l)" by (simp add: sorted_iff_nth_Suc)
  show "0 < le_term e" if e: "e \<in> set l"
  proof -
    obtain k where "k < length l" "e = l ! k" using e by (auto simp: in_set_conv_nth)
    then obtain c where "lead a (le_term e) = Some c" using wflogD [OF w] by blast
    then show ?thesis using ainv_leadD [OF ia] ainv_candD [OF ia] by blast
  qed
qed

lemma new_node_ok:
  assumes mem: "valid_membership ms cfgs" and ia: "inv a" and i: "i \<in> set ms"
    and ld: "storage_load E st = Inr ps"
    and ps: "ps_current_term ps = cur a i" "ps_log ps = alog a i"
      "case ps_voted_for ps of None \<Rightarrow> \<forall>c l. (i, cur a i, c, l) \<notin> votes a
       | Some c \<Rightarrow> c \<in> set ms \<and> (\<exists>l. (i, cur a i, c, l) \<in> votes a)"
  shows "\<exists>n. new_raft_node E (cfgs i) (Some st) = Inr n \<and> ok a i n \<and> storage n = st \<and> outbox n = []"
proof -
  have v: "validate_config (cfgs i) = Inr ()" "cfg_node_id (cfgs i) = i"
    "set (cfg_peers (cfgs i)) = set ms - {i}"
    using mem i by (auto simp: valid_membership_def)
  have m: "insert i (set ms - {i}) = set ms" using i by auto
  have "load_log (cur a i) 0 [default_log_entry] (alog a i) = Inr (default_log_entry # alog a i)"
    using wflog_terms [OF ia ainv_nodeD(1) [OF ia]] ainv_nodeD(2) [OF ia]
    by (auto simp: load_log_spec)
  then show ?thesis
    using v m ld ps i mem
    by (auto simp: new_raft_node_def Let_def node_ok_defs persistent_part_def commit_ok_def
        split: option.splits)
qed

lemma restart_ok:
  assumes mem: "valid_membership ms cfgs" and st: "stored a i st" and ia: "inv a" and i: "i \<in> set ms"
    and ld: "storage_load E st' = storage_load E st"
  shows "\<exists>n. new_raft_node E (cfgs i) (Some st') = Inr n \<and> ok a i n \<and> storage n = st' \<and> outbox n = []"
  using new_node_ok [OF mem ia i] st ld by (auto simp: stored_ok_def)

section \<open>The cluster\<close>

lemma sim_outcome:
  assumes "sim T L P a i (Ret x n)"
  obtains b where "asteps ms i a b" "ok b i n" "abounded T L b" "P b x n"
  using assms by auto

lemma with_node_ok:
  assumes c: "cluster_ok E ms cfgs a s" and ia: "inv a" and st: "asteps ms i a b"
    and ok: "ok b i n" and ex: "\<forall>m \<in> extra. msg_ok b m"
  shows "cluster_ok E ms cfgs b (with_node s i n extra)"
proof -
  note ext = asteps_aext [OF st ia]
  have "ok b j (nodes s j)" if "j \<in> set ms" "j \<noteq> i" for j
    using c that by (intro node_ok_same [OF ia ext asteps_frame [OF st ia that(2)]])
      (simp add: cluster_ok_def)
  then show ?thesis
    using c ok ex msg_ok_mono [OF ia ext] delivered_ok_mono [OF ia ext]
    by (auto simp: cluster_ok_def with_node_def node_ok_def out_ok_def)
qed

text \<open>\<open>related\<close>: the cluster after at most \<open>k\<close> steps and a state of the abstract protocol.\<close>

definition related :: "nat \<Rightarrow> raft_abs \<Rightarrow> ('st, 'g) cluster \<Rightarrow> bool" where
  "related k a s \<longleftrightarrow> inv a \<and> cluster_ok E ms cfgs a s \<and> abounded k k a"

lemma related_sim:
  assumes rel: "related k a s" and sim: "sim (Suc k) (Suc k) P a i (Ret x n)"
    and ex: "\<And>b. P b x n \<Longrightarrow> \<forall>m \<in> extra. msg_ok b m"
  shows "\<exists>b. related (Suc k) b (with_node s i n extra) \<and> aext a b"
proof -
  obtain b where r: "asteps ms i a b" "ok b i n" "abounded (Suc k) (Suc k) b" "P b x n"
    using sim by (rule sim_outcome)
  then show ?thesis
    using with_node_ok [OF _ _ r(1,2) ex [OF r(4)]] rel asteps_ainv [OF r(1)] asteps_aext [OF r(1)]
    by (auto simp: related_def)
qed

lemma related_stay:
  assumes rel: "related k a s" and ok: "ok a i n"
  shows "related (Suc k) a (with_node s i n {}) \<and> aext a a"
  using rel with_node_ok [OF _ _ rtranclp.rtrancl_refl ok, of s "{}"]
    abounded_mono [of k k a "Suc k" "Suc k"]
  by (auto simp: related_def)

text \<open>The operations of the related states, in one place.\<close>

lemma related_operations:
  assumes rel: "related k a s" and k: "k + 3 < 2 ^ 64" and i: "i \<in> set ms"
  shows "0 \<le> elapsed \<Longrightarrow> sim (Suc k) (Suc k) (\<lambda>_ _ _. True) a i (tick E (nodes s i) elapsed)"
    and "m \<in> sent s \<Longrightarrow> sim (Suc k) (Suc k) (\<lambda>_ _ _. True) a i (step E (nodes s i) m)"
    and "m \<in> sent s \<Longrightarrow> is_request (msg_rpc m) \<Longrightarrow>
      sim (Suc k) (Suc k) (\<lambda>b ans _. \<forall>r. ans = Some r \<longrightarrow> msg_ok b r) a i (handle_request E (nodes s i) m)"
    and "sim (Suc k) (Suc k) (\<lambda>_ _ _. True) a i (propose E (nodes s i) command)"
proof -
  have ia: "inv a" and ab: "abounded k k a" and sent: "\<And>m. m \<in> sent s \<Longrightarrow> msg_ok a m"
    and ok: "ok a i (nodes s i)"
    using rel i by (auto simp: related_def cluster_ok_def)
  have ab': "abounded (Suc k) k a" using ab by (rule abounded_mono) auto
  show "0 \<le> elapsed \<Longrightarrow> sim (Suc k) (Suc k) (\<lambda>_ _ _. True) a i (tick E (nodes s i) elapsed)"
    using tick_sim [OF ok i ia ab] k by simp
  show "m \<in> sent s \<Longrightarrow> sim (Suc k) (Suc k) (\<lambda>_ _ _. True) a i (step E (nodes s i) m)"
    using step_sim [OF ok i ia ab' k sent] by (simp add: step_def)
  show "m \<in> sent s \<Longrightarrow> is_request (msg_rpc m) \<Longrightarrow>
      sim (Suc k) (Suc k) (\<lambda>b ans _. \<forall>r. ans = Some r \<longrightarrow> msg_ok b r) a i (handle_request E (nodes s i) m)"
    using handle_request_sim [OF ok i ia ab' k sent] by simp
  show "sim (Suc k) (Suc k) (\<lambda>_ _ _. True) a i (propose E (nodes s i) command)"
    by (rule propose_sim [OF ok i ia ab' k])
qed

lemma related_restart:
  assumes rel: "related k a s" and i: "i \<in> set ms"
    and ld: "storage_load E st = storage_load E (storage (nodes s i))"
    and n: "new_raft_node E (cfgs i) (Some st) = Inr n"
  shows "related (Suc k) a (with_node s i n {}) \<and> aext a a"
proof -
  have ok: "ok a i (nodes s i)" and ia: "inv a" using rel i by (auto simp: related_def cluster_ok_def)
  then have "ok a i n"
    using restart_ok [OF _ node_ok_stored [OF ok] ia i ld] n by (auto simp: node_ok_def)
  then show ?thesis by (rule related_stay [OF rel])
qed

lemma failure_stored:
  assumes rel: "related k a s" and k: "k + 3 < 2 ^ 64" and i: "i \<in> set ms" and f: "fails E s i n0"
  shows "\<exists>b. asteps ms i a b \<and> stored b i (storage n0) \<and> abounded (Suc k) (Suc k) b"
proof -
  note sims = related_operations [OF rel k i, unfolded sim_def]
  have "stored a i (storage (nodes s i))" "abounded (Suc k) (Suc k) a"
    using rel i node_ok_stored [of E ms cfgs a i] abounded_mono [of k k a "Suc k" "Suc k"]
    by (simp_all add: related_def cluster_ok_def)
  then have same: ?thesis if "n0 = nodes s i" using that by blast
  consider (tick) e elapsed where "tick E (nodes s i) elapsed = Exc e n0"
    | (step) e m where "m \<in> sent s" "step E (nodes s i) m = Exc e n0"
    | (request) e m where "m \<in> sent s" "handle_request E (nodes s i) m = Exc e n0"
    | (propose) e command where "propose E (nodes s i) command = Exc e n0"
    using f unfolding fails_def by blast
  then show ?thesis
  proof cases
    case tick
    then show ?thesis using same sims(1) [of elapsed] by (cases "elapsed < 0") (auto simp: tick_def)
  next
    case step
    then show ?thesis using sims(2) [of m] by simp
  next
    case request
    then show ?thesis
      using same sims(3) [of m] by (cases "is_request (msg_rpc m)") (auto simp: handle_request_def)
  next
    case propose
    then show ?thesis using sims(4) [of command] by simp
  qed
qed

end

text \<open>The relation does not depend on the saves, so the failure may be one of any storage.\<close>

context raft_cluster
begin

lemma related_any_save:
  assumes "raft_storage (storage_load E) save'"
  shows "raft_cluster.related (E\<lparr>storage_save := save'\<rparr>) ms cfgs k a s \<longleftrightarrow> related k a s"
proof -
  have C: "raft_cluster (E\<lparr>storage_save := save'\<rparr>)" using assms by (intro raft_cluster.intro) simp
  show ?thesis
    by (simp add: raft_cluster.related_def [OF C] related_def cluster_ok_def node_ok_def core_ok_def)
qed

lemma related_crash:
  assumes rel: "related k a s" and k: "k + 3 < 2 ^ 64" and i: "i \<in> set ms"
    and S: "raft_storage (storage_load E) save'" and f: "fails (E\<lparr>storage_save := save'\<rparr>) s i n0"
    and ld: "storage_load E st = storage_load E (storage n0)"
    and n: "new_raft_node E (cfgs i) (Some st) = Inr n"
  shows "\<exists>b. related (Suc k) b (with_node s i n {}) \<and> aext a b"
proof -
  have C: "raft_cluster (E\<lparr>storage_save := save'\<rparr>)" using S by (intro raft_cluster.intro) simp
  obtain b where b: "asteps ms i a b" "stored b i (storage n0)" "abounded (Suc k) (Suc k) b"
    using raft_cluster.failure_stored [OF C iffD2 [OF related_any_save [OF S] rel] k i f]
    by (auto simp: stored_ok_def)
  have ia: "inv a" and mem: "valid_membership ms cfgs"
    using rel i by (auto simp: related_def cluster_ok_def node_ok_def)
  have "ok b i n" using restart_ok [OF mem b(2) asteps_ainv [OF b(1) ia] i ld] n by auto
  then show ?thesis
    using with_node_ok [OF _ ia b(1), of s n "{}"] rel b asteps_ainv [OF b(1)] asteps_aext [OF b(1)]
    by (auto simp: related_def)
qed

lemma related_step:
  assumes rel: "related k a s" and st: "cluster_step E ms cfgs s s'" and k: "k + 3 < 2 ^ 64"
  shows "\<exists>b. related (Suc k) b s' \<and> aext a b"
proof -
  have ok: "\<And>i. i \<in> set ms \<Longrightarrow> ok a i (nodes s i)"
    using rel by (auto simp: related_def cluster_ok_def)
  note sims = related_operations [OF rel k]
  from st show ?thesis
  proof cases
    case (tick i elapsed u n)
    have "0 \<le> elapsed" using tick(3) by (simp add: tick_def split: if_splits)
    then show ?thesis
      using related_sim [OF rel, of "\<lambda>_ _ _. True" i u n "{}"] sims(1) [OF tick(2), of elapsed] tick
      by simp
  next
    case (deliver i m b n)
    then show ?thesis
      using related_sim [OF rel, of "\<lambda>_ _ _. True" i b n "{}"] sims(2) [OF deliver(2), of m] by simp
  next
    case (request i m answer n)
    have "is_request (msg_rpc m)" using request(4) by (simp add: handle_request_def split: if_splits)
    then have "sim (Suc k) (Suc k) (\<lambda>b ans _. \<forall>r. ans = Some r \<longrightarrow> msg_ok b r) a i (Ret answer n)"
      using sims(3) [OF request(2,3)] unfolding request(4) by blast
    then show ?thesis unfolding request(1) by (rule related_sim [OF rel]) auto
  next
    case (propose i command x n)
    then show ?thesis
      using related_sim [OF rel, of "\<lambda>_ _ _. True" i x n "{}"] sims(4) [OF propose(2), of command] by simp
  next
    case (take_messages i)
    have "ok a i (snd (RaftNode.take_messages (nodes s i)))"
      using ok [OF take_messages(2)]
      by (auto simp: take_messages_def node_ok_defs peer_ok_def persistent_part_def split: option.splits)
    then show ?thesis using related_stay [OF rel] take_messages(1) by blast
  next
    case (take_committed i es n)
    have n: "n = (nodes s i)\<lparr>committed_entries := []\<rparr>" "es = committed_entries (nodes s i)"
      using take_committed(3) by (simp_all add: take_committed_entries_def)
    have es: "\<forall>ce \<in> set es. delivered_ok a ce"
      using ok [OF take_committed(2)] n(2) by (simp add: node_ok_def applied_ok_def)
    have "ok a i n"
      using ok [OF take_committed(2)] unfolding n(1)
      by (auto simp: node_ok_defs peer_ok_def persistent_part_def split: option.splits)
    then have "related (Suc k) a (with_node s i n {})" using related_stay [OF rel] by blast
    then show ?thesis
      using es take_committed(1)
      by (intro exI [of _ a] conjI aext_refl) (auto simp: related_def cluster_ok_def with_node_def)
  next
    case (restart i st n)
    then show ?thesis using related_restart [OF rel] by blast
  next
    case (crash i save' n0 st n)
    then show ?thesis using related_crash [OF rel k] by blast
  qed
qed

lemma related_init:
  assumes "initial_cluster E ms cfgs s"
  shows "related 0 init_abs s"
proof -
  have mem: "valid_membership ms cfgs" using assms by (simp add: initial_cluster_def)
  have "ok init_abs i (nodes s i)" if i: "i \<in> set ms" for i
  proof -
    obtain st where "storage_load E st = Inr default_persistent_state"
      "new_raft_node E (cfgs i) (Some st) = Inr (nodes s i)"
      using assms i by (auto simp: initial_cluster_def)
    then show ?thesis
      using new_node_ok [OF mem ainv_init i, of st default_persistent_state]
      by (simp add: init_abs_def default_persistent_state_def)
  qed
  then show ?thesis
    using assms ainv_init
    by (auto simp: related_def cluster_ok_def initial_cluster_def abounded_def init_abs_def)
qed

lemma reachable_related:
  "reachable_in E ms cfgs k s \<Longrightarrow> k + 3 < 2 ^ 64 \<Longrightarrow> \<exists>a. related k a s"
proof (induction rule: reachable_in.induct)
  case (start s)
  then show ?case using related_init by blast
next
  case (more k s s')
  then obtain a where "related k a s" by auto
  then show ?case using related_step [OF _ more(2)] more(4) by fastforce
qed

lemma related_steps:
  "related k a s \<Longrightarrow> (cluster_step E ms cfgs ^^ d) s s' \<Longrightarrow> k + d + 3 < 2 ^ 64 \<Longrightarrow>
   \<exists>b. related (k + d) b s' \<and> aext a b"
proof (induction d arbitrary: s')
  case (Suc d)
  then obtain s1 where s1: "(cluster_step E ms cfgs ^^ d) s s1" "cluster_step E ms cfgs s1 s'"
    by auto
  then obtain b where b: "related (k + d) b s1" "aext a b" using Suc by auto
  then obtain c where "related (Suc (k + d)) c s'" "aext b c"
    using related_step [OF b(1) s1(2)] Suc.prems(3) by auto
  then show ?case using aext_trans [OF b(2)] by auto
qed auto

end

end
