(* ===== verification/RaftScenario.thy ===== *)
theory RaftScenario
  imports RaftCluster "HOL-Library.AList"
begin

text \<open>
  An interpreter for schedules of a cluster: it executes the operations of the nodes themselves and
  is proved to take steps of the cluster. A concrete schedule of a three-member cluster, from the
  first election timeout to the delivery of a command on a majority, shows that the states the
  guarantees speak about are reached.
\<close>

section \<open>Schedules\<close>

datatype event =
    Tick NodeId millis
  | Deliver NodeId NodeId nat
  | Propose NodeId bytes
  | TakeCommitted NodeId
  | Restart NodeId

text \<open>
  The nodes by identity, and what was delivered. \<open>Deliver i j k\<close> hands the message at position \<open>k\<close> of
  the outbox of \<open>j\<close> to \<open>i\<close>.
\<close>

type_synonym ('st, 'g) run_state = "(NodeId \<times> ('st, 'g) RaftNode) list \<times> (NodeId \<times> CommittedEntry) list"

fun returned :: "NodeId \<Rightarrow> ('a, 's) outcome \<Rightarrow> (NodeId \<times> 's \<times> CommittedEntry list) option" where
  "returned i (Ret a s) = Some (i, s, [])"
| "returned i (Exc e s) = None"

lemma returned_Some: "returned i r = Some x \<longleftrightarrow> (\<exists>a s. r = Ret a s \<and> x = (i, s, []))"
  by (cases r) auto

fun run_node ::
    "('st, 'g) RaftEnv \<Rightarrow> (NodeId \<Rightarrow> RaftConfig) \<Rightarrow> (NodeId \<times> ('st, 'g) RaftNode) list \<Rightarrow> event
     \<Rightarrow> (NodeId \<times> ('st, 'g) RaftNode \<times> CommittedEntry list) option" where
  "run_node E cfgs ns (Tick i d) =
     Option.bind (map_of ns i) (\<lambda>n. returned i (tick E n d))"
| "run_node E cfgs ns (Deliver i j k) =
     (case (map_of ns i, map_of ns j) of
        (Some n, Some n') \<Rightarrow>
          if k < length (outbox n') then returned i (step E n (outbox n' ! k)) else None
      | _ \<Rightarrow> None)"
| "run_node E cfgs ns (Propose i c) =
     Option.bind (map_of ns i) (\<lambda>n. returned i (propose E n c))"
| "run_node E cfgs ns (TakeCommitted i) =
     map_option (\<lambda>n. (i, snd (take_committed_entries n), fst (take_committed_entries n))) (map_of ns i)"
| "run_node E cfgs ns (Restart i) =
     (case map_of ns i of
        None \<Rightarrow> None
      | Some n \<Rightarrow>
          (case new_raft_node E (cfgs i) (Some (storage n)) of
             Inl e \<Rightarrow> None
           | Inr n' \<Rightarrow> Some (i, n', [])))"

fun run_schedule ::
    "('st, 'g) RaftEnv \<Rightarrow> (NodeId \<Rightarrow> RaftConfig) \<Rightarrow> ('st, 'g) run_state \<Rightarrow> event list
     \<Rightarrow> ('st, 'g) run_state option" where
  "run_schedule E cfgs (ns, ds) [] = Some (ns, ds)"
| "run_schedule E cfgs (ns, ds) (e # es) =
     (case run_node E cfgs ns e of
        None \<Rightarrow> None
      | Some (i, n, out) \<Rightarrow> run_schedule E cfgs (AList.update i n ns, ds @ map (Pair i) out) es)"

definition tracks :: "NodeId list \<Rightarrow> ('st, 'g) run_state \<Rightarrow> ('st, 'g) cluster \<Rightarrow> bool" where
  "tracks ms r s \<longleftrightarrow>
     (\<forall>i n. map_of (fst r) i = Some n \<longrightarrow>
        i \<in> set ms \<and> nodes s i = n \<and> set (outbox n) \<subseteq> sent s) \<and>
     delivered s = set (snd r)"

lemma tracksD:
  "tracks ms r s \<Longrightarrow> map_of (fst r) i = Some n \<Longrightarrow>
   i \<in> set ms \<and> nodes s i = n \<and> set (outbox n) \<subseteq> sent s"
  by (auto simp: tracks_def)

lemma tracks_with_node:
  "tracks ms (ns, ds) s \<Longrightarrow> i \<in> set ms \<Longrightarrow>
   tracks ms (AList.update i n ns, ds @ map (Pair i) out)
     ((with_node s i n {})\<lparr>delivered := delivered s \<union> Pair i ` set out\<rparr>)"
  unfolding tracks_def with_node_def
  by (auto simp: update_conv' split: if_splits)

lemma run_node_step:
  assumes rel: "tracks ms (ns, ds) s" and st: "run_node E cfgs ns e = Some (i, n, out)"
  shows "i \<in> set ms \<and> cluster_step E ms cfgs s
    ((with_node s i n {})\<lparr>delivered := delivered s \<union> Pair i ` set out\<rparr>)"
proof -
  have eta: "(with_node s i n {})\<lparr>delivered := delivered s\<rparr> = with_node s i n {}" for i n
    by (simp add: with_node_def)
  note D = tracksD [OF rel, simplified]
  show ?thesis
  proof (cases e)
    case (Tick j d)
    then show ?thesis
      using st D cluster_step.tick [of i ms E s d _ n cfgs]
      by (auto simp: eta returned_Some split: bind_splits)
  next
    case (Deliver j j' k)
    then obtain n0 n' where "map_of ns j = Some n0" "map_of ns j' = Some n'" "k < length (outbox n')"
      "i = j" "\<exists>b. step E n0 (outbox n' ! k) = Ret b n" "out = []"
      using st by (auto simp: returned_Some split: option.splits if_splits)
    then show ?thesis
      using D [of j n0] D [of j' n'] cluster_step.deliver [of j ms "outbox n' ! k" s E _ n cfgs]
      by (auto simp: eta subset_iff)
  next
    case (Propose j c)
    then show ?thesis
      using st D cluster_step.propose [of i ms E s c _ n cfgs]
      by (auto simp: eta returned_Some split: bind_splits)
  next
    case (TakeCommitted j)
    then show ?thesis
      using st D cluster_step.take_committed [of i ms s out n E cfgs] by auto
  next
    case (Restart j)
    then show ?thesis
      using st D cluster_step.restart [of i ms E _ s cfgs n] by (auto simp: eta split: option.splits sum.splits)
  qed
qed

lemma run_schedule_reachable:
  assumes "tracks ms r s" "reachable_in E ms cfgs k s" "run_schedule E cfgs r es = Some r'"
  shows "\<exists>s'. reachable_in E ms cfgs (k + length es) s' \<and> (cluster_step E ms cfgs ^^ length es) s s' \<and>
    tracks ms r' s'"
  using assms
proof (induction E cfgs r es arbitrary: k s rule: run_schedule.induct)
  case (1 E cfgs ns ds)
  then show ?case by auto
next
  case (2 E cfgs ns ds e es)
  obtain i n out where e: "run_node E cfgs ns e = Some (i, n, out)"
    using 2(4) by (auto split: option.splits)
  let ?s1 = "(with_node s i n {})\<lparr>delivered := delivered s \<union> Pair i ` set out\<rparr>"
  have st: "i \<in> set ms" "cluster_step E ms cfgs s ?s1" using run_node_step [OF 2(2) e] by auto
  have rel: "tracks ms (AList.update i n ns, ds @ map (Pair i) out) ?s1"
    by (rule tracks_with_node [OF 2(2) st(1)])
  have rest: "run_schedule E cfgs (AList.update i n ns, ds @ map (Pair i) out) es = Some r'"
    using 2(4) e by simp
  obtain s' where s': "reachable_in E ms cfgs (Suc k + length es) s'"
    "(cluster_step E ms cfgs ^^ length es) ?s1 s'" "tracks ms r' s'"
    using 2(1) [OF e refl refl rel reachable_in.more [OF 2(3) st(2)] rest] by auto
  have "(cluster_step E ms cfgs ^^ Suc (length es)) s s'"
    by (rule relpowp_Suc_I2 [OF st(2) s'(2)])
  then show ?case using s' by auto
qed

lemma run_schedule_append:
  "run_schedule E cfgs r (es @ es') = Option.bind (run_schedule E cfgs r es) (\<lambda>r'. run_schedule E cfgs r' es')"
  by (induction E cfgs r es rule: run_schedule.induct) (auto split: option.splits)

section \<open>A three-member cluster\<close>

definition demo_config :: "NodeId \<Rightarrow> RaftConfig" where
  "demo_config i =
     \<lparr> cfg_node_id = i, cfg_peers = removeAll i [1, 2, 3], cfg_election_timeout_min = 150,
       cfg_election_timeout_max = 300, cfg_heartbeat_interval = 50, cfg_random_seed = 1 \<rparr>"

definition demo_env :: "(PersistentState, u64) RaftEnv" where
  "demo_env = in_memory_env (\<lambda>s. s) (\<lambda>lo hi g. (lo, g))"

definition demo_node :: "NodeId \<Rightarrow> (PersistentState, u64) RaftNode" where
  "demo_node i = projr (new_raft_node demo_env (demo_config i) (Some default_persistent_state))"

definition demo_start :: "(PersistentState, u64) cluster" where
  "demo_start = \<lparr> nodes = demo_node, sent = {}, delivered = {} \<rparr>"

definition demo_nodes :: "(NodeId \<times> (PersistentState, u64) RaftNode) list" where
  "demo_nodes = map (\<lambda>i. (i, demo_node i)) [1, 2, 3]"

text \<open>
  Node 1 times out and is elected by node 2, appends a command and replicates it to node 2, whose
  answer commits it; then node 2 learns of the commit and both nodes deliver the command.
\<close>

definition demo_commit :: "event list" where
  "demo_commit =
     [Tick 1 150, Deliver 2 1 0, Deliver 1 2 0, Propose 1 ''x'', Deliver 2 1 4, Deliver 1 2 1]"

definition demo_deliver :: "event list" where
  "demo_deliver = [Deliver 2 1 6, TakeCommitted 1, TakeCommitted 2]"

definition demo_view ::
    "(PersistentState, u64) run_state \<Rightarrow>
     (NodeId \<times> NodeState \<times> Term \<times> LogIndex \<times> LogEntry list) list \<times> (NodeId \<times> CommittedEntry) list" where
  "demo_view = (\<lambda>(ns, ds).
     (map (\<lambda>(i, n). (i, node_state n, current_term n, commit_index n, rlog n)) ns, ds))"

definition demo_log :: "LogEntry list" where
  "demo_log = [default_log_entry, LogEntry 1 [] True, LogEntry 1 ''x'' False]"

lemma demo_storage: "raft_storage (storage_load demo_env) (storage_save demo_env)"
  using in_memory.raft_storage_axioms by (simp add: demo_env_def in_memory_env_def)

lemma demo_membership: "valid_membership [1, 2, 3] demo_config"
  by (auto simp: valid_membership_def demo_config_def validate_config_def)

lemma demo_node_new:
  "i \<in> {1, 2, 3} \<Longrightarrow>
   new_raft_node demo_env (demo_config i) (Some default_persistent_state) = Inr (demo_node i)"
  using demo_membership
  by (auto simp: demo_node_def new_raft_node_def valid_membership_def demo_env_def in_memory_env_def
      InMemoryRaftStorage_load_def default_persistent_state_def)

lemma demo_initial: "initial_cluster demo_env [1, 2, 3] demo_config demo_start"
  using demo_membership demo_node_new
  by (auto simp: initial_cluster_def demo_start_def demo_env_def in_memory_env_def
      InMemoryRaftStorage_load_def)

lemma demo_rel: "tracks [1, 2, 3] (demo_nodes, []) demo_start"
proof -
  have "outbox (demo_node i) = []" if "i \<in> {1, 2, 3}" for i
    using new_raft_node_fields(1) [OF demo_node_new [OF that]] .
  then show ?thesis
    by (auto simp: tracks_def demo_nodes_def demo_start_def split: if_splits)
qed

lemma demo_committed:
  "map_option demo_view (run_schedule demo_env demo_config (demo_nodes, []) demo_commit) =
   Some ([(1, Leader, 1, 2, demo_log), (2, Follower, 1, 0, demo_log),
          (3, Follower, 0, 0, [default_log_entry])], [])"
  by code_simp

lemma demo_delivered:
  "map_option demo_view
     (run_schedule demo_env demo_config (demo_nodes, []) (demo_commit @ demo_deliver)) =
   Some ([(1, Leader, 1, 2, demo_log), (2, Follower, 1, 2, demo_log),
          (3, Follower, 0, 0, [default_log_entry])],
         [(1, CommittedEntry 2 1 ''x''), (2, CommittedEntry 2 1 ''x'')])"
  by code_simp

lemma demo_messages:
  "map_option (\<lambda>(ns, ds). map (\<lambda>(i, n). (i, take 4 (outbox n))) ns)
     (run_schedule demo_env demo_config (demo_nodes, []) demo_commit) =
   Some [(1, [Message 1 2 (RpcRequestVoteRequest (RequestVoteRequest 1 1 0 0)),
              Message 1 3 (RpcRequestVoteRequest (RequestVoteRequest 1 1 0 0)),
              Message 1 2 (RpcAppendEntriesRequest
                (AppendEntriesRequest 1 1 0 0 [LogEntry 1 [] True] 0 1)),
              Message 1 3 (RpcAppendEntriesRequest
                (AppendEntriesRequest 1 1 0 0 [LogEntry 1 [] True] 0 1))]),
         (2, [Message 2 1 (RpcRequestVoteResponse (RequestVoteResponse 1 True)),
              Message 2 1 (RpcAppendEntriesResponse
                (AppendEntriesResponse 1 True 2 3 None 2))]),
         (3, [])]"
  by code_simp

text \<open>The two clusters reached, and what they look like.\<close>

lemma tracks_view:
  assumes "tracks ms r s" "demo_view r = (vs, ds)" "distinct (map fst vs)"
    and "(i, st, t, c, l) \<in> set vs"
  shows "node_state (nodes s i) = st \<and> current_term (nodes s i) = t \<and> commit_index (nodes s i) = c \<and>
    rlog (nodes s i) = l \<and> delivered s = set ds"
proof -
  obtain ns where r: "r = (ns, ds)" and vs: "vs = map (\<lambda>(i, n). (i, node_state n, current_term n, commit_index n, rlog n)) ns"
    using assms(2) by (cases r) (auto simp: demo_view_def)
  obtain n where n: "(i, n) \<in> set ns" "node_state n = st" "current_term n = t" "commit_index n = c" "rlog n = l"
    using assms(4) vs by auto
  have "distinct (map fst ns)" using assms(3) vs by (simp add: comp_def case_prod_beta)
  then have "map_of ns i = Some n" using n(1) by simp
  then show ?thesis using assms(1) r n by (auto simp: tracks_def)
qed

lemma demo_reached:
  "\<exists>s s'. reachable_in demo_env [1, 2, 3] demo_config 6 s \<and>
     (cluster_step demo_env [1, 2, 3] demo_config ^^ 3) s s' \<and>
     reachable_in demo_env [1, 2, 3] demo_config 9 s' \<and>
     node_state (nodes s 1) = Leader \<and> current_term (nodes s 1) = 1 \<and>
     commit_index (nodes s 1) = 2 \<and> rlog (nodes s 1) = demo_log \<and>
     node_state (nodes s' 1) = Leader \<and> current_term (nodes s' 1) = 1 \<and>
     current_term (nodes s' 2) = 1 \<and> commit_index (nodes s' 2) = 2 \<and>
     rlog (nodes s' 1) = demo_log \<and> rlog (nodes s' 2) = demo_log \<and>
     delivered s' = {(1, CommittedEntry 2 1 ''x''), (2, CommittedEntry 2 1 ''x'')}"
proof -
  obtain r where r: "run_schedule demo_env demo_config (demo_nodes, []) demo_commit = Some r"
    "demo_view r = ([(1, Leader, 1, 2, demo_log), (2, Follower, 1, 0, demo_log),
          (3, Follower, 0, 0, [default_log_entry])], [])"
    using demo_committed by auto
  obtain r' where r': "run_schedule demo_env demo_config r demo_deliver = Some r'"
    "demo_view r' = ([(1, Leader, 1, 2, demo_log), (2, Follower, 1, 2, demo_log),
          (3, Follower, 0, 0, [default_log_entry])],
         [(1, CommittedEntry 2 1 ''x''), (2, CommittedEntry 2 1 ''x'')])"
    using demo_delivered r(1) by (auto simp: run_schedule_append)
  have len: "length demo_commit = 6" "length demo_deliver = 3"
    by (simp_all add: demo_commit_def demo_deliver_def)
  obtain s where s: "reachable_in demo_env [1, 2, 3] demo_config 6 s" "tracks [1, 2, 3] r s"
    using run_schedule_reachable [OF demo_rel reachable_in.start [OF demo_initial] r(1)] len by auto
  obtain s' where s': "reachable_in demo_env [1, 2, 3] demo_config 9 s'" "tracks [1, 2, 3] r' s'"
    "(cluster_step demo_env [1, 2, 3] demo_config ^^ 3) s s'"
    using run_schedule_reachable [OF s(2,1) r'(1)] len by auto
  show ?thesis
    using s s' tracks_view [OF s(2) r(2), of 1] tracks_view [OF s'(2) r'(2), of 1]
      tracks_view [OF s'(2) r'(2), of 2]
    by (intro exI [of _ s] exI [of _ s']) simp
qed

lemma demo_sent:
  "\<exists>s. reachable_in demo_env [1, 2, 3] demo_config 6 s \<and>
     Message 1 2 (RpcRequestVoteRequest (RequestVoteRequest 1 1 0 0)) \<in> sent s \<and>
     Message 2 1 (RpcRequestVoteResponse (RequestVoteResponse 1 True)) \<in> sent s \<and>
     Message 1 2 (RpcAppendEntriesRequest
       (AppendEntriesRequest 1 1 0 0 [LogEntry 1 [] True] 0 1)) \<in> sent s \<and>
     Message 1 3 (RpcAppendEntriesRequest
       (AppendEntriesRequest 1 1 0 0 [LogEntry 1 [] True] 0 1)) \<in> sent s"
proof -
  obtain ns ds where r: "run_schedule demo_env demo_config (demo_nodes, []) demo_commit = Some (ns, ds)"
    using demo_messages by auto
  then obtain n1 n2 n3 where ns: "ns = [(1, n1), (2, n2), (3, n3)]"
    "take 4 (outbox n1) =
       [Message 1 2 (RpcRequestVoteRequest (RequestVoteRequest 1 1 0 0)),
        Message 1 3 (RpcRequestVoteRequest (RequestVoteRequest 1 1 0 0)),
        Message 1 2 (RpcAppendEntriesRequest
          (AppendEntriesRequest 1 1 0 0 [LogEntry 1 [] True] 0 1)),
        Message 1 3 (RpcAppendEntriesRequest
          (AppendEntriesRequest 1 1 0 0 [LogEntry 1 [] True] 0 1))]"
    "take 4 (outbox n2) =
       [Message 2 1 (RpcRequestVoteResponse (RequestVoteResponse 1 True)),
        Message 2 1 (RpcAppendEntriesResponse (AppendEntriesResponse 1 True 2 3 None 2))]"
    using demo_messages by auto
  have len: "length demo_commit = 6" by (simp add: demo_commit_def)
  obtain s where s: "reachable_in demo_env [1, 2, 3] demo_config 6 s" "tracks [1, 2, 3] (ns, ds) s"
    using run_schedule_reachable [OF demo_rel reachable_in.start [OF demo_initial] r] len by auto
  have "set (take 4 (outbox n1)) \<subseteq> sent s" "set (take 4 (outbox n2)) \<subseteq> sent s"
    using tracksD [OF s(2), of 1 n1] tracksD [OF s(2), of 2 n2] ns(1)
    by (auto dest: in_set_takeD)
  then show ?thesis
    using s(1) unfolding ns(2,3) by auto
qed

end
