(* ===== verification/RaftSafety.thy ===== *)
theory RaftSafety
  imports RaftClusterInv RaftScenario
begin

text \<open>
  The guarantees of the consensus core, for every cluster of nodes of \<open>src/raft/raft_node.cpp\<close> over a
  storage that keeps what it saved: any number of members, any schedule of ticks, deliveries,
  proposals, failing saves and restarts, any loss, duplication and reordering of messages. The bound on the number
  of steps is the width of the term and of the index: \<open>k\<close> steps raise neither above \<open>k\<close>, so for
  \<open>k + 3 < 2 ^ 64\<close> no counter wraps.
\<close>

section \<open>Consequences of the refinement\<close>

context raft_cluster
begin

lemma related_node:
  assumes "related k a s" "i \<in> set ms"
  shows "rlog (nodes s i) = default_log_entry # alog a i" "current_term (nodes s i) = cur a i"
    "commit_ok a (cur a i) (alog a i) (unat (commit_index (nodes s i)))"
    "node_state (nodes s i) = Leader \<Longrightarrow> lead a (cur a i) = Some i \<and> llog a (cur a i) = alog a i"
  using assms by (auto simp: related_def cluster_ok_def node_ok_defs)

lemma leader_unique:
  assumes "reachable_in E ms cfgs k s" "k + 3 < 2 ^ 64" "i \<in> set ms" "j \<in> set ms"
    and "node_state (nodes s i) = Leader" "node_state (nodes s j) = Leader"
    and "current_term (nodes s i) = current_term (nodes s j)"
  shows "i = j"
proof -
  obtain a where a: "related k a s" using reachable_related assms by blast
  have l: "lead a (cur a i) = Some i" "lead a (cur a j) = Some j"
    using related_node(4) [OF a assms(3,5)] related_node(4) [OF a assms(4,6)] by blast+
  have "cur a i = cur a j"
    using assms(7) related_node(2) [OF a assms(3)] related_node(2) [OF a assms(4)] by simp
  then show ?thesis using l by (metis option.inject)
qed

lemma leader_messages:
  assumes "reachable_in E ms cfgs k s" "k + 3 < 2 ^ 64"
    and "m \<in> sent s" "msg_rpc m = RpcAppendEntriesRequest q"
    and "m' \<in> sent s" "msg_rpc m' = RpcAppendEntriesRequest q'" "aeq_term q = aeq_term q'"
  shows "aeq_leader_id q = aeq_leader_id q'"
proof -
  obtain a where "related k a s" using reachable_related assms by blast
  then have "msg_ok a m" "msg_ok a m'" using assms by (auto simp: related_def cluster_ok_def)
  then show ?thesis using assms by (auto simp: msg_ok_def)
qed

lemma vote_unique:
  assumes "reachable_in E ms cfgs k s" "k + 3 < 2 ^ 64"
    and "m \<in> sent s" "msg_rpc m = RpcRequestVoteResponse r" "rvr_vote_granted r"
    and "m' \<in> sent s" "msg_rpc m' = RpcRequestVoteResponse r'" "rvr_vote_granted r'"
    and "msg_from m = msg_from m'" "rvr_term r = rvr_term r'"
  shows "msg_to m = msg_to m'"
proof -
  obtain a where a: "related k a s" using reachable_related assms by blast
  then have "msg_ok a m" "msg_ok a m'" using assms by (auto simp: related_def cluster_ok_def)
  then show ?thesis
    using assms a ainv_votes_unique [of "majorities ms" a] by (fastforce simp: msg_ok_def related_def)
qed

lemma logs_match:
  assumes "reachable_in E ms cfgs k s" "k + 3 < 2 ^ 64" "i \<in> set ms" "j \<in> set ms"
    and "x < length (rlog (nodes s i))" "x < length (rlog (nodes s j))"
    and "le_term (rlog (nodes s i) ! x) = le_term (rlog (nodes s j) ! x)"
  shows "take (Suc x) (rlog (nodes s i)) = take (Suc x) (rlog (nodes s j))"
proof -
  obtain a where a: "related k a s" using reachable_related assms by blast
  have w: "wflog a (alog a v)" for v using a ainv_nodeD(1) by (auto simp: related_def)
  show ?thesis
    using related_node [OF a assms(3)] related_node [OF a assms(4)] assms(5-)
      wflog_matching [OF w [of i] w [of j], of "x - 1"]
    by (cases x) auto
qed

lemma commit_ok_agree:
  assumes ia: "inv a" and "commit_ok a t l c" "commit_ok a t' l' c'" "x < c" "x < c'"
  shows "l ! x = l' ! x"
proof -
  obtain u m where u: "(u, m) \<in> committed a" "c \<le> m" "take c l = take c (llog a u)"
    using assms by (auto simp: commit_ok_def)
  obtain u' m' where u': "(u', m') \<in> committed a" "c' \<le> m'" "take c' l' = take c' (llog a u')"
    using assms by (auto simp: commit_ok_def)
  have "l ! x = llog a u ! x" "l' ! x = llog a u' ! x"
    using u(3) u'(3) assms(4,5) by (metis nth_take)+
  then show ?thesis
    using maj.committed_agree [OF ia u(1) u'(1), of x] u(2) u'(2) assms(4,5) by simp
qed

lemma commits_agree:
  assumes r: "reachable_in E ms cfgs k s" and st: "(cluster_step E ms cfgs ^^ d) s s'"
    and k: "k + d + 3 < 2 ^ 64" and i: "i \<in> set ms" and j: "j \<in> set ms"
    and x: "x \<le> unat (commit_index (nodes s i))" "x \<le> unat (commit_index (nodes s' j))"
  shows "x < length (rlog (nodes s i)) \<and> x < length (rlog (nodes s' j)) \<and>
    rlog (nodes s i) ! x = rlog (nodes s' j) ! x"
proof -
  obtain a where a: "related k a s" using reachable_related [OF r] k by auto
  obtain b where b: "related (k + d) b s'" "aext a b" using related_steps [OF a st k] by blast
  have ia: "inv a" "inv b" using a b by (auto simp: related_def)
  note A = related_node [OF a i] and B = related_node [OF b(1) j]
  have "commit_ok b (cur a i) (alog a i) (unat (commit_index (nodes s i)))"
    using A(3) by (intro commit_ok_mono [OF ia(1) b(2) A(3)]) (auto simp: commit_ok_def)
  then have "x = 0 \<or> alog a i ! (x - 1) = alog b j ! (x - 1)"
    using commit_ok_agree [OF ia(2) _ B(3), of _ _ _ "x - 1"] x by fastforce
  then show ?thesis
    using A B x by (cases x) (auto simp: commit_ok_def)
qed

lemma leader_has_commits:
  assumes r: "reachable_in E ms cfgs k s" and k: "k + 3 < 2 ^ 64" and i: "i \<in> set ms" and j: "j \<in> set ms"
    and ld: "node_state (nodes s i) = Leader" and t: "current_term (nodes s j) \<le> current_term (nodes s i)"
  shows "take (Suc (unat (commit_index (nodes s j)))) (rlog (nodes s j)) =
         take (Suc (unat (commit_index (nodes s j)))) (rlog (nodes s i))"
proof -
  obtain a where a: "related k a s" using reachable_related [OF r k] by blast
  have ia: "inv a" using a by (simp add: related_def)
  note A = related_node [OF a i] and B = related_node [OF a j]
  let ?c = "unat (commit_index (nodes s j))"
  have "take ?c (alog a j) = take ?c (alog a i)"
  proof (cases "?c = 0")
    case False
    then obtain u m where u: "(u, m) \<in> committed a" "u \<le> cur a j" "?c \<le> m"
      "take ?c (alog a j) = take ?c (llog a u)"
      using B(3) by (auto simp: commit_ok_def)
    have le: "u \<le> cur a i" using u(2) t A(2) B(2) by simp
    have "prefix (take m (llog a u)) (alog a i)"
      using maj.committed_llog [OF ia u(1) _ le, of i] A(4) [OF ld] by simp
    then have "take ?c (alog a i) = take ?c (take m (llog a u))"
      using u(3) ainv_committedD [OF ia u(1)] by (intro prefix_take_same) auto
    then show ?thesis using u(3,4) by (simp add: min_absorb1)
  qed simp
  then show ?thesis using A(1) B(1) by simp
qed

lemma deliveries_agree:
  assumes r: "reachable_in E ms cfgs k s" and k: "k + 3 < 2 ^ 64"
    and "(i, e) \<in> delivered s" "(j, e') \<in> delivered s" "ce_index e = ce_index e'"
  shows "e = e'"
proof -
  obtain a where a: "related k a s" using reachable_related [OF r k] by blast
  then have "delivered_ok a e" "delivered_ok a e'" and ia: "inv a"
    using assms by (auto simp: related_def cluster_ok_def)
  then obtain u m u' m' where u: "(u, m) \<in> committed a" "(u', m') \<in> committed a"
    "0 < unat (ce_index e)" "unat (ce_index e) \<le> m" "unat (ce_index e) \<le> m'"
    "llog a u ! (unat (ce_index e) - 1) = LogEntry (ce_term e) (ce_command e) False"
    "llog a u' ! (unat (ce_index e) - 1) = LogEntry (ce_term e') (ce_command e') False"
    using assms(5) unfolding delivered_ok_def by auto
  have "llog a u ! (unat (ce_index e) - 1) = llog a u' ! (unat (ce_index e) - 1)"
    using u(3-5) by (intro maj.committed_agree [OF ia u(1,2)]) auto
  then show ?thesis using u(6,7) assms(5) by (cases e; cases e') simp
qed

lemma only_save_errors:
  assumes r: "reachable_in E ms cfgs k s" and k: "k + 3 < 2 ^ 64" and i: "i \<in> set ms"
  shows "0 \<le> elapsed \<Longrightarrow> post (\<lambda>_ _. True) (\<lambda>e _. save_error e) (tick E (nodes s i) elapsed)"
    "m \<in> sent s \<Longrightarrow> post (\<lambda>_ _. True) (\<lambda>e _. save_error e) (step E (nodes s i) m)"
    "m \<in> sent s \<Longrightarrow> is_request (msg_rpc m) \<Longrightarrow>
      post (\<lambda>_ _. True) (\<lambda>e _. save_error e) (handle_request E (nodes s i) m)"
    "post (\<lambda>_ _. True) (\<lambda>e _. save_error e) (propose E (nodes s i) command)"
proof -
  obtain a where a: "related k a s" using reachable_related [OF r k] by blast
  note sims = related_operations [OF a k i]
  show "0 \<le> elapsed \<Longrightarrow> post (\<lambda>_ _. True) (\<lambda>e _. save_error e) (tick E (nodes s i) elapsed)"
    using sims(1) [of elapsed] unfolding sim_def by (auto elim!: post_mono)
  show "m \<in> sent s \<Longrightarrow> post (\<lambda>_ _. True) (\<lambda>e _. save_error e) (step E (nodes s i) m)"
    using sims(2) [of m] unfolding sim_def by (auto elim!: post_mono)
  show "m \<in> sent s \<Longrightarrow> is_request (msg_rpc m) \<Longrightarrow>
      post (\<lambda>_ _. True) (\<lambda>e _. save_error e) (handle_request E (nodes s i) m)"
    using sims(3) [of m] unfolding sim_def by (auto elim!: post_mono)
  show "post (\<lambda>_ _. True) (\<lambda>e _. save_error e) (propose E (nodes s i) command)"
    using sims(4) [of command] unfolding sim_def by (auto elim!: post_mono)
qed

lemma restart_keeps:
  assumes r: "reachable_in E ms cfgs k s" and k: "k + 3 < 2 ^ 64" and i: "i \<in> set ms"
    and ld: "storage_load E st = storage_load E (storage (nodes s i))"
  shows "\<exists>n. new_raft_node E (cfgs i) (Some st) = Inr n \<and>
    current_term n = current_term (nodes s i) \<and> voted_for n = voted_for (nodes s i) \<and>
    rlog n = rlog (nodes s i)"
proof -
  obtain a where a: "related k a s" using reachable_related [OF r k] by blast
  then have ia: "inv a" and ok: "ok a i (nodes s i)" using i by (auto simp: related_def cluster_ok_def)
  obtain n where n: "new_raft_node E (cfgs i) (Some st) = Inr n" "ok a i n"
    using restart_ok [OF _ node_ok_stored [OF ok] ia i ld] ok by (auto simp: node_ok_def)
  have "voted_for n = voted_for (nodes s i)"
    using n(1) ok ld
    by (auto simp: new_raft_node_def Let_def node_ok_def core_ok_def persistent_part_def
        split: sum.splits option.splits if_splits)
  then show ?thesis using n ok by (auto simp: node_ok_def core_ok_def)
qed

end

text \<open>The storage of \<open>src/raft/raft.cpp\<close> gives a cluster of the locale, for every membership.\<close>

interpretation in_memory_cluster: raft_cluster "in_memory_env seed draw" ms cfgs
  for seed draw ms cfgs
  using in_memory.raft_storage_axioms
  by (intro raft_cluster.intro) (simp add: in_memory_env_def)

section \<open>Guarantees\<close>

text \<open>
  C1: State machine safety. In every reachable cluster, two entries delivered to the application
  with the same index are the same entry: same term and same command, whichever nodes delivered
  them and whenever, across elections and restarts.
\<close>

theorem state_machine_safety:
  assumes "raft_storage (storage_load E) (storage_save E)"
    and "reachable_in E ms cfgs k s" "k + 3 < 2 ^ 64"
    and "(i, e) \<in> delivered s" "(j, e') \<in> delivered s" "ce_index e = ce_index e'"
  shows "e = e'"
  using raft_cluster.deliveries_agree [OF raft_cluster.intro] assms by blast

theorem state_machine_safety_witness:
  "\<exists>s e e'. reachable_in demo_env [1, 2, 3] demo_config 9 s \<and>
     (1, e) \<in> delivered s \<and> (2, e') \<in> delivered s \<and> e = CommittedEntry 2 1 ''x'' \<and> e = e'"
proof -
  obtain s where "reachable_in demo_env [1, 2, 3] demo_config 9 s"
    "(1, CommittedEntry 2 1 ''x'') \<in> delivered s" "(2, CommittedEntry 2 1 ''x'') \<in> delivered s"
    using demo_reached by auto
  then show ?thesis
    using state_machine_safety [OF demo_storage, of "[1, 2, 3]" demo_config 9 s
        1 "CommittedEntry 2 1 ''x''" 2 "CommittedEntry 2 1 ''x''"]
    by auto
qed

text \<open>
  C2: Election safety. In every reachable cluster two nodes that are leaders in the same term are
  the same node.
\<close>

theorem election_safety:
  assumes "raft_storage (storage_load E) (storage_save E)"
    and "reachable_in E ms cfgs k s" "k + 3 < 2 ^ 64" "i \<in> set ms" "j \<in> set ms"
    and "node_state (nodes s i) = Leader" "node_state (nodes s j) = Leader"
    and "current_term (nodes s i) = current_term (nodes s j)"
  shows "i = j"
  using raft_cluster.leader_unique [OF raft_cluster.intro] assms by blast

theorem election_safety_witness:
  "\<exists>s i j. reachable_in demo_env [1, 2, 3] demo_config 9 s \<and> i \<in> {1, 2, 3} \<and> j \<in> {1, 2, 3} \<and>
     node_state (nodes s i) = Leader \<and> node_state (nodes s j) = Leader \<and>
     current_term (nodes s i) = current_term (nodes s j) \<and> i = j"
proof -
  obtain s where "reachable_in demo_env [1, 2, 3] demo_config 9 s" "node_state (nodes s 1) = Leader"
    using demo_reached by auto
  then show ?thesis
    using election_safety [OF demo_storage, of "[1, 2, 3]" demo_config 9 s 1 1]
    by (intro exI [of _ s] exI [of _ 1]) auto
qed

text \<open>
  One leader per term, over the whole history. Two AppendEntries requests ever sent in the same
  term name the same leader.
\<close>

lemma append_requests_one_leader:
  assumes "raft_storage (storage_load E) (storage_save E)"
    and "reachable_in E ms cfgs k s" "k + 3 < 2 ^ 64"
    and "m \<in> sent s" "msg_rpc m = RpcAppendEntriesRequest q"
    and "m' \<in> sent s" "msg_rpc m' = RpcAppendEntriesRequest q'" "aeq_term q = aeq_term q'"
  shows "aeq_leader_id q = aeq_leader_id q'"
  using raft_cluster.leader_messages [OF raft_cluster.intro] assms by blast

text \<open>
  C3: One vote per term. All the votes a node ever granted in a term, including the ones granted
  after restarts, went to the same candidate.
\<close>

theorem one_vote_per_term:
  assumes "raft_storage (storage_load E) (storage_save E)"
    and "reachable_in E ms cfgs k s" "k + 3 < 2 ^ 64"
    and "m \<in> sent s" "msg_rpc m = RpcRequestVoteResponse r" "rvr_vote_granted r"
    and "m' \<in> sent s" "msg_rpc m' = RpcRequestVoteResponse r'" "rvr_vote_granted r'"
    and "msg_from m = msg_from m'" "rvr_term r = rvr_term r'"
  shows "msg_to m = msg_to m'"
  using raft_cluster.vote_unique [OF raft_cluster.intro] assms by blast

theorem one_vote_per_term_witness:
  "\<exists>s m r. reachable_in demo_env [1, 2, 3] demo_config 6 s \<and> m \<in> sent s \<and>
     msg_rpc m = RpcRequestVoteResponse r \<and> rvr_vote_granted r \<and> msg_to m = 1"
proof -
  let ?r = "RequestVoteResponse 1 True"
  let ?m = "Message 2 1 (RpcRequestVoteResponse ?r)"
  obtain s where "reachable_in demo_env [1, 2, 3] demo_config 6 s" "?m \<in> sent s"
    using demo_sent by auto
  then show ?thesis
    using one_vote_per_term [OF demo_storage, of "[1, 2, 3]" demo_config 6 s ?m ?r ?m ?r]
    by (intro exI [of _ s] exI [of _ ?m] exI [of _ ?r]) auto
qed

text \<open>
  C4: Log matching. If the logs of two nodes have an entry with the same term at some index, they
  are identical up to that index.
\<close>

theorem log_matching:
  assumes "raft_storage (storage_load E) (storage_save E)"
    and "reachable_in E ms cfgs k s" "k + 3 < 2 ^ 64" "i \<in> set ms" "j \<in> set ms"
    and "x < length (rlog (nodes s i))" "x < length (rlog (nodes s j))"
    and "le_term (rlog (nodes s i) ! x) = le_term (rlog (nodes s j) ! x)"
  shows "take (Suc x) (rlog (nodes s i)) = take (Suc x) (rlog (nodes s j))"
  using raft_cluster.logs_match [OF raft_cluster.intro] assms by blast

theorem log_matching_witness:
  "\<exists>s. reachable_in demo_env [1, 2, 3] demo_config 9 s \<and> length (rlog (nodes s 1)) = 3 \<and>
     take (Suc 2) (rlog (nodes s 1)) = take (Suc 2) (rlog (nodes s 2))"
proof -
  obtain s where s: "reachable_in demo_env [1, 2, 3] demo_config 9 s"
    "rlog (nodes s 1) = demo_log" "rlog (nodes s 2) = demo_log"
    using demo_reached by auto
  moreover have "length demo_log = 3" by (simp add: demo_log_def)
  ultimately show ?thesis
    using log_matching [OF demo_storage s(1), of 1 2 2] by (intro exI [of _ s]) simp
qed

text \<open>
  C5: Commitment is permanent. An entry at or below the commit index of a node is the entry that any
  node has at that index at any later time at which its own commit index covers it.
\<close>

theorem committed_entries_permanent:
  assumes "raft_storage (storage_load E) (storage_save E)"
    and "reachable_in E ms cfgs k s" "(cluster_step E ms cfgs ^^ d) s s'" "k + d + 3 < 2 ^ 64"
    and "i \<in> set ms" "j \<in> set ms"
    and "x \<le> unat (commit_index (nodes s i))" "x \<le> unat (commit_index (nodes s' j))"
  shows "x < length (rlog (nodes s i)) \<and> x < length (rlog (nodes s' j)) \<and>
    rlog (nodes s i) ! x = rlog (nodes s' j) ! x"
  using raft_cluster.commits_agree [OF raft_cluster.intro] assms by blast

theorem committed_entries_permanent_witness:
  "\<exists>s s'. reachable_in demo_env [1, 2, 3] demo_config 6 s \<and>
     (cluster_step demo_env [1, 2, 3] demo_config ^^ 3) s s' \<and>
     commit_index (nodes s 1) = 2 \<and> commit_index (nodes s' 2) = 2 \<and>
     2 < length (rlog (nodes s 1)) \<and> 2 < length (rlog (nodes s' 2)) \<and>
     rlog (nodes s 1) ! 2 = rlog (nodes s' 2) ! 2"
proof -
  obtain s s' where s: "reachable_in demo_env [1, 2, 3] demo_config 6 s"
    "(cluster_step demo_env [1, 2, 3] demo_config ^^ 3) s s'"
    "commit_index (nodes s 1) = 2" "commit_index (nodes s' 2) = 2"
    using demo_reached by auto
  then show ?thesis
    using committed_entries_permanent [OF demo_storage s(1,2), of 1 2 2]
    by (intro exI [of _ s] exI [of _ s']) simp
qed

text \<open>
  C6: Leader completeness. A leader has every entry committed by a node whose term is not later than
  its own, in the same place.
\<close>

theorem leader_has_committed_entries:
  assumes "raft_storage (storage_load E) (storage_save E)"
    and "reachable_in E ms cfgs k s" "k + 3 < 2 ^ 64" "i \<in> set ms" "j \<in> set ms"
    and "node_state (nodes s i) = Leader" "current_term (nodes s j) \<le> current_term (nodes s i)"
  shows "take (Suc (unat (commit_index (nodes s j)))) (rlog (nodes s j)) =
         take (Suc (unat (commit_index (nodes s j)))) (rlog (nodes s i))"
  using raft_cluster.leader_has_commits [OF raft_cluster.intro] assms by blast

theorem leader_has_committed_entries_witness:
  "\<exists>s. reachable_in demo_env [1, 2, 3] demo_config 9 s \<and> node_state (nodes s 1) = Leader \<and>
     commit_index (nodes s 2) = 2 \<and> take (Suc 2) (rlog (nodes s 2)) = take (Suc 2) (rlog (nodes s 1))"
proof -
  obtain s where s: "reachable_in demo_env [1, 2, 3] demo_config 9 s" "node_state (nodes s 1) = Leader"
    "current_term (nodes s 1) = 1" "current_term (nodes s 2) = 1" "commit_index (nodes s 2) = 2"
    using demo_reached by auto
  then show ?thesis
    using leader_has_committed_entries [OF demo_storage s(1), of 1 2]
    by (intro exI [of _ s]) simp
qed



text \<open>
  C8: Restarts. In every reachable cluster a node can be constructed again from a storage that holds
  what its own storage holds, and it comes back with the term, the vote and the log it had.
\<close>

theorem restart_recovers:
  assumes "raft_storage (storage_load E) (storage_save E)"
    and "reachable_in E ms cfgs k s" "k + 3 < 2 ^ 64" "i \<in> set ms"
    and "storage_load E st = storage_load E (storage (nodes s i))"
  shows "\<exists>n. new_raft_node E (cfgs i) (Some st) = Inr n \<and>
    current_term n = current_term (nodes s i) \<and> voted_for n = voted_for (nodes s i) \<and>
    rlog n = rlog (nodes s i)"
  by (rule raft_cluster.restart_keeps [OF raft_cluster.intro [OF assms(1)] assms(2-5)])

theorem restart_recovers_witness:
  "\<exists>s n. reachable_in demo_env [1, 2, 3] demo_config 9 s \<and>
     new_raft_node demo_env (demo_config 2) (Some (storage (nodes s 2))) = Inr n \<and> rlog n = demo_log"
proof -
  obtain s where s: "reachable_in demo_env [1, 2, 3] demo_config 9 s" "rlog (nodes s 2) = demo_log"
    using demo_reached by auto
  then show ?thesis using restart_recovers [OF demo_storage s(1), of 2 "storage (nodes s 2)"] by auto
qed

end
