(* ===== verification/RaftElection.thy ===== *)
theory RaftElection
  imports RaftSafety "HOL-Library.Product_Lexorder"
begin

text \<open>
  Elections make progress: over a storage whose saves return, the members of any majority can elect a
  leader among themselves from every reachable state, whatever the others do. The first half says
  what a tick, a vote and a counted vote do to a node; the second half composes them.
\<close>

lemma finite_argmax:
  fixes f :: "'a \<Rightarrow> 'b :: linorder"
  assumes "finite q" "q \<noteq> {}"
  obtains i where "i \<in> q" "\<And>j. j \<in> q \<Longrightarrow> f j \<le> f i"
proof -
  have "Max (f ` q) \<in> f ` q" using assms by (intro Max_in) auto
  then obtain i where i: "i \<in> q" "Max (f ` q) = f i" by blast
  have "f j \<le> f i" if "j \<in> q" for j
    using Max_ge [OF finite_imageI [OF assms(1)] imageI [OF that]] i(2) by metis
  then show thesis using i(1) that by blast
qed

section \<open>Runs of some of the members\<close>

text \<open>
  The operations of the members in \<open>q\<close> that hear only from each other: timers, messages, proposals and
  the delivery of committed entries. None of them stops or restarts.
\<close>

inductive local_step ::
    "('st, 'g) RaftEnv \<Rightarrow> NodeId list \<Rightarrow> NodeId set \<Rightarrow> ('st, 'g) cluster \<Rightarrow> ('st, 'g) cluster \<Rightarrow> bool"
  for E :: "('st, 'g) RaftEnv" and ms :: "NodeId list" and q :: "NodeId set" where
  tick: "i \<in> q \<Longrightarrow> i \<in> set ms \<Longrightarrow> tick E (nodes s i) elapsed = Ret u n \<Longrightarrow>
    local_step E ms q s (with_node s i n {})"
| deliver: "i \<in> q \<Longrightarrow> i \<in> set ms \<Longrightarrow> m \<in> sent s \<Longrightarrow> msg_from m \<in> q \<Longrightarrow>
    step E (nodes s i) m = Ret b n \<Longrightarrow> local_step E ms q s (with_node s i n {})"
| propose: "i \<in> q \<Longrightarrow> i \<in> set ms \<Longrightarrow> propose E (nodes s i) command = Ret x n \<Longrightarrow>
    local_step E ms q s (with_node s i n {})"
| take_committed: "i \<in> q \<Longrightarrow> i \<in> set ms \<Longrightarrow> take_committed_entries (nodes s i) = (es, n) \<Longrightarrow>
    local_step E ms q s ((with_node s i n {})\<lparr>delivered := delivered s \<union> Pair i ` set es\<rparr>)"

lemma local_step_cluster: "local_step E ms q s s' \<Longrightarrow> cluster_step E ms cfgs s s'"
  by (induction rule: local_step.induct) (auto intro: cluster_step.intros)

lemma local_step_frame:
  "local_step E ms q s s' \<Longrightarrow> (\<forall>j. j \<notin> q \<longrightarrow> nodes s' j = nodes s j) \<and> delivered s \<subseteq> delivered s'"
  by (induction rule: local_step.induct) (auto simp: with_node_def)

text \<open>At most \<open>d\<close> such steps.\<close>

definition within ::
    "('st, 'g) RaftEnv \<Rightarrow> NodeId list \<Rightarrow> NodeId set \<Rightarrow> nat \<Rightarrow> ('st, 'g) cluster \<Rightarrow> ('st, 'g) cluster \<Rightarrow> bool" where
  "within E ms q d s s' \<longleftrightarrow> (\<exists>e \<le> d. (local_step E ms q ^^ e) s s')"

lemma within_refl [simp]: "within E ms q d s s"
  unfolding within_def by (rule exI [of _ 0]) simp

lemma within_step: "local_step E ms q s s' \<Longrightarrow> within E ms q 1 s s'"
  unfolding within_def by (rule exI [of _ 1]) (simp add: eq_OO)

lemma within_mono: "within E ms q d s s' \<Longrightarrow> d \<le> d' \<Longrightarrow> within E ms q d' s s'"
  unfolding within_def using order_trans by blast

lemma within_trans:
  assumes "within E ms q d s s1" "within E ms q d' s1 s2" "d + d' \<le> b"
  shows "within E ms q b s s2"
proof -
  obtain e e' where e: "e \<le> d" "(local_step E ms q ^^ e) s s1"
    "e' \<le> d'" "(local_step E ms q ^^ e') s1 s2"
    using assms(1,2) by (auto simp: within_def)
  have "e + e' \<le> b" using e assms(3) by simp
  then show ?thesis unfolding within_def using relpowp_trans [OF e(2,4)] by blast
qed

lemma within_frame:
  assumes "within E ms q d s s'"
  shows "(\<forall>j. j \<notin> q \<longrightarrow> nodes s' j = nodes s j) \<and> delivered s \<subseteq> delivered s'"
proof -
  have "(\<forall>j. j \<notin> q \<longrightarrow> nodes s' j = nodes s j) \<and> delivered s \<subseteq> delivered s'" if "(local_step E ms q ^^ e) s s'" for e
    using that
  proof (induction e arbitrary: s')
    case (Suc e)
    then obtain s1 where "(local_step E ms q ^^ e) s s1" "local_step E ms q s1 s'" by auto
    then show ?case using Suc.IH local_step_frame by fastforce
  qed simp
  then show ?thesis using assms by (auto simp: within_def)
qed

lemma with_node_fields [simp]:
  "nodes (with_node s i n x) = (nodes s)(i := n)"
  "sent (with_node s i n x) = sent s \<union> set (outbox n) \<union> x"
  by (simp_all add: with_node_def)

lemma reset_election_timeout_roles [simp]:
  "votes_received (reset_election_timeout_locked E n) = votes_received n"
  "leader_id (reset_election_timeout_locked E n) = leader_id n"
  by (simp_all add: reset_election_timeout_locked_def split: prod.splits)

section \<open>Fields that advancing and sending keep\<close>

definition same_role :: "('st, 'g) RaftNode \<Rightarrow> ('st, 'g) RaftNode \<Rightarrow> bool" where
  "same_role n n' \<longleftrightarrow>
     node_state n' = node_state n \<and> current_term n' = current_term n \<and> rlog n' = rlog n \<and>
     node_config n' = node_config n"

lemma same_role_refl [simp]: "same_role n n"
  by (simp add: same_role_def)

definition quiet :: "('st, 'g) RaftNode \<Rightarrow> ('a, ('st, 'g) RaftNode) outcome \<Rightarrow> bool" where
  "quiet n0 r \<longleftrightarrow> same_role n0 (outcome_state r)"

lemma quiet_simps [simp]:
  "quiet n0 (Ret a n) \<longleftrightarrow> same_role n0 n" "quiet n0 (Exc e n) \<longleftrightarrow> same_role n0 n"
  by (simp_all add: quiet_def)

lemma quiet_and_then:
  "quiet n0 r \<Longrightarrow> (\<And>a n. same_role n0 n \<Longrightarrow> quiet n0 (f a n)) \<Longrightarrow> quiet n0 (and_then r f)"
  by (cases r) auto

lemma same_role_update [simp]:
  "same_role n0 (n\<lparr>match_index := m\<rparr>) \<longleftrightarrow> same_role n0 n"
  "same_role n0 (n\<lparr>last_applied := l\<rparr>) \<longleftrightarrow> same_role n0 n"
  "same_role n0 (n\<lparr>commit_index := l\<rparr>) \<longleftrightarrow> same_role n0 n"
  "same_role n0 (n\<lparr>committed_entries := ce\<rparr>) \<longleftrightarrow> same_role n0 n"
  "same_role n0 (n\<lparr>append_request_id := ids\<rparr>) \<longleftrightarrow> same_role n0 n"
  "same_role n0 (send_locked n p r) \<longleftrightarrow> same_role n0 n"
  by (simp_all add: same_role_def send_locked_def)

lemma apply_quiet: "same_role n0 n \<Longrightarrow> quiet n0 (apply_committed_entries_locked n)"
proof (induction n rule: apply_committed_entries_locked.induct)
  case (1 n)
  then show ?case
    by (subst apply_committed_entries_locked.simps) (auto simp: Let_def split: option.splits)
qed

lemma advance_loop_quiet: "same_role n0 n \<Longrightarrow> quiet n0 (advance_commit_loop n c)"
proof (induction n c rule: advance_commit_loop.induct)
  case (1 n c)
  then show ?case
    by (subst advance_commit_loop.simps)
      (auto simp: Let_def split: option.splits prod.splits intro!: quiet_and_then apply_quiet)
qed

lemma send_append_quiet: "same_role n0 n \<Longrightarrow> quiet n0 (send_append_entries_locked n p)"
  by (auto simp: send_append_entries_locked_def Let_def split: option.splits prod.splits)

lemma send_append_to_quiet: "same_role n0 n \<Longrightarrow> quiet n0 (send_append_entries_to ps n)"
  by (induction ps arbitrary: n) (auto intro!: quiet_and_then send_append_quiet)

section \<open>A cluster whose saves return\<close>

locale live_cluster =
  raft_cluster E ms cfgs + reliable_raft_storage "storage_load E" "storage_save E"
  for E :: "('st, 'g) RaftEnv" and ms cfgs
begin

abbreviation runs :: "NodeId set \<Rightarrow> nat \<Rightarrow> ('st, 'g) cluster \<Rightarrow> ('st, 'g) cluster \<Rightarrow> bool" where
  "runs \<equiv> within E ms"

text \<open>The states that at most \<open>k\<close> steps reach, with counters below \<open>k\<close>.\<close>

definition good :: "nat \<Rightarrow> ('st, 'g) cluster \<Rightarrow> bool" where
  "good k s \<longleftrightarrow> (\<exists>a. related k a s)"

lemma good_runs:
  assumes "good k s" "runs q d s s'" "k + d + 3 < 2 ^ 64"
  shows "good (k + d) s'"
proof -
  obtain e where e: "e \<le> d" "(local_step E ms q ^^ e) s s'" using assms(2) by (auto simp: within_def)
  obtain a where a: "related k a s" using assms(1) by (auto simp: good_def)
  have "(cluster_step E ms cfgs ^^ e) s s'"
    using e(2) by (rule relpowp_mono [rotated]) (rule local_step_cluster)
  then obtain b where "related (k + e) b s'" using related_steps [OF a] e(1) assms(3) by fastforce
  then have "related (k + d) b s'"
    using abounded_mono [of "k + e" "k + e" b "k + d" "k + d"] e(1) by (simp add: related_def)
  then show ?thesis by (auto simp: good_def)
qed

lemma good_node:
  assumes "good k s" "i \<in> set ms" "k + 3 < 2 ^ 64"
  shows "node_id (nodes s i) = i" "set (peers (nodes s i)) = set ms - {i}"
    "distinct (peers (nodes s i))" "members (nodes s i) = set ms"
    "unat (current_term (nodes s i)) \<le> k" "rlog (nodes s i) \<noteq> []" "length (rlog (nodes s i)) \<le> Suc k"
    "quorum_size_locked (nodes s i) = card (set ms) div 2 + 1"
    "node_state (nodes s i) = Candidate \<Longrightarrow> votes_received (nodes s i) \<subseteq> set ms"
proof -
  obtain a where a: "related k a s" using assms(1) by (auto simp: good_def)
  then have ok: "ok a i (nodes s i)" and ab: "abounded k k a"
    using assms(2) by (auto simp: related_def cluster_ok_def)
  show c: "node_id (nodes s i) = i" "set (peers (nodes s i)) = set ms - {i}"
    "distinct (peers (nodes s i))" "members (nodes s i) = set ms"
    using config [OF ok assms(2)] by auto
  show "unat (current_term (nodes s i)) \<le> k" "rlog (nodes s i) \<noteq> []" "length (rlog (nodes s i)) \<le> Suc k"
    using related_node [OF a assms(2)] aboundedD(1,2) [OF ab, of i] by auto
  show "quorum_size_locked (nodes s i) = card (set ms) div 2 + 1"
    using c by (simp add: quorum_size_locked_def)
  show "node_state (nodes s i) = Candidate \<Longrightarrow> votes_received (nodes s i) \<subseteq> set ms"
    using ok by (simp add: node_ok_def role_ok_def)
qed

lemma no_save_error: "\<not> save_error e"
  unfolding save_error_def by (metis fst_conv save_returns sum.distinct(1))

lemma good_operations:
  assumes g: "good k s" and i: "i \<in> set ms" and k: "k + 3 < 2 ^ 64"
  shows "0 \<le> elapsed \<Longrightarrow> \<exists>n. tick E (nodes s i) elapsed = Ret () n"
    "m \<in> sent s \<Longrightarrow> \<exists>b n. step E (nodes s i) m = Ret b n"
    "\<exists>x n. propose E (nodes s i) command = Ret x n"
proof -
  obtain a where a: "related k a s" using g by (auto simp: good_def)
  have ret: "\<exists>x n. r = Ret x n" if "sim T L P a i r" for T L P and r :: "('x, ('st, 'g) RaftNode) outcome"
    using that no_save_error by (cases r) (auto simp: sim_def)
  note sims = related_operations [OF a k i]
  show "0 \<le> elapsed \<Longrightarrow> \<exists>n. tick E (nodes s i) elapsed = Ret () n"
    using ret [OF sims(1)] by auto
  show "m \<in> sent s \<Longrightarrow> \<exists>b n. step E (nodes s i) m = Ret b n"
    using ret [OF sims(2)] by auto
  show "\<exists>x n. propose E (nodes s i) command = Ret x n"
    using ret [OF sims(4)] by auto
qed

lemma runs_tick:
  "i \<in> q \<Longrightarrow> i \<in> set ms \<Longrightarrow> tick E (nodes s i) elapsed = Ret u n \<Longrightarrow> runs q 1 s (with_node s i n {})"
  by (intro within_step local_step.tick)

lemma runs_deliver:
  "i \<in> q \<Longrightarrow> i \<in> set ms \<Longrightarrow> m \<in> sent s \<Longrightarrow> msg_from m \<in> q \<Longrightarrow> step E (nodes s i) m = Ret b n \<Longrightarrow>
   runs q 1 s (with_node s i n {})"
  by (intro within_step local_step.deliver)

section \<open>Operations of one node\<close>

lemma persist_returns [simp]:
  "persist_locked E n = Ret () (n\<lparr>storage := snd (storage_save E (persistent_part n) (storage n))\<rparr>)"
  using save_returns [of "persistent_part n" "storage n"]
  by (cases "storage_save E (persistent_part n) (storage n)") (simp add: persist_locked_def)

lemma become_leader_role:
  assumes "become_leader_locked E n = Ret u n'"
  shows "node_state n' = Leader \<and> current_term n' = current_term n"
proof -
  define m where "m = n\<lparr>node_state := Leader, rlog := rlog n @ [LogEntry (current_term n) [] True]\<rparr>"
  have "quiet m (become_leader_locked E n)"
    unfolding become_leader_locked_def Let_def advance_commit_index_locked_def
      broadcast_append_entries_locked_def init_peer_progress_spec
    by (auto simp: m_def same_role_def intro!: quiet_and_then advance_loop_quiet send_append_to_quiet)
  then show ?thesis using assms by (simp add: m_def same_role_def)
qed

abbreviation vote_request :: "NodeId \<Rightarrow> Term \<Rightarrow> LogEntry list \<Rightarrow> Rpc" where
  "vote_request i t l \<equiv> RpcRequestVoteRequest (RequestVoteRequest t i (last_index l) (le_term (last l)))"

lemma start_election_role:
  assumes "start_election_locked E n = Ret u n'"
  shows "current_term n' = current_term n + 1 \<and>
    (if quorum_size_locked n \<le> 1 then node_state n' = Leader
     else node_state n' = Candidate \<and> rlog n' = rlog n \<and> votes_received n' = {node_id n} \<and>
       set (outbox n') = set (outbox n) \<union>
         (\<lambda>p. Message (node_id n) p (vote_request (node_id n) (current_term n + 1) (rlog n))) ` set (peers n))"
  using assms
  by (auto simp: start_election_locked_def Let_def quorum_size_locked_def send_to_all_spec
      last_log_index_locked_def last_log_term_locked_def split: if_splits dest!: become_leader_role)

lemma vote_step:
  assumes "node_id n = j" "i \<noteq> j" "i \<in> members n" "current_term n < t"
  shows "\<exists>n'. step E n (Message i j (vote_request i t l)) = Ret True n' \<and> current_term n' = t \<and>
    node_state n' = Follower \<and> rlog n' = rlog n \<and> set (outbox n) \<subseteq> set (outbox n') \<and>
    Message j i (RpcRequestVoteResponse (RequestVoteResponse t
      (candidate_log_is_current_locked n (RequestVoteRequest t i (last_index l) (le_term (last l)))))) \<in> set (outbox n')"
  using assms
  by (auto simp: step_def step_locked_def is_peer_locked_def message_term_def become_follower_locked_def
      Let_def handle_request_vote_locked_def send_locked_def candidate_log_is_current_locked_def
      last_log_index_locked_def last_log_term_locked_def)

lemma count_vote:
  assumes r: "step E n (Message j i (RpcRequestVoteResponse (RequestVoteResponse t True))) = Ret b n'"
    and n: "node_id n = i" "j \<noteq> i" "j \<in> members n" "current_term n = t" "node_state n = Candidate"
  shows "current_term n' = t \<and>
    (if quorum_size_locked n \<le> card (insert j (votes_received n)) then node_state n' = Leader
     else n' = n\<lparr>votes_received := insert j (votes_received n)\<rparr>)"
  using r n
  by (auto simp: step_def step_locked_def is_peer_locked_def message_term_def quorum_size_locked_def
      handle_request_vote_response_locked_def Let_def and_then_eq_Ret split: if_splits
      dest!: become_leader_role)

section \<open>Campaigns\<close>

definition campaigning :: "NodeId \<Rightarrow> Term \<Rightarrow> LogEntry list \<Rightarrow> ('st, 'g) cluster \<Rightarrow> bool" where
  "campaigning i t l s \<longleftrightarrow>
     node_state (nodes s i) = Candidate \<and> current_term (nodes s i) = t \<and> rlog (nodes s i) = l \<and>
     i \<in> votes_received (nodes s i) \<and>
     card (votes_received (nodes s i)) < quorum_size_locked (nodes s i) \<and>
     (\<forall>p \<in> set ms - {i}. Message i p (vote_request i t l) \<in> sent s)"

definition leads :: "NodeId \<Rightarrow> Term \<Rightarrow> ('st, 'g) cluster \<Rightarrow> bool" where
  "leads i t s \<longleftrightarrow> node_state (nodes s i) = Leader \<and> current_term (nodes s i) = t"

text \<open>An election timeout of a node that is not the leader.\<close>

lemma campaign:
  assumes g: "good k s" and k: "k + 4 < 2 ^ 64" and i: "i \<in> q" "i \<in> set ms"
    and nl: "node_state (nodes s i) \<noteq> Leader"
  defines "t \<equiv> current_term (nodes s i) + 1"
  shows "\<exists>s'. runs q 1 s s' \<and> (\<forall>p. p \<noteq> i \<longrightarrow> nodes s' p = nodes s p) \<and>
    (leads i t s' \<and> set ms = {i} \<or> campaigning i t (rlog (nodes s i)) s')"
proof -
  have k3: "k + 3 < 2 ^ 64" using k by simp
  let ?n = "nodes s i"
  define el where "el = max 0 (election_timeout ?n - election_elapsed ?n)"
  obtain n where n: "tick E ?n el = Ret () n"
    using good_operations(1) [OF g i(2) k3, of el] by (auto simp: el_def)
  then have e: "start_election_locked E ?n = Ret () n" using nl by (simp add: tick_def el_def)
  note c = good_node [OF g i(2) k3]
  have "set ms = {i}" if "quorum_size_locked ?n \<le> 1"
  proof -
    have "card (set ms) \<le> Suc 0" using that c(8) by simp
    then show ?thesis using i(2) by (auto simp: card_le_Suc0_iff_eq)
  qed
  moreover have "members n = members ?n"
    using good_node(4) [OF good_runs [OF g runs_tick [OF i n]] i(2)] c(4) k by simp
  ultimately show ?thesis
    using start_election_role [OF e] c runs_tick [OF i n]
    by (intro exI [of _ "with_node s i n {}"])
      (auto simp: campaigning_def leads_def t_def quorum_size_locked_def split: if_splits)
qed

lemma term_Suc:
  assumes "good k s" "i \<in> set ms" "k + 3 < 2 ^ 64"
  shows "unat (current_term (nodes s i) + 1) = Suc (unat (current_term (nodes s i)))"
  using good_node(5) [OF assms] assms(3) by (simp add: unat_plus_one_u64)

text \<open>Timeouts of one node until its term is above \<open>b\<close>.\<close>

lemma campaign_above:
  assumes "good k s" "k + Suc d + 3 < 2 ^ 64" "i \<in> q" "i \<in> set ms" "node_state (nodes s i) \<noteq> Leader"
    and "b \<le> unat (current_term (nodes s i)) + d"
  shows "\<exists>s' t. runs q (Suc d) s s' \<and> (\<forall>p. p \<noteq> i \<longrightarrow> nodes s' p = nodes s p) \<and>
    (leads i t s' \<and> set ms = {i} \<or> b < unat t \<and> campaigning i t (rlog (nodes s i)) s')"
  using assms
proof (induction d arbitrary: k s)
  case 0
  let ?t = "current_term (nodes s i) + 1"
  have u: "unat ?t = Suc (unat (current_term (nodes s i)))" using term_Suc [OF 0(1,4)] 0(2) by simp
  obtain s1 where s1: "runs q 1 s s1" "\<forall>p. p \<noteq> i \<longrightarrow> nodes s1 p = nodes s p"
    "leads i ?t s1 \<and> set ms = {i} \<or> campaigning i ?t (rlog (nodes s i)) s1"
    using campaign [OF 0(1) _ 0(3,4,5)] 0(2) by auto
  have "b < unat ?t" using u 0(6) by simp
  then show ?case using s1 by (intro exI [of _ s1] exI [of _ ?t]) simp
next
  case (Suc d)
  let ?t = "current_term (nodes s i) + 1"
  have u: "unat ?t = Suc (unat (current_term (nodes s i)))"
    using term_Suc [OF Suc.prems(1,4)] Suc.prems(2) by simp
  obtain s1 where s1: "runs q 1 s s1" "\<forall>p. p \<noteq> i \<longrightarrow> nodes s1 p = nodes s p"
    "leads i ?t s1 \<and> set ms = {i} \<or> campaigning i ?t (rlog (nodes s i)) s1"
    using campaign [OF Suc.prems(1) _ Suc.prems(3,4,5)] Suc.prems(2) by auto
  show ?case
  proof (cases "leads i ?t s1 \<and> set ms = {i}")
    case True
    then show ?thesis
      using s1(2) within_mono [OF s1(1), of "Suc (Suc d)"] by (intro exI [of _ s1] exI [of _ ?t]) simp
  next
    case False
    then have c: "node_state (nodes s1 i) \<noteq> Leader" "rlog (nodes s1 i) = rlog (nodes s i)"
      "b \<le> unat (current_term (nodes s1 i)) + d"
      using s1(3) u Suc.prems(6) by (auto simp: campaigning_def)
    have "good (Suc k) s1" using good_runs [OF Suc.prems(1) s1(1)] Suc.prems(2) by simp
    then obtain s2 t where s2: "runs q (Suc d) s1 s2" "\<forall>p. p \<noteq> i \<longrightarrow> nodes s2 p = nodes s1 p"
      "leads i t s2 \<and> set ms = {i} \<or> b < unat t \<and> campaigning i t (rlog (nodes s i)) s2"
      using Suc.IH [of "Suc k" s1] Suc.prems c by auto
    then show ?thesis
      using within_trans [OF s1(1) s2(1), of "Suc (Suc d)"] s1(2)
      by (intro exI [of _ s2] exI [of _ t]) simp
  qed
qed

section \<open>Votes\<close>

abbreviation key :: "LogEntry list \<Rightarrow> Term \<times> LogIndex" where
  "key l \<equiv> (le_term (last l), last_index l)"

lemma candidate_current_key:
  "candidate_log_is_current_locked n (RequestVoteRequest t i (last_index l) (le_term (last l))) \<longleftrightarrow>
     key (rlog n) \<le> key l"
  by (auto simp: candidate_log_is_current_locked_def Let_def last_log_index_locked_def
      last_log_term_locked_def)

lemma gain_vote:
  assumes g: "good k s" and k: "k + 5 < 2 ^ 64" and c: "campaigning i t l s"
    and i: "i \<in> q" "i \<in> set ms" and j: "j \<in> q" "j \<in> set ms" "j \<noteq> i"
    and tj: "current_term (nodes s j) < t" and kj: "key (rlog (nodes s j)) \<le> key l"
  shows "\<exists>s'. runs q 2 s s' \<and> (\<forall>p. p \<noteq> i \<and> p \<noteq> j \<longrightarrow> nodes s' p = nodes s p) \<and>
    current_term (nodes s' j) = t \<and>
    (leads i t s' \<or> campaigning i t l s' \<and>
       votes_received (nodes s' i) = insert j (votes_received (nodes s i)))"
proof -
  let ?req = "Message i j (vote_request i t l)"
  let ?resp = "Message j i (RpcRequestVoteResponse (RequestVoteResponse t True))"
  have k3: "k + 3 < 2 ^ 64" using k by simp
  note cj = good_node [OF g j(2) k3] and ci = good_node [OF g i(2) k3]
  obtain n where n: "step E (nodes s j) ?req = Ret True n" "current_term n = t" "?resp \<in> set (outbox n)"
    using vote_step [OF cj(1), of i t l] tj j(3) i(2) cj(4) iffD2 [OF candidate_current_key kj, of t i] by auto
  have m: "?req \<in> sent s" using c j by (auto simp: campaigning_def)
  define s1 where "s1 = with_node s j n {}"
  have r1: "runs q 1 s s1" unfolding s1_def by (rule runs_deliver [OF j(1,2) m _ n(1)]) (use i in simp)
  have g1: "good (k + 1) s1" using good_runs [OF g r1] k by simp
  have s1i: "nodes s1 i = nodes s i" using j(3) by (simp add: s1_def)
  have m1: "?resp \<in> sent s1" using n(3) by (simp add: s1_def)
  obtain b n' where n': "step E (nodes s1 i) ?resp = Ret b n'"
    using good_operations(2) [OF g1 i(2) _ m1] k by auto
  define s2 where "s2 = with_node s1 i n' {}"
  have r2: "runs q 1 s1 s2" unfolding s2_def by (rule runs_deliver [OF i m1 _ n']) (use j in simp)
  have "current_term n' = t \<and>
      (if quorum_size_locked (nodes s i) \<le> card (insert j (votes_received (nodes s i))) then node_state n' = Leader
       else n' = (nodes s i)\<lparr>votes_received := insert j (votes_received (nodes s i))\<rparr>)"
    using count_vote [OF n' [unfolded s1i]] ci j c by (auto simp: campaigning_def)
  then have "leads i t s2 \<or> campaigning i t l s2 \<and>
       votes_received (nodes s2 i) = insert j (votes_received (nodes s i))"
    using c by (auto simp: s2_def s1_def leads_def campaigning_def quorum_size_locked_def split: if_splits)
  moreover have "current_term (nodes s2 j) = t" using n(2) j(3) by (simp add: s2_def s1_def)
  ultimately show ?thesis
    using within_trans [OF r1 r2, of 2] by (intro exI [of _ s2]) (simp add: s2_def s1_def)
qed

text \<open>The votes of a list of members, or the election before they are all counted.\<close>

lemma gain_votes:
  assumes "good k s" "k + 2 * length js + 3 < 2 ^ 64" "campaigning i t l s" "i \<in> q" "q \<subseteq> set ms"
    and "set js \<subseteq> q - {i}" "distinct js"
    and "\<And>j. j \<in> set js \<Longrightarrow> current_term (nodes s j) < t \<and> key (rlog (nodes s j)) \<le> key l"
    and "\<And>j. j \<in> q \<Longrightarrow> current_term (nodes s j) \<le> t"
  shows "\<exists>s'. runs q (2 * length js) s s' \<and> (\<forall>j \<in> q. current_term (nodes s' j) \<le> t) \<and>
    (leads i t s' \<or> campaigning i t l s' \<and>
       set js \<union> votes_received (nodes s i) \<subseteq> votes_received (nodes s' i))"
  using assms
proof (induction js arbitrary: k s)
  case Nil
  then show ?case by (intro exI [of _ s]) auto
next
  case (Cons j js)
  have j: "j \<in> q" "j \<in> set ms" "j \<noteq> i" "i \<in> set ms" using Cons.prems(4-6) by auto
  obtain s1 where s1: "runs q 2 s s1" "\<forall>p. p \<noteq> i \<and> p \<noteq> j \<longrightarrow> nodes s1 p = nodes s p"
    "current_term (nodes s1 j) = t"
    "leads i t s1 \<or> campaigning i t l s1 \<and>
       votes_received (nodes s1 i) = insert j (votes_received (nodes s i))"
    using gain_vote [OF Cons.prems(1) _ Cons.prems(3,4) j(4,1,2,3)] Cons.prems(2) Cons.prems(8) [of j]
    by fastforce
  have le: "current_term (nodes s1 p) \<le> t" if "p \<in> q" for p
    using s1(2-4) Cons.prems(9) [OF that]
    by (cases "p = i \<or> p = j") (auto simp: leads_def campaigning_def)
  show ?case
  proof (cases "leads i t s1")
    case True
    then show ?thesis using within_mono [OF s1(1), of "2 * length (j # js)"] le by auto
  next
    case False
    then have c: "campaigning i t l s1" "votes_received (nodes s1 i) = insert j (votes_received (nodes s i))"
      using s1(4) by auto
    have g1: "good (k + 2) s1" using good_runs [OF Cons.prems(1) s1(1)] Cons.prems(2) by simp
    have nx: "current_term (nodes s1 p) < t \<and> key (rlog (nodes s1 p)) \<le> key l" if "p \<in> set js" for p
      using that Cons.prems(6,7) Cons.prems(8) [of p] s1(2) by auto
    obtain s2 where s2: "runs q (2 * length js) s1 s2" "\<forall>j \<in> q. current_term (nodes s2 j) \<le> t"
      "leads i t s2 \<or> campaigning i t l s2 \<and>
         set js \<union> votes_received (nodes s1 i) \<subseteq> votes_received (nodes s2 i)"
      using Cons.IH [OF g1 _ c(1) Cons.prems(4,5) _ _ nx le] Cons.prems(2,6,7) by auto
    then show ?thesis using within_trans [OF s1(1) s2(1), of "2 * length (j # js)"] c(2) by auto
  qed
qed

lemma majority_counted:
  assumes g: "good k s" "k + 3 < 2 ^ 64" and c: "campaigning i t l s" and i: "i \<in> set ms"
    and q: "q \<in> majorities ms" "q \<subseteq> votes_received (nodes s i)"
  shows False
proof -
  have "finite (votes_received (nodes s i))"
    using good_node(9) [OF g(1) i g(2)] c finite_subset by (fastforce simp: campaigning_def)
  then have "card q \<le> card (votes_received (nodes s i))" using q(2) by (rule card_mono)
  then show False using q(1) c good_node(8) [OF g(1) i g(2)] by (simp add: campaigning_def majorities_def)
qed

text \<open>The node of a majority with the most recent log wins.\<close>

lemma best_wins:
  assumes g: "good k s" and k: "2 * k + 2 * length ms + 5 < 2 ^ 64" and q: "q \<in> majorities ms"
    and i: "i \<in> q" and nl: "node_state (nodes s i) \<noteq> Leader"
    and best: "\<And>j. j \<in> q \<Longrightarrow> key (rlog (nodes s j)) \<le> key (rlog (nodes s i))"
  shows "\<exists>s' t. runs q (Suc k + 2 * length ms) s s' \<and> leads i t s' \<and>
    (\<forall>j \<in> q. current_term (nodes s' j) \<le> t)"
proof -
  let ?l = "rlog (nodes s i)"
  have qs: "q \<subseteq> set ms" and ims: "i \<in> set ms" using q i by (auto simp: majorities_def)
  obtain s1 t where s1: "runs q (Suc k) s s1" "\<forall>p. p \<noteq> i \<longrightarrow> nodes s1 p = nodes s p"
    "leads i t s1 \<and> set ms = {i} \<or> k < unat t \<and> campaigning i t ?l s1"
    using campaign_above [OF g _ i ims nl, of k k] k by auto
  show ?thesis
  proof (cases "leads i t s1 \<and> set ms = {i}")
    case True
    then have "\<forall>j \<in> q. current_term (nodes s1 j) \<le> t" using qs by (auto simp: leads_def)
    then show ?thesis
      using True within_mono [OF s1(1), of "Suc k + 2 * length ms"] by (intro exI [of _ s1] exI [of _ t]) simp
  next
    case False
    then have c: "campaigning i t ?l s1" and t: "k < unat t" using s1(3) by auto
    have g1: "good (k + Suc k) s1" using good_runs [OF g s1(1)] k by simp
    obtain js where js: "set js = q - {i}" "distinct js"
      using finite_distinct_list [of "q - {i}"] finite_subset [OF qs] by auto
    have len: "length js \<le> length ms"
      using js qs card_mono [of "set ms" "q - {i}"] card_length [of ms] distinct_card [OF js(2)] by fastforce
    have lt: "current_term (nodes s1 j) < t \<and> key (rlog (nodes s1 j)) \<le> key ?l" if "j \<in> set js" for j
      using that js s1(2) best [of j] good_node(5) [OF g, of j] qs t k by (auto simp: word_less_nat_alt)
    have le: "current_term (nodes s1 j) \<le> t" if "j \<in> q" for j
      using that lt [of j] js c by (cases "j = i") (auto simp: campaigning_def)
    obtain s2 where s2: "runs q (2 * length js) s1 s2" "\<forall>j \<in> q. current_term (nodes s2 j) \<le> t"
      "leads i t s2 \<or> campaigning i t ?l s2 \<and>
         set js \<union> votes_received (nodes s1 i) \<subseteq> votes_received (nodes s2 i)"
      using gain_votes [OF g1 _ c i qs _ js(2) lt le] js len k by auto
    have r: "runs q (Suc k + 2 * length ms) s s2" by (rule within_trans [OF s1(1) s2(1)]) (use len in simp)
    have g2: "good (k + (Suc k + 2 * length ms)) s2" using good_runs [OF g r] k by simp
    have "\<not> (campaigning i t ?l s2 \<and> set js \<union> votes_received (nodes s1 i) \<subseteq> votes_received (nodes s2 i))"
    proof
      assume A: "campaigning i t ?l s2 \<and> set js \<union> votes_received (nodes s1 i) \<subseteq> votes_received (nodes s2 i)"
      then have "q \<subseteq> votes_received (nodes s2 i)" using js(1) by (auto simp: campaigning_def)
      then show False using majority_counted [OF g2 _ _ ims q] A k by auto
    qed
    then show ?thesis using s2 r by blast
  qed
qed

text \<open>A leader of an earlier term steps down for the campaign of another node.\<close>

lemma step_down:
  assumes g: "good k s" and k: "k + 5 < 2 ^ 64" and i: "i \<in> q" "i \<in> set ms" and j: "j \<in> q" "j \<in> set ms" "i \<noteq> j"
    and t: "current_term (nodes s i) \<le> current_term (nodes s j)" and nl: "node_state (nodes s j) \<noteq> Leader"
  shows "\<exists>s'. runs q 2 s s' \<and> node_state (nodes s' i) \<noteq> Leader \<and>
    (\<forall>p. rlog (nodes s' p) = rlog (nodes s p))"
proof -
  let ?t = "current_term (nodes s j) + 1"
  obtain s1 where s1: "runs q 1 s s1" "\<forall>p. p \<noteq> j \<longrightarrow> nodes s1 p = nodes s p"
    "campaigning j ?t (rlog (nodes s j)) s1"
    using campaign [OF g _ j(1,2) nl] k i(2) j(3) by auto
  let ?m = "Message j i (vote_request j ?t (rlog (nodes s j)))"
  have m: "?m \<in> sent s1" using s1(3) i j by (auto simp: campaigning_def)
  have g1: "good (k + 1) s1" using good_runs [OF g s1(1)] k by simp
  note c = good_node [OF g1 i(2)]
  have "current_term (nodes s1 i) < ?t"
    using s1(2) j(3) t term_Suc [OF g j(2)] k by (simp add: word_less_nat_alt word_le_nat_alt)
  then obtain n where n: "step E (nodes s1 i) ?m = Ret True n" "node_state n = Follower" "rlog n = rlog (nodes s1 i)"
    using vote_step [OF c(1), of j ?t "rlog (nodes s j)"] c(4) j k by auto
  have "runs q 2 s (with_node s1 i n {})"
    by (rule within_trans [OF s1(1) runs_deliver [OF i m _ n(1)]]) (use j in simp_all)
  moreover have "rlog (nodes s1 p) = rlog (nodes s p)" for p
    using s1(2,3) by (cases "p = j") (auto simp: campaigning_def)
  ultimately show ?thesis using n by (intro exI [of _ "with_node s1 i n {}"]) simp
qed

lemma elects:
  assumes g: "good k s" and k: "2 * k + 2 * length ms + 9 < 2 ^ 64" and q: "q \<in> majorities ms"
  shows "\<exists>i \<in> q. \<exists>s' t. runs q (k + 2 * length ms + 5) s s' \<and> leads i t s' \<and>
    (\<forall>j \<in> q. current_term (nodes s' j) \<le> t)"
proof -
  have qs: "q \<subseteq> set ms" "finite q" "q \<noteq> {}" using q finite_subset [of q "set ms"] by (auto simp: majorities_def)
  obtain i where i: "i \<in> q" "\<And>j. j \<in> q \<Longrightarrow> key (rlog (nodes s j)) \<le> key (rlog (nodes s i))"
    using finite_argmax [OF qs(2,3), where f = "\<lambda>j. key (rlog (nodes s j))"] by blast
  obtain j where j: "j \<in> q" "\<And>p. p \<in> q \<Longrightarrow> current_term (nodes s p) \<le> current_term (nodes s j)"
    using finite_argmax [OF qs(2,3), where f = "\<lambda>j. current_term (nodes s j)"] by blast
  consider (lead) "node_state (nodes s j) = Leader" | (free) "node_state (nodes s i) \<noteq> Leader"
    | (stale) "i \<noteq> j" "node_state (nodes s j) \<noteq> Leader" by blast
  then show ?thesis
  proof cases
    case lead
    then show ?thesis using j by (intro bexI [OF _ j(1)] exI [of _ s]) (auto simp: leads_def)
  next
    case free
    obtain s' t where s': "runs q (Suc k + 2 * length ms) s s'" "leads i t s'" "\<forall>j \<in> q. current_term (nodes s' j) \<le> t"
      using best_wins [OF g _ q i(1) free i(2)] k by auto
    have "runs q (k + 2 * length ms + 5) s s'" by (rule within_mono [OF s'(1)]) simp
    then show ?thesis using i(1) s'(2,3) by blast
  next
    case stale
    obtain s1 where s1: "runs q 2 s s1" "node_state (nodes s1 i) \<noteq> Leader"
      "\<forall>p. rlog (nodes s1 p) = rlog (nodes s p)"
      using step_down [OF g _ i(1) _ j(1) _ stale(1) j(2) [OF i(1)] stale(2)] i(1) j(1) qs k by auto
    have g1: "good (k + 2) s1" using good_runs [OF g s1(1)] k by simp
    obtain s' t where s': "runs q (Suc (k + 2) + 2 * length ms) s1 s'" "leads i t s'"
      "\<forall>j \<in> q. current_term (nodes s' j) \<le> t"
      using best_wins [OF g1 _ q i(1) s1(2)] i(2) s1(3) k by auto
    have "runs q (k + 2 * length ms + 5) s s'" by (rule within_trans [OF s1(1) s'(1)]) simp
    then show ?thesis using i(1) s'(2,3) by blast
  qed
qed

end

end
