(* ===== verification/RaftReplication.thy ===== *)
theory RaftReplication
  imports RaftElection
begin

text \<open>
  What the operations of a leader do for an entry it has proposed: a heartbeat sends every follower the
  request the leader waits for, a success records the match and commits what a majority has, and a
  refusal lowers the index that the next request continues from.
\<close>

section \<open>The leader's requests\<close>

lemma send_append_fresh:
  assumes "next_index n p = Some next" "0 < next" "unat next \<le> length (rlog n)"
  shows "\<exists>ids rid. send_append_entries_locked n p =
      Ret () (n\<lparr>append_request_id := ids,
                outbox := outbox n @ [Message (node_id n) p
                  (RpcAppendEntriesRequest (append_request_for n next rid))]\<rparr>) \<and>
    ids p = Some rid \<and> (\<forall>p'. p' \<noteq> p \<longrightarrow> ids p' = append_request_id n p')"
proof -
  have "unat (next - 1) < length (rlog n)"
    using assms(2,3) unat_pred_less [of 0 "next"] by simp
  then show ?thesis
    using assms
    by (intro exI [of _ "(append_request_id n)(p \<mapsto> fst (map_index (append_request_id n) p) + 1)"]
        exI [of _ "fst (map_index (append_request_id n) p) + 1"])
      (auto simp: send_append_entries_locked_def Let_def send_locked_def append_request_for_def
        map_index_def split: option.splits)
qed

text \<open>The last request to \<open>p\<close> is the one that the leader waits for.\<close>

definition asked :: "('st, 'g) RaftNode \<Rightarrow> NodeId \<Rightarrow> Message set \<Rightarrow> bool" where
  "asked n p out \<longleftrightarrow>
     (\<exists>next rid. next_index n p = Some next \<and> append_request_id n p = Some rid \<and>
        Message (node_id n) p (RpcAppendEntriesRequest (append_request_for n next rid)) \<in> out)"

lemma append_request_for_same:
  "append_request_for (n\<lparr>append_request_id := ids, outbox := out\<rparr>) = append_request_for n"
  by (simp add: append_request_for_def fun_eq_iff)

lemma send_append_to_asked:
  assumes "\<And>p. p \<in> set ps \<Longrightarrow> progress_ok n p" "distinct ps"
  shows "\<exists>ids out. send_append_entries_to ps n =
      Ret () (n\<lparr>append_request_id := ids, outbox := outbox n @ out\<rparr>) \<and>
    (\<forall>p \<in> set ps. asked (n\<lparr>append_request_id := ids\<rparr>) p (set out)) \<and>
    (\<forall>p. p \<notin> set ps \<longrightarrow> ids p = append_request_id n p)"
  using assms
proof (induction ps arbitrary: n)
  case Nil
  have "n = n\<lparr>append_request_id := append_request_id n, outbox := outbox n @ []\<rparr>" by simp
  then show ?case by (intro exI [of _ "append_request_id n"] exI [of _ "[]"]) simp
next
  case (Cons p ps)
  obtain "next" where nx: "next_index n p = Some next" "0 < next" "unat next \<le> length (rlog n)"
    using Cons.prems(1) [of p] by (auto simp: progress_ok_def)
  obtain ids rid where s: "send_append_entries_locked n p =
      Ret () (n\<lparr>append_request_id := ids, outbox := outbox n @ [Message (node_id n) p
        (RpcAppendEntriesRequest (append_request_for n next rid))]\<rparr>)" (is "_ = Ret () ?n1")
    and ids: "ids p = Some rid" "\<forall>p'. p' \<noteq> p \<longrightarrow> ids p' = append_request_id n p'"
    using send_append_fresh [OF nx] by blast
  have "progress_ok ?n1 p'" if "p' \<in> set ps" for p'
    using Cons.prems(1) [of p'] that by (auto simp: progress_ok_def)
  then obtain ids' out where r: "send_append_entries_to ps ?n1 =
      Ret () (?n1\<lparr>append_request_id := ids', outbox := outbox ?n1 @ out\<rparr>)"
    and a: "\<forall>p \<in> set ps. asked (?n1\<lparr>append_request_id := ids'\<rparr>) p (set out)"
    and o: "\<forall>p. p \<notin> set ps \<longrightarrow> ids' p = append_request_id ?n1 p"
    using Cons.IH [of ?n1] Cons.prems(2) by auto
  let ?m = "Message (node_id n) p (RpcAppendEntriesRequest (append_request_for n next rid))"
  have "asked (n\<lparr>append_request_id := ids'\<rparr>) p' (set (?m # out))" if "p' \<in> set (p # ps)" for p'
  proof (cases "p' = p")
    case True
    have "ids' p = Some rid" using o ids(1) Cons.prems(2) by simp
    then show ?thesis using True nx(1) by (auto simp: asked_def append_request_for_def)
  next
    case False
    then show ?thesis using a that by (auto simp: asked_def append_request_for_def)
  qed
  moreover have "ids' p' = append_request_id n p'" if "p' \<notin> set (p # ps)" for p'
    using that o ids(2) by simp
  ultimately show ?case
    using s r by (intro exI [of _ ids'] exI [of _ "?m # out"]) simp
qed

section \<open>Committing\<close>

text \<open>
  \<open>settled l e n\<close>: the last entry of the log, \<open>e\<close>, is delivered, or it is not committed and has too
  few replicas.
\<close>

definition settled :: "LogIndex \<Rightarrow> CommittedEntry \<Rightarrow> ('st, 'g) RaftNode \<Rightarrow> bool" where
  "settled c e n \<longleftrightarrow>
     e \<in> set (committed_entries n) \<or>
     commit_index n < c \<and> \<not> quorum_size_locked n \<le> Suc (length (replicas n c))"

definition last_entry :: "('st, 'g) RaftNode \<Rightarrow> CommittedEntry" where
  "last_entry n = CommittedEntry (last_index (rlog n)) (le_term (last (rlog n))) (le_command (last (rlog n)))"

text \<open>What advancing the commit index leaves as it was.\<close>

definition commit_update :: "('st, 'g) RaftNode \<Rightarrow> ('st, 'g) RaftNode \<Rightarrow> bool" where
  "commit_update n n' \<longleftrightarrow>
     n' = n\<lparr>commit_index := commit_index n', last_applied := last_applied n',
            committed_entries := committed_entries n'\<rparr>"

lemma commit_update_fields:
  assumes "commit_update n n'"
  shows "node_state n' = node_state n" "current_term n' = current_term n" "rlog n' = rlog n"
    "node_config n' = node_config n" "members n' = members n" "match_index n' = match_index n"
    "next_index n' = next_index n" "append_request_id n' = append_request_id n" "outbox n' = outbox n"
  by (subst assms [unfolded commit_update_def], simp)+

lemma settled_iff:
  assumes "match_index n' = match_index n" "node_config n' = node_config n" "members n' = members n"
  shows "settled c e n' \<longleftrightarrow>
    e \<in> set (committed_entries n') \<or>
    commit_index n' < c \<and> \<not> quorum_size_locked n \<le> Suc (length (replicas n c))"
  using assms by (simp add: settled_def replicas_def quorum_size_locked_def)

lemma advance_settles:
  assumes p: "\<And>p. p \<in> set (peers n) \<Longrightarrow> match_index n p \<noteq> None"
    and la: "last_applied n \<le> commit_index n" and len: "rlog n \<noteq> []" "length (rlog n) < 2 ^ 64"
    and l: "le_term (last (rlog n)) = current_term n" "\<not> le_is_no_op (last (rlog n))"
    and c: "commit_index n < last_log_index_locked n \<or> last_entry n \<in> set (committed_entries n)"
  shows "\<exists>b n'. advance_commit_index_locked n = Ret b n' \<and> commit_update n n' \<and>
    settled (last_log_index_locked n) (last_entry n) n'"
proof -
  let ?c = "last_log_index_locked n"
  have u: "unat ?c = length (rlog n) - 1"
    using len by (simp add: last_log_index_locked_def unat_last_index)
  then have at: "rlog n ! unat ?c = last (rlog n)" using len(1) by (simp add: last_conv_nth)
  have com: "committable n ?c \<longleftrightarrow> quorum_size_locked n \<le> Suc (length (replicas n ?c))"
    using l(1) at by (simp add: committable_def)
  have "(\<exists>j. commit_index n < j \<and> j \<le> ?c \<and> committable n j \<and>
            (\<forall>j'. j < j' \<and> j' \<le> ?c \<longrightarrow> \<not> committable n j') \<and>
            advance_commit_loop n ?c = Ret True (deliver (n\<lparr>commit_index := j\<rparr>))) \<or>
         ((\<forall>j. commit_index n < j \<and> j \<le> ?c \<longrightarrow> \<not> committable n j) \<and>
            advance_commit_loop n ?c = Ret False n)"
    by (rule advance_commit_loop_spec [OF p la]) (use u len in auto)
  then consider (up) j where "commit_index n < j" "j \<le> ?c" "\<forall>j'. j < j' \<and> j' \<le> ?c \<longrightarrow> \<not> committable n j'"
      "advance_commit_index_locked n = Ret True (deliver (n\<lparr>commit_index := j\<rparr>))"
    | (stay) "\<forall>j. commit_index n < j \<and> j \<le> ?c \<longrightarrow> \<not> committable n j" "advance_commit_index_locked n = Ret False n"
    unfolding advance_commit_index_locked_def by blast
  then show ?thesis
  proof cases
    case up
    let ?n' = "deliver (n\<lparr>commit_index := j\<rparr>)"
    have cu: "commit_update n ?n'" by (simp add: commit_update_def deliver_def)
    have "last_entry n \<in> set (committed_between (rlog n) (unat (last_applied n)) (unat ?c))"
      if "j = ?c"
      unfolding in_committed_between
      using la up(1) that l(2) at
      by (intro exI [of _ "unat ?c"])
        (auto simp: last_entry_def last_log_index_locked_def word_less_nat_alt word_le_nat_alt)
    then have "settled ?c (last_entry n) ?n'"
      using up com c
      unfolding settled_iff [OF commit_update_fields(6,4,5) [OF cu]]
      by (cases "j = ?c") (auto simp: deliver_def)
    then show ?thesis using up(4) cu by blast
  next
    case stay
    then have "settled ?c (last_entry n) n" using c com by (auto simp: settled_def)
    then show ?thesis using stay(2) by (auto simp: commit_update_def)
  qed
qed

section \<open>The leader's operations\<close>

definition leader_wf :: "('st, 'g) RaftNode \<Rightarrow> bool" where
  "leader_wf n \<longleftrightarrow>
     node_state n = Leader \<and> (\<forall>p \<in> set (peers n). progress_ok n p) \<and> distinct (peers n) \<and>
     last_applied n \<le> commit_index n \<and> unat (commit_index n) < length (rlog n) \<and>
     length (rlog n) + 2 < 2 ^ 64"

text \<open>The last entry is a command of the current term.\<close>

definition proposed :: "('st, 'g) RaftNode \<Rightarrow> bool" where
  "proposed n \<longleftrightarrow>
     le_term (last (rlog n)) = current_term n \<and> \<not> le_is_no_op (last (rlog n)) \<and>
     settled (last_log_index_locked n) (last_entry n) n"

lemma leader_wf_last:
  "leader_wf n \<Longrightarrow> rlog n \<noteq> [] \<and> unat (last_log_index_locked n) = length (rlog n) - 1"
  by (cases "rlog n = []") (simp_all add: leader_wf_def last_log_index_locked_def unat_last_index)

lemma broadcast_asks:
  assumes "\<forall>p \<in> set (peers n). progress_ok n p" "distinct (peers n)"
  shows "\<exists>ids out. broadcast_append_entries_locked n =
      Ret () (n\<lparr>append_request_id := ids, outbox := outbox n @ out\<rparr>) \<and>
    (\<forall>p \<in> set (peers n). asked (n\<lparr>append_request_id := ids\<rparr>) p (set out))"
  unfolding broadcast_append_entries_locked_def
  using send_append_to_asked [of "peers n" n] assms by blast

lemma proposed_cong:
  "proposed n \<Longrightarrow> same_role n n' \<Longrightarrow> members n' = members n \<Longrightarrow> match_index n' = match_index n \<Longrightarrow>
   commit_index n' = commit_index n \<Longrightarrow> committed_entries n' = committed_entries n \<Longrightarrow> proposed n'"
  by (auto simp: proposed_def same_role_def settled_def replicas_def quorum_size_locked_def
      last_log_index_locked_def last_entry_def)

lemma progress_update:
  "progress_ok n p \<Longrightarrow> rlog n' = rlog n \<Longrightarrow> next_index n' = next_index n \<Longrightarrow> match_index n' = match_index n \<Longrightarrow>
   progress_ok n' p"
  by (simp add: progress_ok_def)

lemma advance_proposed:
  assumes wf: "leader_wf n"
    and l: "le_term (last (rlog n)) = current_term n" "\<not> le_is_no_op (last (rlog n))"
      "commit_index n < last_log_index_locked n \<or> last_entry n \<in> set (committed_entries n)"
  shows "\<exists>b n' ids out. advance_commit_index_locked n = Ret b n' \<and> commit_update n n' \<and> proposed n' \<and>
    broadcast_append_entries_locked n' = Ret () (n'\<lparr>append_request_id := ids, outbox := outbox n' @ out\<rparr>)"
proof -
  have p: "match_index n p \<noteq> None" if "p \<in> set (peers n)" for p
    using wf that by (auto simp: leader_wf_def progress_ok_def)
  obtain b n' where n': "advance_commit_index_locked n = Ret b n'" "commit_update n n'"
    "settled (last_log_index_locked n) (last_entry n) n'"
    using advance_settles [OF p _ _ _ l] wf leader_wf_last [OF wf] by (auto simp: leader_wf_def)
  note f = commit_update_fields [OF n'(2)]
  have "proposed n'"
    using n'(3) l f by (simp add: proposed_def last_log_index_locked_def last_entry_def)
  moreover have "\<forall>p \<in> set (peers n'). progress_ok n' p" "distinct (peers n')"
    using wf f by (auto simp: leader_wf_def intro: progress_update)
  ultimately show ?thesis using n' broadcast_asks [of n'] by blast
qed

lemma heartbeat_asks:
  assumes wf: "leader_wf n" and "proposed n"
  shows "\<exists>el n'. tick E n el = Ret () n' \<and> same_role n n' \<and> match_index n' = match_index n \<and> proposed n' \<and>
    (\<forall>p \<in> set (peers n). asked n' p (set (outbox n')))"
proof -
  let ?n = "n\<lparr>heartbeat_elapsed := 0\<rparr>" and ?el = "max 0 (cfg_heartbeat_interval (node_config n) - heartbeat_elapsed n)"
  have "\<forall>p \<in> set (peers ?n). progress_ok ?n p" "distinct (peers ?n)"
    using wf by (auto simp: leader_wf_def progress_ok_def)
  then obtain ids out where s: "broadcast_append_entries_locked ?n =
      Ret () (?n\<lparr>append_request_id := ids, outbox := outbox ?n @ out\<rparr>)"
    and a: "\<forall>p \<in> set (peers ?n). asked (?n\<lparr>append_request_id := ids\<rparr>) p (set out)"
    using broadcast_asks by blast
  have "tick E n ?el = Ret () (?n\<lparr>append_request_id := ids, outbox := outbox ?n @ out\<rparr>)"
    using wf s by (auto simp: tick_def leader_wf_def)
  moreover have "proposed (?n\<lparr>append_request_id := ids, outbox := outbox ?n @ out\<rparr>)"
    using assms(2) by (rule proposed_cong) (simp_all add: same_role_def)
  ultimately show ?thesis
    using a by (intro exI [of _ ?el] exI [of _ "?n\<lparr>append_request_id := ids, outbox := outbox ?n @ out\<rparr>"])
      (auto simp: same_role_def asked_def append_request_for_def)
qed

lemma success_matches:
  assumes wf: "leader_wf n" and pr: "proposed n" and fr: "from \<in> set (peers n)"
    and r: "aer_success r" "aer_term r = current_term n" "aer_match_index r = last_log_index_locked n"
  shows "\<exists>n'. handle_append_entries_response_locked n from r = Ret () n' \<and> same_role n n' \<and>
    match_index n' = (match_index n)(from \<mapsto> last_log_index_locked n) \<and> proposed n'"
proof -
  let ?c = "last_log_index_locked n"
  note last = leader_wf_last [OF wf]
  obtain nx m where m: "next_index n from = Some nx" "0 < nx" "unat nx \<le> length (rlog n)"
    "match_index n from = Some m" "unat m < length (rlog n)"
    using wf fr by (auto simp: leader_wf_def progress_ok_def)
  have mx: "max m ?c = ?c" using m(5) last by (auto simp: max_def word_le_nat_alt)
  have u: "unat (?c + 1) = length (rlog n)" using last wf by (simp add: leader_wf_def unat_plus_one_u64)
  define n2 where "n2 = n\<lparr>match_index := (match_index n)(from \<mapsto> ?c),
    next_index := (next_index n)(from \<mapsto> max nx (?c + 1))\<rparr>"
  have "progress_ok n2 p" if "p \<in> set (peers n)" for p
    using wf that m u last by (cases "p = from")
      (auto simp: n2_def leader_wf_def progress_ok_def max_def less_le_trans)
  then have wf2: "leader_wf n2" using wf by (simp add: n2_def leader_wf_def)
  have "commit_index n2 < last_log_index_locked n2 \<or> last_entry n2 \<in> set (committed_entries n2)"
    using pr by (auto simp: n2_def proposed_def settled_def last_log_index_locked_def last_entry_def)
  then obtain b n3 ids out where n3: "advance_commit_index_locked n2 = Ret b n3" "commit_update n2 n3" "proposed n3"
    "broadcast_append_entries_locked n3 = Ret () (n3\<lparr>append_request_id := ids, outbox := outbox n3 @ out\<rparr>)"
    using advance_proposed [OF wf2] pr by (auto simp: n2_def proposed_def)
  note f = commit_update_fields [OF n3(2)]
  have sr: "same_role n n3" "match_index n3 = (match_index n)(from \<mapsto> ?c)"
    using f by (simp_all add: same_role_def n2_def)
  have "handle_append_entries_response_locked n from r =
      (if b then Ret () (n3\<lparr>append_request_id := ids, outbox := outbox n3 @ out\<rparr>) else Ret () n3)"
    using r wf m mx n3(1,4) sr f(3)
    by (simp add: handle_append_entries_response_locked_def handle_append_success_def Let_def leader_wf_def
        n2_def [symmetric] last_log_index_locked_def n2_def)
  moreover have "proposed (n3\<lparr>append_request_id := ids, outbox := outbox n3 @ out\<rparr>)"
    using n3(3) by (rule proposed_cong) (simp_all add: same_role_def)
  ultimately show ?thesis using n3(3) sr by (cases b) (auto simp: same_role_def)
qed

text \<open>
  A refusal that names an index or a term before the previous entry of the request makes the leader
  continue from an earlier index.
\<close>

definition refusal :: "('st, 'g) RaftNode \<Rightarrow> NodeId \<Rightarrow> AppendEntriesResponse \<Rightarrow> bool" where
  "refusal n from r \<longleftrightarrow>
     \<not> aer_success r \<and> append_request_id n from = Some (aer_request_id r) \<and>
     (\<exists>nx m. next_index n from = Some nx \<and> match_index n from = Some m \<and>
        Suc (unat m) < unat nx \<and> 0 < aer_conflict_index r \<and> aer_conflict_index r < nx \<and>
        (\<forall>t x. aer_conflict_term r = Some t \<and> x < length (rlog n) \<and> le_term (rlog n ! x) = t \<longrightarrow> Suc x < unat nx))"

lemma conflict_search:
  assumes "unat c < length entries"
  shows "\<exists>found. (case ct of None \<Rightarrow> Inr None | Some t \<Rightarrow> last_index_of_term entries t c) = Inr found \<and>
    (\<forall>x. found = Some x \<longrightarrow> x \<le> c \<and> ct = Some (le_term (entries ! unat x)))"
proof (cases ct)
  case (Some t)
  then show ?thesis using last_index_of_term_spec [OF assms, of t] by auto
qed simp

definition retry_index :: "('st, 'g) RaftNode \<Rightarrow> AppendEntriesResponse \<Rightarrow> LogIndex option \<Rightarrow> LogIndex \<Rightarrow> LogIndex" where
  "retry_index n r found m =
     max (clamp_u64 (case found of None \<Rightarrow> aer_conflict_index r | Some x \<Rightarrow> x + 1) 1
            (last_log_index_locked n + 1)) (m + 1)"

lemma retry_index_less:
  assumes nx: "unat nx \<le> length (rlog n)" "length (rlog n) < 2 ^ 64" and m: "Suc (unat m) < unat nx"
    and c: "0 < aer_conflict_index r" "aer_conflict_index r < nx"
    and f: "\<And>x. found = Some x \<Longrightarrow> Suc (unat x) < unat nx"
  shows "0 < retry_index n r found m" "retry_index n r found m < nx"
proof -
  define nxt where "nxt = (case found of None \<Rightarrow> aer_conflict_index r | Some x \<Rightarrow> x + 1)"
  have Suc: "unat (x + 1) = Suc (unat x)" if "Suc (unat x) < unat nx" for x :: u64
    using that nx by (simp add: unat_plus_one_u64)
  have nlt: "0 < unat nxt \<and> unat nxt < unat nx"
    using c f Suc by (cases found) (auto simp: nxt_def word_less_nat_alt)
  then have "\<not> nxt < 1" by (simp add: word_less_nat_alt)
  then have "unat (clamp_u64 nxt 1 (last_log_index_locked n + 1)) \<le> unat nxt"
    by (auto simp: clamp_u64_def word_less_nat_alt)
  then show "0 < retry_index n r found m" "retry_index n r found m < nx"
    using nlt m Suc [OF m]
    by (simp_all add: retry_index_def nxt_def [symmetric] max_def word_less_nat_alt word_le_nat_alt)
qed

lemma failure_retries:
  assumes wf: "leader_wf n" and pr: "proposed n" and fr: "from \<in> set (peers n)"
    and r: "refusal n from r" "aer_term r = current_term n"
  shows "\<exists>n' nx nx'. handle_append_entries_response_locked n from r = Ret () n' \<and> same_role n n' \<and>
    match_index n' = match_index n \<and> proposed n' \<and> asked n' from (set (outbox n')) \<and>
    next_index n from = Some nx \<and> next_index n' from = Some nx' \<and> nx' < nx"
proof -
  obtain nx m where m: "next_index n from = Some nx" "match_index n from = Some m" "Suc (unat m) < unat nx"
    "0 < aer_conflict_index r" "aer_conflict_index r < nx" "append_request_id n from = Some (aer_request_id r)"
    "\<not> aer_success r"
    "\<And>t x. aer_conflict_term r = Some t \<Longrightarrow> x < length (rlog n) \<Longrightarrow> le_term (rlog n ! x) = t \<Longrightarrow> Suc x < unat nx"
    using r(1) unfolding refusal_def by blast
  have nx: "unat nx \<le> length (rlog n)" "length (rlog n) < 2 ^ 64"
    using wf fr m(1) by (auto simp: leader_wf_def progress_ok_def)
  have rng: "unat (last_log_index_locked n) < length (rlog n)" using leader_wf_last [OF wf] by simp
  obtain found where found: "(case aer_conflict_term r of None \<Rightarrow> Inr None
      | Some t \<Rightarrow> last_index_of_term (rlog n) t (last_log_index_locked n)) = Inr found"
    and f: "\<And>x. found = Some x \<Longrightarrow> x \<le> last_log_index_locked n \<and> aer_conflict_term r = Some (le_term (rlog n ! unat x))"
    using conflict_search [OF rng] by metis
  have "Suc (unat x) < unat nx" if "found = Some x" for x
    using f [OF that] rng m(8) by (auto simp: word_le_nat_alt)
  note lt = retry_index_less [where found = found, OF nx m(3-5) this]
  define nx' where "nx' = retry_index n r found m"
  define n2 where "n2 = n\<lparr>next_index := (next_index n)(from \<mapsto> nx')\<rparr>"
  have "unat nx' \<le> length (rlog n2)" using lt nx by (simp add: n2_def nx'_def word_less_nat_alt)
  then obtain ids rid where s: "send_append_entries_locked n2 from =
      Ret () (n2\<lparr>append_request_id := ids, outbox := outbox n2 @ [Message (node_id n2) from
        (RpcAppendEntriesRequest (append_request_for n2 nx' rid))]\<rparr>)" (is "_ = Ret () ?n'")
    and ids: "ids from = Some rid"
    using send_append_fresh [of n2 "from" nx'] lt by (auto simp: n2_def nx'_def)
  have same: "n\<lparr>append_request_id := append_request_id n\<rparr> = n" "n\<lparr>match_index := match_index n\<rparr> = n" by simp_all
  have "handle_append_failure n from r = send_append_entries_locked n2 from"
    using m(2,6) found by (simp add: handle_append_failure_def same retry_index_def nx'_def n2_def)
  then have "handle_append_entries_response_locked n from r = Ret () ?n'"
    using s r(2) wf m(7) by (simp add: handle_append_entries_response_locked_def leader_wf_def)
  moreover have "same_role n ?n'" "match_index ?n' = match_index n" by (simp_all add: n2_def same_role_def)
  moreover have "proposed ?n'" using pr by (rule proposed_cong) (simp_all add: n2_def same_role_def)
  moreover have "asked ?n' from (set (outbox ?n'))" "next_index ?n' from = Some nx'"
    using ids by (auto simp: asked_def n2_def append_request_for_def)
  ultimately show ?thesis using m(1) lt(2) unfolding nx'_def [symmetric] by blast
qed

end
