(* ===== verification/RaftProgress.thy ===== *)
theory RaftProgress
  imports RaftReplication
begin

text \<open>
  The consensus core makes progress: from every reachable state the members of any majority can elect
  a leader, bring their logs in line with its log and deliver a command, while the other members do
  nothing. A refused request lowers the index the leader continues from, so the repair of a log ends.
\<close>

context live_cluster
begin

section \<open>A leader and its followers\<close>

lemma good_leader:
  assumes g: "good k s" and k: "k + 3 < 2 ^ 64" and i: "i \<in> set ms" and ld: "node_state (nodes s i) = Leader"
  shows "leader_wf (nodes s i)"
proof -
  obtain a where a: "related k a s" using g by (auto simp: good_def)
  then have ok: "ok a i (nodes s i)" and ab: "abounded k k a"
    using i by (auto simp: related_def cluster_ok_def)
  have "progress_ok (nodes s i) p" if "p \<in> set (peers (nodes s i))" for p
    using that config(2) [OF ok i] leaderD(3) [OF ok ld] progress_of_peer [OF ok] by auto
  then show ?thesis
    using ld config(3) [OF ok i] related_node [OF a i] aboundedD(2) [OF ab, of i] k ok
    by (auto simp: leader_wf_def commit_ok_def node_ok_def applied_ok_def)
qed

lemma good_progress:
  assumes "good k s" "k + 3 < 2 ^ 64" "i \<in> set ms" "node_state (nodes s i) = Leader" "j \<in> set ms" "j \<noteq> i"
  shows "progress_ok (nodes s i) j"
  using good_leader [OF assms(1-4)] good_node(2) [OF assms(1,3,2)] assms(5,6) by (auto simp: leader_wf_def)

lemma entry_terms:
  assumes g: "good k s" and i: "i \<in> set ms" and e: "e \<in> set (tl (rlog (nodes s i)))"
  shows "0 < le_term e \<and> le_term e \<le> current_term (nodes s i)"
proof -
  obtain a where a: "related k a s" using g by (auto simp: good_def)
  then have ia: "inv a" by (simp add: related_def)
  show ?thesis
    using e related_node [OF a i] wflog_terms(2) [OF ia ainv_nodeD(1) [OF ia], of e i] ainv_nodeD(2) [OF ia, of e i]
    by auto
qed

text \<open>Two logs that have an entry of the same term somewhere agree up to the first of the two.\<close>

lemma terms_agree:
  assumes g: "good k s" and i: "i \<in> set ms" and j: "j \<in> set ms"
    and x: "x < length (rlog (nodes s i))" "y < length (rlog (nodes s j))" "0 < y" "y \<le> x"
    and t: "le_term (rlog (nodes s i) ! x) = le_term (rlog (nodes s j) ! y)"
  shows "rlog (nodes s i) ! y = rlog (nodes s j) ! y"
proof -
  obtain a where a: "related k a s" using g by (auto simp: good_def)
  then have ia: "inv a" by (simp add: related_def)
  note A = related_node(1) [OF a i] and B = related_node(1) [OF a j]
  let ?ll = "llog a (le_term (rlog (nodes s j) ! y))"
  have "prefix (take (Suc (x - 1)) (alog a i)) ?ll"
    using wflogD [OF ainv_nodeD(1) [OF ia], of "x - 1" i] x t A by simp
  then have "take (Suc (x - 1)) (alog a i) ! (y - 1) = ?ll ! (y - 1)"
    using x A by (intro prefix_nth [symmetric]) auto
  moreover have "prefix (take (Suc (y - 1)) (alog a j)) ?ll"
    using wflogD [OF ainv_nodeD(1) [OF ia], of "y - 1" j] x B by simp
  then have "take (Suc (y - 1)) (alog a j) ! (y - 1) = ?ll ! (y - 1)"
    using x B by (intro prefix_nth [symmetric]) auto
  ultimately show ?thesis using x A B by simp
qed

text \<open>A follower in the leader's term has what the leader believes it has.\<close>

lemma match_agrees:
  assumes g: "good k s" and i: "i \<in> set ms" and j: "j \<in> set ms" "j \<noteq> i"
    and ld: "node_state (nodes s i) = Leader" and t: "current_term (nodes s j) = current_term (nodes s i)"
    and m: "match_index (nodes s i) j = Some m"
  shows "unat m < length (rlog (nodes s j)) \<and>
    (\<forall>x \<le> unat m. rlog (nodes s j) ! x = rlog (nodes s i) ! x)"
proof -
  obtain a where a: "related k a s" using g by (auto simp: good_def)
  then have ia: "inv a" and ok: "ok a i (nodes s i)" using i by (auto simp: related_def cluster_ok_def)
  note A = related_node [OF a i] and B = related_node [OF a j(1)] and L = leaderD [OF ok ld]
  have p: "m = 0 \<or> (j, cur a i, unat m) \<in> acks a" "unat m \<le> length (alog a i)"
    using L(3) [OF j] m by (auto simp: peer_ok_def)
  have "prefix (take (unat m) (alog a i)) (alog a j)"
  proof (cases "m = 0")
    case False
    have "\<not> lost a (cur a i) (unat m) (cur a j)" using t A(2) B(2) by (auto simp: lost_def)
    then show ?thesis using ainv_acksD [OF ia, of j "cur a i" "unat m"] p False L(2) by auto
  qed simp
  then obtain rest where "alog a j = take (unat m) (alog a i) @ rest" by (auto elim: prefixE)
  then show ?thesis
    using A(1) B(1) p(2) by (auto simp: nth_append nth_Cons split: nat.splits)
qed

section \<open>The follower's answer\<close>

lemma append_and_commit_reply:
  assumes r: "append_and_commit E n from r = Ret u n'"
    and s: "scan_entries (rlog n) (commit_index n) (aeq_previous_log_index r + 1) (aeq_entries r) = ScanDone l rest tr"
  defines "matched \<equiv> aeq_previous_log_index r + of_nat (length (aeq_entries r))"
  shows "Message (node_id n) from (RpcAppendEntriesResponse (AppendEntriesResponse (current_term n) True
      matched (matched + 1) None (aeq_request_id r))) \<in> set (outbox n')"
proof -
  have ap: "current_term n3 = current_term n2 \<and> node_config n3 = node_config n2"
    if "apply_committed_entries_locked n2 = Ret v n3" for n2 n3 :: "('st, 'g) RaftNode" and v
    using apply_quiet [of n2 n2] that by (simp add: same_role_def)
  show ?thesis
    using r unfolding append_and_commit_def s scan_result.case Let_def
    by (auto simp: and_then_eq_Ret send_locked_def matched_def split: if_splits dest!: ap)
qed

text \<open>What a refused request says about the two logs.\<close>

lemma refused:
  assumes g: "good k s" and k: "k + 3 < 2 ^ 64" and i: "i \<in> set ms" and j: "j \<in> set ms" "j \<noteq> i"
    and ld: "node_state (nodes s i) = Leader" and tj: "current_term (nodes s j) = current_term (nodes s i)"
    and nx: "next_index (nodes s i) j = Some nx" "append_request_id (nodes s i) j = Some rid"
    and p: "unat nx = Suc p" "0 < p"
    and differ: "p < length (rlog (nodes s j)) \<Longrightarrow> le_term (rlog (nodes s j) ! p) \<noteq> le_term (rlog (nodes s i) ! p)"
    and r: "\<not> aer_success r" "aer_request_id r = rid" "0 < aer_conflict_index r" "aer_conflict_index r < nx"
    and ct: "\<And>t. aer_conflict_term r = Some t \<Longrightarrow> p < length (rlog (nodes s j)) \<and> t = le_term (rlog (nodes s j) ! p)"
  shows "refusal (nodes s i) j r"
proof -
  obtain m where m: "match_index (nodes s i) j = Some m"
    using good_progress [OF g k i ld j] by (auto simp: progress_ok_def)
  note agree = match_agrees [OF g i j ld tj m]
  have "unat m < p"
  proof (rule ccontr)
    assume "\<not> unat m < p"
    then show False using agree differ by auto
  qed
  moreover have "Suc x < unat nx"
    if "aer_conflict_term r = Some t" "x < length (rlog (nodes s i))" "le_term (rlog (nodes s i) ! x) = t" for t x
  proof (rule ccontr)
    assume "\<not> Suc x < unat nx"
    then have "p \<le> x" using p(1) by simp
    then have "rlog (nodes s i) ! p = rlog (nodes s j) ! p"
      using that ct [OF that(1)] by (intro terms_agree [OF g i j(1) that(2)]) (use p in auto)
    then show False using differ ct [OF that(1)] by simp
  qed
  ultimately show ?thesis using m nx r p(1) by (auto simp: refusal_def)
qed

text \<open>A request whose previous entry the follower has continues a common prefix of the two logs.\<close>

lemma request_fits:
  assumes a: "related k a s" and i: "i \<in> set ms" and j: "j \<in> set ms"
    and ld: "node_state (nodes s i) = Leader" and tj: "current_term (nodes s j) = current_term (nodes s i)"
    and p: "p < length (rlog (nodes s i))" "p < length (rlog (nodes s j))"
      "p = 0 \<or> le_term (rlog (nodes s j) ! p) = le_term (rlog (nodes s i) ! p)"
  shows "fits a j (alog a i) p (drop (Suc p) (rlog (nodes s i)))"
proof -
  have ia: "inv a" using a by (auto simp: related_def)
  note A = related_node [OF a i] and B = related_node [OF a j]
  have L: "lead a (cur a j) = Some i" "llog a (cur a j) = alog a i" using A(2,4) B(2) ld tj by auto
  have "take p (alog a j) = take p (alog a i)"
  proof (cases p)
    case (Suc p')
    have "take (Suc p') (alog a j) = take (Suc p') (alog a i)"
      by (rule wflog_matching) (use Suc p A(1) B(1) ainv_nodeD(1) [OF ia] in auto)
    then show ?thesis using Suc by simp
  qed simp
  then show ?thesis using L p A(1) B(1) by (simp add: fits_def)
qed

lemma request_end:
  assumes "unat nx = Suc p" "unat nx \<le> length l"
  shows "nx - 1 + of_nat (length (drop (Suc p) l)) = last_index l"
proof -
  have nx: "nx = of_nat (Suc p)" using assms(1) [symmetric] by simp
  have "(of_nat (length l - Suc p) :: u64) = of_nat (length l) - nx"
    unfolding nx by (rule of_nat_diff) (use assms in simp)
  then show ?thesis unfolding length_drop by (simp add: last_index_def)
qed

lemma checked_answer:
  assumes g: "good k s" and k: "k + 3 < 2 ^ 64" and i: "i \<in> set ms" and j: "j \<in> set ms" "j \<noteq> i"
    and ld: "node_state (nodes s i) = Leader" and tj: "current_term (nodes s j) = current_term (nodes s i)"
    and nx: "next_index (nodes s i) j = Some nx" "append_request_id (nodes s i) j = Some rid"
    and a: "related k a s" and n: "ok a j n" "rlog n = rlog (nodes s j)" "current_term n = current_term (nodes s j)"
    and c: "append_checked n i (append_request_for (nodes s i) nx rid) = Ret () n'"
    and mo: "msg_ok a (Message i j (RpcAppendEntriesRequest (append_request_for (nodes s i) nx rid)))"
  shows "\<exists>r. Message j i (RpcAppendEntriesResponse r) \<in> set (outbox n') \<and> aer_term r = current_term (nodes s i) \<and>
    (aer_success r \<and> aer_match_index r = last_log_index_locked (nodes s i) \<or> refusal (nodes s i) j r)"
proof -
  let ?l = "rlog (nodes s i)" and ?r = "append_request_for (nodes s i) nx rid"
  define p where "p = unat (nx - 1)"
  have b: "0 < nx" "unat nx \<le> length ?l"
    using good_progress [OF g k i ld j] nx(1) by (auto simp: progress_ok_def)
  have u: "unat nx = Suc p" unfolding p_def by (rule unat_Suc_pred) fact
  have rf: "aeq_previous_log_index ?r = nx - 1" "aeq_entries ?r = drop (Suc p) ?l" "aeq_term ?r = cur a j"
    "aeq_previous_log_term ?r = le_term (?l ! p)" "aeq_request_id ?r = rid"
    using u tj related_node(2) [OF a j(1)] by (simp_all add: append_request_for_def p_def)
  have ab: "abounded k k a" and ia: "inv a" using a by (auto simp: related_def)
  note A = related_node [OF a i] and B = related_node [OF a j(1)]
  have id: "node_id n = j" using config(1) [OF n(1) j(1)] .
  have last: "unat (last_log_index_locked n) = length (alog a j)"
    using unat_last_log_index [OF n(1) ab] k by simp
  note refused = refused [OF g k i j ld tj nx u]
  consider (long) "last_log_index_locked n < nx - 1"
    | (differ) "0 < p" "p < length (rlog n)" "le_term (rlog n ! p) \<noteq> le_term (?l ! p)"
    | (same) "p < length (rlog n)" "p = 0 \<or> le_term (rlog n ! p) = le_term (?l ! p)"
    using last n(2) B(1) unfolding word_less_nat_alt p_def [symmetric] by fastforce
  then show ?thesis
  proof cases
    case long
    let ?c = "last_log_index_locked n + 1"
    let ?resp = "AppendEntriesResponse (current_term n) False 0 ?c None rid"
    have lt: "length (alog a j) < p" using long last by (simp add: word_less_nat_alt p_def)
    have uc: "unat ?c = Suc (length (alog a j))" using last B(1) aboundedD(2) [OF ab, of j] k by (simp add: unat_plus_one_u64)
    have "refusal (nodes s i) j ?resp"
      by (rule refused) (use lt uc u B(1) in \<open>auto simp: word_less_nat_alt\<close>)
    moreover have "Message j i (RpcAppendEntriesResponse ?resp) \<in> set (outbox n')"
      using c long id by (auto simp: append_checked_def rf reject_append_def send_locked_def)
    ultimately show ?thesis using n(3) tj by (intro exI [of _ ?resp]) simp
  next
    case differ
    have pos: "0 < nx - 1" using differ(1) by (simp add: p_def word_less_nat_alt)
    obtain x where x: "first_index_of_term (rlog n) (le_term (rlog n ! p)) (nx - 1) = Some x" "0 < x" "x \<le> nx - 1"
      using first_index_of_term_spec [OF differ(2) [unfolded p_def] pos refl] by (auto simp: p_def)
    let ?resp = "AppendEntriesResponse (current_term n) False 0 x (Some (le_term (rlog n ! p))) rid"
    have "refusal (nodes s i) j ?resp"
      by (rule refused) (use differ x u n(2) in \<open>auto simp: word_less_nat_alt word_le_nat_alt p_def\<close>)
    moreover have "\<not> last_log_index_locked n < nx - 1"
      using differ(2) last n(2) B(1) by (simp add: word_less_nat_alt p_def)
    then have "Message j i (RpcAppendEntriesResponse ?resp) \<in> set (outbox n')"
      using c id pos differ x(1) by (auto simp: append_checked_def rf reject_append_def send_locked_def p_def)
    ultimately show ?thesis using n(3) tj by (intro exI [of _ ?resp]) simp
  next
    case same
    have f: "fits a j (alog a i) p (aeq_entries ?r)"
      unfolding rf(2) using same b u n(2) by (intro request_fits [OF a i j(1) ld tj]) auto
    have "append_and_commit E n i ?r = Ret () n'"
      using c same last n(2) B(1) by (auto simp: append_checked_def rf word_less_nat_alt p_def split: if_splits)
    moreover obtain l rest tr where "scan_entries (rlog n) (commit_index n) (aeq_previous_log_index ?r + 1) (aeq_entries ?r) = ScanDone l rest tr"
      using scan_fits [OF ia n(1) ab _ f, of "aeq_previous_log_index ?r + 1"] k u by (auto simp: rf)
    moreover have "nx - 1 + of_nat (length (aeq_entries ?r)) = last_index ?l"
      unfolding rf(2) by (rule request_end [OF u b(2)])
    ultimately have "Message j i (RpcAppendEntriesResponse (AppendEntriesResponse (current_term n) True
        (last_index ?l) (last_index ?l + 1) None rid)) \<in> set (outbox n')"
      using append_and_commit_reply [of n i ?r "()" n'] id by (simp add: rf(1,5))
    then show ?thesis using n(3) tj by (intro exI) (auto simp: last_log_index_locked_def)
  qed
qed

lemma append_answer:
  assumes g: "good k s" and k: "k + 3 < 2 ^ 64" and i: "i \<in> set ms" and j: "j \<in> set ms" "j \<noteq> i"
    and ld: "node_state (nodes s i) = Leader" and tj: "current_term (nodes s j) = current_term (nodes s i)"
    and nx: "next_index (nodes s i) j = Some nx" "append_request_id (nodes s i) j = Some rid"
    and m: "Message i j (RpcAppendEntriesRequest (append_request_for (nodes s i) nx rid)) \<in> sent s"
      (is "?m \<in> _")
  shows "\<exists>n' r. step E (nodes s j) ?m = Ret True n' \<and> Message j i (RpcAppendEntriesResponse r) \<in> set (outbox n') \<and>
    aer_term r = current_term (nodes s i) \<and>
    (aer_success r \<and> aer_match_index r = last_log_index_locked (nodes s i) \<or> refusal (nodes s i) j r)"
proof -
  let ?ni = "nodes s i" and ?nj = "nodes s j" and ?r = "append_request_for (nodes s i) nx rid"
  note ci = good_node [OF g i k] and cj = good_node [OF g j(1) k]
  have b: "0 < nx" using good_progress [OF g k i ld j] nx(1) by (auto simp: progress_ok_def)
  have rf: "aeq_leader_id ?r = i" "aeq_term ?r = current_term ?nj" "aeq_entries ?r = drop (unat nx) (rlog ?ni)"
    using ci(1) tj by (simp_all add: append_request_for_def)
  have "set (aeq_entries ?r) \<subseteq> set (tl (rlog ?ni))"
    unfolding rf(3) unat_Suc_pred [OF b] by (simp add: drop_Suc set_drop_subset)
  then have ne: "\<not> list_ex (\<lambda>entry. le_term entry = 0 \<or> le_term entry > aeq_term ?r) (aeq_entries ?r)"
    using entry_terms [OF g i] rf(2) tj by (fastforce simp: list_ex_iff not_less)
  obtain a where a: "related k a s" using g by (auto simp: good_def)
  have ok: "ok a j ?nj" and mo: "msg_ok a ?m" using a j(1) m by (auto simp: related_def cluster_ok_def)
  obtain n1 where n1: "ok a j n1" "rlog n1 = rlog ?nj" "current_term n1 = current_term ?nj"
    and H: "handle_append_entries_locked E ?nj i ?r = append_checked n1 i ?r"
    using handle_append_entries_current [OF ok rf(1,2) ne] by blast
  obtain bb n' where st: "step E ?nj ?m = Ret bb n'" using good_operations(2) [OF g j(1) k m] by blast
  then have st': "append_checked n1 i ?r = Ret () n'" "bb = True"
    using H cj(1,4) i j(2) rf(2)
    by (auto simp: step_def step_locked_def is_peer_locked_def message_term_def and_then_eq_Ret)
  show ?thesis
    using checked_answer [OF g k i j ld tj nx a n1 st'(1) mo] st st'(2) by blast
qed

section \<open>Exchanges\<close>

lemma apply_term:
  "apply_committed_entries_locked n = Ret u n' \<Longrightarrow> current_term n' = current_term n"
  using apply_quiet [of n n] by (simp add: same_role_def)

lemma append_and_commit_term:
  "append_and_commit E n from r = Ret u n' \<Longrightarrow> current_term n' = current_term n"
  by (auto simp: append_and_commit_def reject_append_def send_locked_def and_then_eq_Ret Let_def
      split: scan_result.splits if_splits dest!: apply_term)

lemma append_term:
  assumes "step E n (Message i j (RpcAppendEntriesRequest r)) = Ret b n'"
    and "node_id n = j" "i \<noteq> j" "i \<in> members n" "current_term n \<le> aeq_term r"
  shows "current_term n' = aeq_term r"
  using assms
  by (auto simp: step_def step_locked_def is_peer_locked_def message_term_def and_then_eq_Ret
      handle_append_entries_locked_def become_follower_locked_def Let_def reject_append_def send_locked_def
      split: if_splits option.splits dest!: append_and_commit_term)

definition replicating :: "NodeId \<Rightarrow> Term \<Rightarrow> LogEntry list \<Rightarrow> ('st, 'g) cluster \<Rightarrow> bool" where
  "replicating i t l s \<longleftrightarrow> leads i t s \<and> rlog (nodes s i) = l \<and> proposed (nodes s i)"

lemma respond:
  assumes "node_id n = i" "j \<noteq> i" "j \<in> members n" "aer_term r = current_term n"
    and "handle_append_entries_response_locked n j r = Ret () n'"
  shows "step E n (Message j i (RpcAppendEntriesResponse r)) = Ret True n'"
  using assms by (simp add: step_def step_locked_def is_peer_locked_def message_term_def)

lemma exchange:
  assumes g: "good k s" and k: "k + 5 < 2 ^ 64" and i: "i \<in> q" "i \<in> set ms" and j: "j \<in> q" "j \<in> set ms" "j \<noteq> i"
    and rp: "replicating i t l s" and tj: "current_term (nodes s j) = t"
    and as: "asked (nodes s i) j (sent s)" and nx: "next_index (nodes s i) j = Some nx"
  shows "\<exists>s'. runs q 2 s s' \<and> replicating i t l s' \<and> current_term (nodes s' j) = t \<and>
    (\<forall>p. p \<noteq> i \<and> p \<noteq> j \<longrightarrow> nodes s' p = nodes s p) \<and>
    (match_index (nodes s' i) = (match_index (nodes s i))(j \<mapsto> last_index l) \<or>
     match_index (nodes s' i) = match_index (nodes s i) \<and> asked (nodes s' i) j (sent s') \<and>
       (\<exists>nx'. next_index (nodes s' i) j = Some nx' \<and> nx' < nx))"
proof -
  let ?n = "nodes s i"
  have k3: "k + 3 < 2 ^ 64" using k by simp
  have ld: "node_state ?n = Leader" "current_term ?n = t" "rlog ?n = l" "proposed ?n"
    using rp by (auto simp: replicating_def leads_def)
  note wf = good_leader [OF g k3 i(2) ld(1)] and ci = good_node [OF g i(2) k3] and cj = good_node [OF g j(2) k3]
  obtain rid where rid: "append_request_id ?n j = Some rid"
    "Message i j (RpcAppendEntriesRequest (append_request_for ?n nx rid)) \<in> sent s" (is "?m \<in> _")
    using as nx ci(1) by (auto simp: asked_def)
  obtain n' r where a: "step E (nodes s j) ?m = Ret True n'" "Message j i (RpcAppendEntriesResponse r) \<in> set (outbox n')"
    "aer_term r = t" "aer_success r \<and> aer_match_index r = last_log_index_locked ?n \<or> refusal ?n j r"
    using append_answer [OF g k3 i(2) j(2,3) ld(1) _ nx rid] tj ld(2) by auto
  have tn: "current_term n' = t"
    using append_term [OF a(1)] cj(1,4) i(2) j(3) tj ld(2) by (simp add: append_request_for_def)
  define s1 where "s1 = with_node s j n' {}"
  have r1: "runs q 1 s s1" unfolding s1_def by (rule runs_deliver [OF j(1,2) rid(2) _ a(1)]) (use i in simp)
  have n1: "nodes s1 i = ?n" "Message j i (RpcAppendEntriesResponse r) \<in> sent s1"
    using j(3) a(2) by (simp_all add: s1_def)
  have jp: "j \<in> set (peers ?n)" using ci(2) j by simp
  obtain n'' where h: "handle_append_entries_response_locked ?n j r = Ret () n''" "same_role ?n n''" "proposed n''"
    and m: "match_index n'' = (match_index ?n)(j \<mapsto> last_log_index_locked ?n) \<or>
      match_index n'' = match_index ?n \<and> asked n'' j (set (outbox n'')) \<and>
        (\<exists>nx'. next_index n'' j = Some nx' \<and> nx' < nx)"
    using a(4) success_matches [OF wf ld(4) jp, of r] failure_retries [OF wf ld(4) jp, of r] a(3) ld(2) nx by auto
  have st: "step E (nodes s1 i) (Message j i (RpcAppendEntriesResponse r)) = Ret True n''"
    unfolding n1(1) by (rule respond [OF ci(1) j(3) _ _ h(1)]) (use ci(4) j a(3) ld(2) in auto)
  have "runs q 2 s (with_node s1 i n'' {})"
    by (rule within_trans [OF r1 runs_deliver [OF i n1(2) _ st]]) (use j in simp_all)
  moreover have "asked n'' j (set (outbox n'')) \<Longrightarrow> asked n'' j (sent s1 \<union> set (outbox n''))"
    by (auto simp: asked_def)
  ultimately show ?thesis
    using h(2,3) m ld tn j(3)
    by (intro exI [of _ "with_node s1 i n'' {}"])
      (auto simp: replicating_def leads_def same_role_def last_log_index_locked_def s1_def)
qed

text \<open>The exchanges end with a match: every refusal lowers the index of the next request.\<close>

lemma catch_up:
  assumes "good k s" "k + 2 * unat nx + 3 < 2 ^ 64" "i \<in> q" "i \<in> set ms" "j \<in> q" "j \<in> set ms" "j \<noteq> i"
    and "replicating i t l s" "current_term (nodes s j) = t"
    and "asked (nodes s i) j (sent s)" "next_index (nodes s i) j = Some nx"
  shows "\<exists>s'. runs q (2 * unat nx) s s' \<and> replicating i t l s' \<and> current_term (nodes s' j) = t \<and>
    (\<forall>p. p \<noteq> i \<and> p \<noteq> j \<longrightarrow> nodes s' p = nodes s p) \<and>
    match_index (nodes s' i) = (match_index (nodes s i))(j \<mapsto> last_index l)"
  using assms
proof (induction "unat nx" arbitrary: nx k s rule: less_induct)
  case less
  have ld: "node_state (nodes s i) = Leader" using less.prems(8) by (simp add: replicating_def leads_def)
  have "0 < nx"
    using good_progress [OF less.prems(1) _ less.prems(4) ld less.prems(6,7)] less.prems(2,11) by (auto simp: progress_ok_def)
  then have pos: "0 < unat nx" by (simp add: word_less_nat_alt)
  obtain s1 where s1: "runs q 2 s s1" "replicating i t l s1" "current_term (nodes s1 j) = t"
    "\<forall>p. p \<noteq> i \<and> p \<noteq> j \<longrightarrow> nodes s1 p = nodes s p"
    and m: "match_index (nodes s1 i) = (match_index (nodes s i))(j \<mapsto> last_index l) \<or>
      match_index (nodes s1 i) = match_index (nodes s i) \<and> asked (nodes s1 i) j (sent s1) \<and>
        (\<exists>nx'. next_index (nodes s1 i) j = Some nx' \<and> nx' < nx)"
    using exchange [OF less.prems(1) _ less.prems(3-11)] less.prems(2) pos by auto
  show ?case
  proof (cases "match_index (nodes s1 i) = (match_index (nodes s i))(j \<mapsto> last_index l)")
    case True
    have "runs q (2 * unat nx) s s1" by (rule within_mono [OF s1(1)]) (use pos in simp)
    then show ?thesis using True s1(2-4) by blast
  next
    case False
    then obtain nx' where nx': "match_index (nodes s1 i) = match_index (nodes s i)" "asked (nodes s1 i) j (sent s1)"
      "next_index (nodes s1 i) j = Some nx'" "unat nx' < unat nx"
      using m by (auto simp: word_less_nat_alt)
    have g1: "good (k + 2) s1" using good_runs [OF less.prems(1) s1(1)] less.prems(2) pos by simp
    obtain s2 where s2: "runs q (2 * unat nx') s1 s2" "replicating i t l s2" "current_term (nodes s2 j) = t"
      "\<forall>p. p \<noteq> i \<and> p \<noteq> j \<longrightarrow> nodes s2 p = nodes s1 p"
      "match_index (nodes s2 i) = (match_index (nodes s1 i))(j \<mapsto> last_index l)"
      using less.hyps [OF nx'(4) g1 _ less.prems(3-7) s1(2,3) nx'(2,3)] less.prems(2) nx'(4) by auto
    have "runs q (2 * unat nx) s s2" by (rule within_trans [OF s1(1) s2(1)]) (use nx'(4) in simp)
    then show ?thesis using s1(4) s2(2-5) nx'(1) by (intro exI [of _ s2]) simp
  qed
qed

lemma replicate_one:
  assumes g: "good k s" and k: "k + 2 * length l + 5 < 2 ^ 64" and i: "i \<in> q" "i \<in> set ms"
    and j: "j \<in> q" "j \<in> set ms" "j \<noteq> i" and rp: "replicating i t l s" and tj: "current_term (nodes s j) \<le> t"
  shows "\<exists>s'. runs q (2 + 2 * length l) s s' \<and> replicating i t l s' \<and> current_term (nodes s' j) = t \<and>
    (\<forall>p. p \<noteq> i \<and> p \<noteq> j \<longrightarrow> nodes s' p = nodes s p) \<and>
    match_index (nodes s' i) = (match_index (nodes s i))(j \<mapsto> last_index l)"
proof -
  have k3: "k + 3 < 2 ^ 64" using k by simp
  have ld: "node_state (nodes s i) = Leader" "proposed (nodes s i)" using rp by (auto simp: replicating_def leads_def)
  note ci = good_node [OF g i(2) k3]
  obtain el n where n: "tick E (nodes s i) el = Ret () n" "same_role (nodes s i) n" "match_index n = match_index (nodes s i)"
    "proposed n" "\<forall>p \<in> set (peers (nodes s i)). asked n p (set (outbox n))"
    using heartbeat_asks [OF good_leader [OF g k3 i(2) ld(1)] ld(2)] by blast
  define s1 where "s1 = with_node s i n {}"
  have r1: "runs q 1 s s1" unfolding s1_def by (rule runs_tick [OF i n(1)])
  have g1: "good (k + 1) s1" using good_runs [OF g r1] k by simp
  have rp1: "replicating i t l s1" using rp n(2,4) by (auto simp: replicating_def leads_def same_role_def s1_def)
  have "asked n j (set (outbox n))" using n(5) ci(2) j by simp
  then obtain nx rid where nx: "next_index n j = Some nx" "append_request_id n j = Some rid"
    "Message i j (RpcAppendEntriesRequest (append_request_for n nx rid)) \<in> sent s1" (is "?m \<in> _")
    using n(2) ci(1) by (auto simp: asked_def same_role_def s1_def)
  have sj: "nodes s1 j = nodes s j" "nodes s1 i = n" using j(3) by (simp_all add: s1_def)
  obtain b n' where n': "step E (nodes s1 j) ?m = Ret b n'"
    using good_operations(2) [OF g1 j(2) _ nx(3)] k by auto
  have "current_term n = t" "node_state n = Leader" "rlog n = l" using rp1 sj by (auto simp: replicating_def leads_def)
  then have t': "current_term n' = t"
    using append_term [OF n'] good_node(1,4) [OF g1 j(2)] k i(2) j(3) tj sj by (auto simp: append_request_for_def)
  define s2 where "s2 = with_node s1 j n' {}"
  have r2: "runs q 2 s s2"
    unfolding s2_def by (rule within_trans [OF r1 runs_deliver [OF j(1,2) nx(3) _ n']]) (use i in simp_all)
  have g2: "good (k + 2) s2" using good_runs [OF g r2] k by simp
  have s2: "nodes s2 i = n" "replicating i t l s2" "current_term (nodes s2 j) = t" "asked (nodes s2 i) j (sent s2)"
    using rp1 sj(2) t' j(3) nx n(2) ci(1) by (auto simp: replicating_def leads_def s2_def asked_def same_role_def)
  have le: "unat nx \<le> length l"
    using good_progress [OF g2 _ i(2) _ j(2,3)] s2(1) nx(1) k \<open>node_state n = Leader\<close> \<open>rlog n = l\<close>
    by (auto simp: progress_ok_def)
  obtain s3 where s3: "runs q (2 * unat nx) s2 s3" "replicating i t l s3" "current_term (nodes s3 j) = t"
    "\<forall>p. p \<noteq> i \<and> p \<noteq> j \<longrightarrow> nodes s3 p = nodes s2 p"
    "match_index (nodes s3 i) = (match_index (nodes s2 i))(j \<mapsto> last_index l)"
    using catch_up [OF g2 _ i j s2(2,3,4), of nx] nx(1) s2(1) le k by auto
  have "runs q (2 + 2 * length l) s s3" by (rule within_trans [OF r2 s3(1)]) (use le in simp)
  then show ?thesis using s3(2-5) s2(1) n(3) by (intro exI [of _ s3]) (simp add: s2_def s1_def)
qed

lemma replicate_all:
  assumes "good k s" "k + length js * (2 + 2 * length l) + 5 < 2 ^ 64" "i \<in> q" "i \<in> set ms"
    and "set js \<subseteq> q - {i}" "q \<subseteq> set ms" "distinct js" "replicating i t l s"
    and "\<And>j. j \<in> set js \<Longrightarrow> current_term (nodes s j) \<le> t"
  shows "\<exists>s'. runs q (length js * (2 + 2 * length l)) s s' \<and> replicating i t l s' \<and>
    (\<forall>p. p \<noteq> i \<and> p \<notin> set js \<longrightarrow> nodes s' p = nodes s p) \<and>
    (\<forall>p \<in> set js. current_term (nodes s' p) = t \<and> match_index (nodes s' i) p = Some (last_index l)) \<and>
    (\<forall>p. p \<notin> set js \<longrightarrow> match_index (nodes s' i) p = match_index (nodes s i) p)"
  using assms
proof (induction js arbitrary: k s)
  case Nil
  then show ?case by (intro exI [of _ s]) simp
next
  case (Cons j js)
  have j: "j \<in> q" "j \<in> set ms" "j \<noteq> i" "j \<notin> set js" using Cons.prems(5,6,7) by auto
  let ?c = "2 + 2 * length l"
  have k: "k + ?c + length js * ?c + 5 < 2 ^ 64" using Cons.prems(2) by simp
  obtain s1 where s1: "runs q ?c s s1" "replicating i t l s1" "current_term (nodes s1 j) = t"
    "\<forall>p. p \<noteq> i \<and> p \<noteq> j \<longrightarrow> nodes s1 p = nodes s p"
    "match_index (nodes s1 i) = (match_index (nodes s i))(j \<mapsto> last_index l)"
    using replicate_one [OF Cons.prems(1) _ Cons.prems(3,4) j(1-3) Cons.prems(8)] k Cons.prems(9) [of j] by auto
  have g1: "good (k + ?c) s1" using good_runs [OF Cons.prems(1) s1(1)] k by simp
  have t1: "current_term (nodes s1 p) \<le> t" if "p \<in> set js" for p
    using that Cons.prems(5,9) s1(4) j(4) by auto
  obtain s2 where s2: "runs q (length js * ?c) s1 s2" "replicating i t l s2"
    "\<forall>p. p \<noteq> i \<and> p \<notin> set js \<longrightarrow> nodes s2 p = nodes s1 p"
    "\<forall>p \<in> set js. current_term (nodes s2 p) = t \<and> match_index (nodes s2 i) p = Some (last_index l)"
    "\<forall>p. p \<notin> set js \<longrightarrow> match_index (nodes s2 i) p = match_index (nodes s1 i) p"
    using Cons.IH [OF g1 k Cons.prems(3,4) _ Cons.prems(6) _ s1(2) t1] Cons.prems(5,7) by auto
  have "runs q (length (j # js) * ?c) s s2" by (rule within_trans [OF s1(1) s2(1)]) simp
  then show ?case using s1(3-5) s2(2-5) j(3,4) by (intro exI [of _ s2]) auto
qed

section \<open>Proposals\<close>

lemma propose_starts:
  assumes g: "good k s" and k: "k + 4 < 2 ^ 64" and i: "i \<in> q" "i \<in> set ms" and ld: "leads i t s"
  shows "\<exists>s'. runs q 1 s s' \<and> replicating i t (rlog (nodes s i) @ [LogEntry t command False]) s' \<and>
    (\<forall>p. p \<noteq> i \<longrightarrow> nodes s' p = nodes s p)"
proof -
  let ?n = "nodes s i" and ?e = "LogEntry t command False"
  have k3: "k + 3 < 2 ^ 64" using k by simp
  have l: "node_state ?n = Leader" "current_term ?n = t" using ld by (auto simp: leads_def)
  note wf = good_leader [OF g k3 i(2) l(1)] and len = good_node(7) [OF g i(2) k3]
  define n1 where "n1 = ?n\<lparr>rlog := rlog ?n @ [?e],
    storage := snd (storage_save E (persistent_part (?n\<lparr>rlog := rlog ?n @ [?e]\<rparr>)) (storage ?n))\<rparr>"
  have wf1: "leader_wf n1"
    using wf len k by (auto simp: n1_def leader_wf_def progress_ok_def le_Suc_eq less_Suc_eq)
  have "commit_index n1 < last_log_index_locked n1"
    using leader_wf_last [OF wf1] wf by (simp add: n1_def leader_wf_def word_less_nat_alt)
  then obtain b n2 ids out where n2: "advance_commit_index_locked n1 = Ret b n2" "commit_update n1 n2" "proposed n2"
    "broadcast_append_entries_locked n2 = Ret () (n2\<lparr>append_request_id := ids, outbox := outbox n2 @ out\<rparr>)"
    using advance_proposed [OF wf1] l(2) by (auto simp: n1_def)
  have "(of_nat (length (rlog ?n)) :: u64) \<noteq> - 1"
    by (rule of_nat_u64_not_max) (use len k in simp)
  then have st: "propose E ?n command = Ret (Some (last_log_index_locked n1)) (n2\<lparr>append_request_id := ids, outbox := outbox n2 @ out\<rparr>)"
    using l n2 by (simp add: propose_def n1_def [symmetric])
  let ?s = "with_node s i (n2\<lparr>append_request_id := ids, outbox := outbox n2 @ out\<rparr>) {}"
  have "local_step E ms q s ?s" by (rule local_step.propose [OF i st])
  moreover have "proposed (n2\<lparr>append_request_id := ids, outbox := outbox n2 @ out\<rparr>)"
    using n2(3) by (rule proposed_cong) (simp_all add: same_role_def)
  ultimately show ?thesis
    using commit_update_fields [OF n2(2)] l within_step
    by (intro exI [of _ ?s]) (auto simp: replicating_def leads_def n1_def)
qed

section \<open>Delivery\<close>

lemma majority_delivers:
  assumes g: "good k s" "k + 3 < 2 ^ 64" and rp: "replicating i t l s" and q: "q \<in> majorities ms" and i: "i \<in> q"
    and m: "\<And>p. p \<in> q - {i} \<Longrightarrow> match_index (nodes s i) p = Some (last_index l)"
  shows "CommittedEntry (last_index l) t (le_command (last l)) \<in> set (committed_entries (nodes s i))"
proof -
  let ?n = "nodes s i"
  have qs: "q \<subseteq> set ms" "finite q" "card (set ms) div 2 + 1 \<le> card q" and ims: "i \<in> set ms"
    using q i finite_subset [of q "set ms"] by (auto simp: majorities_def)
  note c = good_node [OF g(1) ims g(2)]
  have "q - {i} \<subseteq> set (replicas ?n (last_index l))"
    using m c(2) qs(1) by (auto simp: replicas_def)
  then have "card (q - {i}) \<le> length (replicas ?n (last_index l))"
    using card_mono [OF finite_set] card_length order_trans by blast
  then have "quorum_size_locked ?n \<le> Suc (length (replicas ?n (last_index l)))"
    using qs(2,3) i c(8) by simp
  then show ?thesis
    using rp by (auto simp: replicating_def leads_def proposed_def settled_def last_log_index_locked_def last_entry_def)
qed

text \<open>Everything delivered so far is in the log of a leader whose term a majority has not passed.\<close>

lemma delivered_below:
  assumes g: "good k s" and q: "q \<in> majorities ms" and i: "i \<in> q" and ld: "leads i t s"
    and t: "\<forall>j \<in> q. current_term (nodes s j) \<le> t" and d: "(p, e) \<in> delivered s"
  shows "unat (ce_index e) < length (rlog (nodes s i))"
proof -
  obtain a where a: "related k a s" using g by (auto simp: good_def)
  have qs: "q \<subseteq> set ms" using q by (simp add: majorities_def)
  have ia: "inv a" using a by (simp add: related_def)
  have "delivered_ok a e" using a d by (auto simp: related_def cluster_ok_def)
  then obtain u m where u: "(u, m) \<in> committed a" "unat (ce_index e) \<le> m" by (auto simp: delivered_ok_def)
  obtain q' where q': "q' \<in> majorities ms" "\<forall>v \<in> q'. (v, u, m) \<in> acks a" and m: "m \<le> length (llog a u)"
    using ainv_committedD [OF ia u(1)] by blast
  obtain v where v: "v \<in> q" "v \<in> q'" using maj.quorum_intersect [OF q q'(1)] by blast
  have "u \<le> cur a v" using ainv_acksD [OF ia] q'(2) v(2) by blast
  then have le: "u \<le> t" using t v(1) related_node(2) [OF a, of v] qs by fastforce
  note A = related_node [OF a, of i]
  have L: "lead a t = Some i" "llog a t = alog a i" using A ld i qs by (auto simp: leads_def)
  have "prefix (take m (llog a u)) (alog a i)" using maj.committed_llog [OF ia u(1) L(1) le] L(2) by simp
  then show ?thesis using prefix_length_le m u(2) A(1) i qs by fastforce
qed

lemma replicates:
  assumes g: "good k s" and k: "k + length ms * (2 + 2 * length l) + 6 < 2 ^ 64" and q: "q \<in> majorities ms"
    and i: "i \<in> q" and rp: "replicating i t l s" and t: "\<forall>j \<in> q. current_term (nodes s j) \<le> t"
  shows "\<exists>s'. runs q (length ms * (2 + 2 * length l) + 1) s s' \<and> leads i t s' \<and> rlog (nodes s' i) = l \<and>
    (i, CommittedEntry (last_index l) t (le_command (last l))) \<in> delivered s' \<and>
    (\<forall>j \<in> q. take (length l) (rlog (nodes s' j)) = l)"
proof -
  have qs: "q \<subseteq> set ms" and ims: "i \<in> set ms" using q i by (auto simp: majorities_def)
  obtain js where js: "set js = q - {i}" "distinct js"
    using finite_distinct_list [of "q - {i}"] finite_subset [OF qs] by auto
  have "length js \<le> length ms"
    using js qs card_mono [of "set ms" "q - {i}"] card_length [of ms] distinct_card [OF js(2)] by fastforce
  then have len: "length js * (2 + 2 * length l) \<le> length ms * (2 + 2 * length l)" by (rule mult_le_mono1)
  obtain s1 where s1: "runs q (length js * (2 + 2 * length l)) s s1" "replicating i t l s1"
    "\<forall>p \<in> set js. current_term (nodes s1 p) = t \<and> match_index (nodes s1 i) p = Some (last_index l)"
    using replicate_all [OF g _ i ims _ qs js(2) rp] js(1) t k len by auto
  have r1: "runs q (length ms * (2 + 2 * length l)) s s1" by (rule within_mono [OF s1(1) len])
  have g1: "good (k + length ms * (2 + 2 * length l)) s1" using good_runs [OF g r1] k by simp
  let ?n = "nodes s1 i" and ?e = "CommittedEntry (last_index l) t (le_command (last l))"
  have ld: "node_state ?n = Leader" "current_term ?n = t" "rlog ?n = l" "?n = nodes s1 i"
    using s1(2) by (auto simp: replicating_def leads_def)
  have e: "?e \<in> set (committed_entries ?n)"
    using majority_delivers [OF g1 _ s1(2) q i] s1(3) js(1) k by auto
  have wf: "leader_wf ?n" using good_leader [OF g1 _ ims ld(1)] k by simp
  have "take (length l) (rlog (nodes s1 j)) = l" if "j \<in> q" for j
  proof (cases "j = i")
    case False
    have l: "unat (last_index l) = length l - 1" "l \<noteq> []"
      using leader_wf_last [OF wf] ld(3) by (auto simp: last_log_index_locked_def)
    have "unat (last_index l) < length (rlog (nodes s1 j)) \<and>
        (\<forall>x \<le> unat (last_index l). rlog (nodes s1 j) ! x = l ! x)"
      unfolding ld(3) [symmetric]
      by (rule match_agrees [OF g1 ims _ False ld(1)]) (use that False js(1) qs s1(3) ld in auto)
    then have "length l \<le> length (rlog (nodes s1 j))" "\<And>x. x < length l \<Longrightarrow> rlog (nodes s1 j) ! x = l ! x"
      unfolding l(1) using l(2) by (auto simp: Suc_le_eq less_eq_Suc_le [symmetric])
    then show ?thesis by (intro nth_equalityI) auto
  qed (use ld in simp)
  moreover define s2 where "s2 = (with_node s1 i (?n\<lparr>committed_entries := []\<rparr>) {})\<lparr>delivered := delivered s1 \<union> Pair i ` set (committed_entries ?n)\<rparr>"
  have "local_step E ms q s1 s2"
    unfolding s2_def by (rule local_step.take_committed [OF i ims]) (simp add: take_committed_entries_def)
  then have "runs q (length ms * (2 + 2 * length l) + 1) s s2"
    using within_trans [OF r1 within_step] by blast
  ultimately show ?thesis
    using e ld by (intro exI [of _ s2]) (auto simp: s2_def leads_def)
qed

lemma progress:
  assumes g: "good k s" and q: "q \<in> majorities ms"
    and k: "k + (2 * length ms + 1) * (2 * k + 2 * length ms + 8) + 4 < 2 ^ 64"
  shows "\<exists>i \<in> q. \<exists>s' e. runs q ((2 * length ms + 1) * (2 * k + 2 * length ms + 8)) s s' \<and>
    node_state (nodes s' i) = Leader \<and> (i, e) \<in> delivered s' \<and> ce_command e = command \<and>
    (\<forall>(p, e') \<in> delivered s. ce_index e' < ce_index e) \<and>
    (\<forall>j \<in> q. prefix (rlog (nodes s' i)) (rlog (nodes s' j)))"
proof -
  define X where "X = 2 * k + 2 * length ms + 8"
  define P where "P = 2 * length ms * X"
  have kP: "k + P + X + 4 < 2 ^ 64" using k by (simp add: P_def X_def)
  have qs: "q \<subseteq> set ms" using q by (simp add: majorities_def)
  obtain i s1 t where i: "i \<in> q" and s1: "runs q (k + 2 * length ms + 5) s s1" "leads i t s1"
    "\<forall>j \<in> q. current_term (nodes s1 j) \<le> t"
    using elects [OF g _ q] kP by (auto simp: X_def)
  have ims: "i \<in> set ms" using i qs by auto
  have g1: "good (k + (k + 2 * length ms + 5)) s1" using good_runs [OF g s1(1)] kP by (simp add: X_def)
  define l where "l = rlog (nodes s1 i) @ [LogEntry t command False]"
  obtain s2 where s2: "runs q 1 s1 s2" "replicating i t l s2" "\<forall>p. p \<noteq> i \<longrightarrow> nodes s2 p = nodes s1 p"
    using propose_starts [OF g1 _ i ims s1(2)] kP by (auto simp: l_def X_def)
  have r2: "runs q (k + 2 * length ms + 6) s s2" by (rule within_trans [OF s1(1) s2(1)]) simp
  have g2: "good (k + (k + 2 * length ms + 6)) s2" using good_runs [OF g r2] kP by (simp add: X_def)
  have len: "length l < X"
    using good_node(7) [OF g2 ims] s2(2) kP by (simp add: replicating_def X_def)
  then have "length ms * (2 + 2 * length l) \<le> length ms * (2 * X)" by (intro mult_le_mono2) simp
  then have le: "length ms * (2 + 2 * length l) \<le> P" by (simp add: P_def)
  have "current_term (nodes s2 i) = t" using s2(2) by (simp add: replicating_def leads_def)
  then have t2: "\<forall>j \<in> q. current_term (nodes s2 j) \<le> t" using s1(3) s2(3) by (metis order_refl)
  obtain s3 where s3: "runs q (length ms * (2 + 2 * length l) + 1) s2 s3" "leads i t s3" "rlog (nodes s3 i) = l"
    "(i, CommittedEntry (last_index l) t (le_command (last l))) \<in> delivered s3"
    "\<forall>j \<in> q. take (length l) (rlog (nodes s3 j)) = l"
    using replicates [OF g2 _ q i s2(2) t2] le kP by (auto simp: X_def)
  have "runs q (P + X) s s3" by (rule within_trans [OF r2 s3(1)]) (use le in \<open>simp add: X_def\<close>)
  moreover have "ce_index e' < last_index l" if "(p, e') \<in> delivered s" for p e'
    using delivered_below [OF g1 q i s1(2,3)] within_frame [OF s1(1)] that len kP
    by (auto simp: word_less_nat_alt unat_last_index l_def)
  moreover have "prefix l (rlog (nodes s3 j))" if "j \<in> q" for j
    using s3(5) that take_is_prefix by metis
  moreover have "P + X = (2 * length ms + 1) * (2 * k + 2 * length ms + 8)" by (simp add: P_def X_def)
  ultimately show ?thesis
    using s3(2-4) i by (intro bexI [OF _ i] exI [of _ s3] exI [of _ "CommittedEntry (last_index l) t (le_command (last l))"])
      (auto simp: leads_def l_def)
qed

end

text \<open>The storage of \<open>src/raft/raft.cpp\<close> gives such a cluster: its saves return.\<close>

interpretation in_memory_live: live_cluster "in_memory_env seed draw" ms cfgs
  for seed draw ms cfgs
  using in_memory.reliable_raft_storage_axioms in_memory_cluster.raft_cluster_axioms
  by (intro live_cluster.intro) (simp_all add: in_memory_env_def)

section \<open>Liveness\<close>

text \<open>
  C9: A majority makes progress. Over a storage whose saves return, from every reachable state and for
  every majority of the members there is a bounded run in which only members of the majority act, at
  the end of which one of them is the leader, all of them have its log, and it has delivered the given
  command at an index above everything that any node had delivered before.
\<close>

theorem majority_progress:
  assumes "reliable_raft_storage (storage_load E) (storage_save E)"
    and "reachable_in E ms cfgs k s" "q \<in> majorities ms"
    and "k + (2 * length ms + 1) * (2 * k + 2 * length ms + 8) + 4 < 2 ^ 64"
  shows "\<exists>i \<in> q. \<exists>s' e. within E ms q ((2 * length ms + 1) * (2 * k + 2 * length ms + 8)) s s' \<and>
    node_state (nodes s' i) = Leader \<and> (i, e) \<in> delivered s' \<and> ce_command e = command \<and>
    (\<forall>(p, e') \<in> delivered s. ce_index e' < ce_index e) \<and>
    (\<forall>j \<in> q. prefix (rlog (nodes s' i)) (rlog (nodes s' j)))"
proof -
  note R = reliable_raft_storage.axioms(1) [OF assms(1)]
  have A: "raft_storage (storage_load E) (storage_save E)"
    using atomic_raft_storage.saved [OF R] atomic_raft_storage.failed_save_keeps [OF R]
    by (intro raft_storage.intro) auto
  note L = live_cluster.intro [OF raft_cluster.intro [OF A] assms(1)]
  have "live_cluster.good E ms cfgs k s"
    unfolding live_cluster.good_def [OF L]
    by (rule raft_cluster.reachable_related [OF raft_cluster.intro [OF A] assms(2)]) (use assms(4) in simp)
  then show ?thesis by (rule live_cluster.progress [OF L _ assms(3,4)])
qed

theorem majority_progress_witness:
  "\<exists>s. reachable_in demo_env [1, 2, 3] demo_config 9 s \<and> node_state (nodes s 1) = Leader \<and>
     (1, CommittedEntry 2 1 ''x'') \<in> delivered s \<and>
     (\<exists>i \<in> {2, 3}. \<exists>s' e. within demo_env [1, 2, 3] {2, 3} 224 s s' \<and> node_state (nodes s' i) = Leader \<and>
        (i, e) \<in> delivered s' \<and> ce_command e = ''y'' \<and> 2 < ce_index e)"
proof -
  obtain s where s: "reachable_in demo_env [1, 2, 3] demo_config 9 s" "node_state (nodes s 1) = Leader"
    "(1, CommittedEntry 2 1 ''x'') \<in> delivered s"
    using demo_reached by auto
  have R: "reliable_raft_storage (storage_load demo_env) (storage_save demo_env)"
    using in_memory.reliable_raft_storage_axioms by (simp add: demo_env_def in_memory_env_def)
  have q: "{2, 3} \<in> majorities [1, 2, 3]" by (simp add: majorities_def)
  obtain i s' e where "i \<in> {2, 3}" "within demo_env [1, 2, 3] {2, 3} 224 s s'" "node_state (nodes s' i) = Leader"
    "(i, e) \<in> delivered s'" "ce_command e = ''y''" "\<forall>(p, e') \<in> delivered s. ce_index e' < ce_index e"
    using majority_progress [OF R s(1) q, of "''y''"] by auto
  then show ?thesis using s by fastforce
qed

end
