(* ===== verification/KeyValueStore.thy ===== *)
theory KeyValueStore
  imports Prelude "HOL-Library.AList"
begin

text \<open>
  The storage contract of \<open>include/ftkv/store/key_value_store.hpp\<close> as a locale, and the in-memory
  implementation of \<open>src/store/in_memory_key_value_store.cpp\<close>. An \<open>unordered_map\<close> is an association
  list with distinct keys; its order is irrelevant to every operation here.
\<close>

section \<open>The contract\<close>

text \<open>
  \<open>get\<close> determines what a client sees. A write that returns changes exactly the key it names; a
  write that throws changes nothing a client can see.
\<close>

locale key_value_store =
  fixes inv :: "'s \<Rightarrow> bool"
    and put :: "'s \<Rightarrow> bytes \<Rightarrow> bytes \<Rightarrow> (unit, 's) outcome"
    and get :: "'s \<Rightarrow> bytes \<Rightarrow> bytes option"
    and erase :: "'s \<Rightarrow> bytes \<Rightarrow> (bool, 's) outcome"
  assumes put_law: "inv s \<Longrightarrow>
      post (\<lambda>_ s'. inv s' \<and> get s' = (get s)(k \<mapsto> v)) (\<lambda>_ s'. inv s' \<and> get s' = get s) (put s k v)"
    and erase_law: "inv s \<Longrightarrow>
      post (\<lambda>b s'. inv s' \<and> get s' = (get s)(k := None) \<and> b = (get s k \<noteq> None))
        (\<lambda>_ s'. inv s' \<and> get s' = get s) (erase s k)"
begin

lemma get_after_put:
  "inv s \<Longrightarrow> put s k v = Ret u s' \<Longrightarrow> get s' x = (if x = k then Some v else get s x)"
  using put_law [of s k v] by simp

lemma get_after_erase:
  "inv s \<Longrightarrow> erase s k = Ret b s' \<Longrightarrow> get s' x = (if x = k then None else get s x)"
  using erase_law [of s k] by simp

lemma second_erase:
  "inv s \<Longrightarrow> erase s k = Ret b s' \<Longrightarrow> erase s' k = Ret b' s'' \<Longrightarrow> \<not> b' \<and> get s'' = get s'"
  using erase_law [of s k] erase_law [of s' k] by auto

lemma failed_write:
  "inv s \<Longrightarrow> put s k v = Exc e s' \<Longrightarrow> inv s' \<and> get s' = get s"
  "inv s \<Longrightarrow> erase s k = Exc e s' \<Longrightarrow> inv s' \<and> get s' = get s"
  using put_law [of s k v] erase_law [of s k] by simp_all

end

section \<open>Maps\<close>

type_synonym EntryMap = "(bytes \<times> bytes) list"

definition insert_or_assign :: "bytes \<Rightarrow> bytes \<Rightarrow> EntryMap \<Rightarrow> EntryMap" where
  "insert_or_assign k v es = AList.update k v es"

definition find_entry :: "EntryMap \<Rightarrow> bytes \<Rightarrow> bytes option" where
  "find_entry es k = map_of es k"

definition erase_entry :: "bytes \<Rightarrow> EntryMap \<Rightarrow> nat \<times> EntryMap" where
  "erase_entry k es = (if map_of es k = None then 0 else 1, AList.delete k es)"

definition map_ok :: "EntryMap \<Rightarrow> bool" where
  "map_ok es \<longleftrightarrow> distinct (map fst es)"

lemma map_ok_simps [simp]:
  "map_ok []"
  "map_ok es \<Longrightarrow> map_ok (insert_or_assign k v es)"
  "map_ok es \<Longrightarrow> map_ok (snd (erase_entry k es))"
  by (simp_all add: map_ok_def insert_or_assign_def erase_entry_def distinct_update distinct_delete)

lemma find_entry_simps [simp]:
  "find_entry [] = Map.empty"
  "find_entry (insert_or_assign k v es) = (find_entry es)(k \<mapsto> v)"
  "find_entry (snd (erase_entry k es)) = (find_entry es)(k := None)"
  by (auto simp: find_entry_def insert_or_assign_def erase_entry_def update_conv' delete_conv' fun_eq_iff)

lemma erase_entry_count [simp]: "fst (erase_entry k es) = 0 \<longleftrightarrow> find_entry es k = None"
  by (simp add: erase_entry_def find_entry_def)

section \<open>The in-memory store\<close>

record InMemoryKeyValueStore =
  mem_entries :: EntryMap

definition InMemoryKeyValueStore_put ::
    "InMemoryKeyValueStore \<Rightarrow> bytes \<Rightarrow> bytes \<Rightarrow> (unit, InMemoryKeyValueStore) outcome" where
  "InMemoryKeyValueStore_put s k v =
     Ret () (s\<lparr>mem_entries := insert_or_assign k v (mem_entries s)\<rparr>)"

definition InMemoryKeyValueStore_get :: "InMemoryKeyValueStore \<Rightarrow> bytes \<Rightarrow> bytes option" where
  "InMemoryKeyValueStore_get s k = find_entry (mem_entries s) k"

definition InMemoryKeyValueStore_erase ::
    "InMemoryKeyValueStore \<Rightarrow> bytes \<Rightarrow> (bool, InMemoryKeyValueStore) outcome" where
  "InMemoryKeyValueStore_erase s k =
     (let (count, es) = erase_entry k (mem_entries s) in Ret (count \<noteq> 0) (s\<lparr>mem_entries := es\<rparr>))"

interpretation mem: key_value_store "\<lambda>s. map_ok (mem_entries s)" InMemoryKeyValueStore_put
  InMemoryKeyValueStore_get InMemoryKeyValueStore_erase
proof
  fix s :: InMemoryKeyValueStore and k v
  assume "map_ok (mem_entries s)"
  then show "post (\<lambda>_ s'. map_ok (mem_entries s') \<and>
        InMemoryKeyValueStore_get s' = (InMemoryKeyValueStore_get s)(k \<mapsto> v))
      (\<lambda>_ s'. map_ok (mem_entries s') \<and> InMemoryKeyValueStore_get s' = InMemoryKeyValueStore_get s)
      (InMemoryKeyValueStore_put s k v)"
    by (simp add: InMemoryKeyValueStore_put_def InMemoryKeyValueStore_get_def fun_eq_iff)
next
  fix s :: InMemoryKeyValueStore and k
  assume ok: "map_ok (mem_entries s)"
  obtain c es where e: "erase_entry k (mem_entries s) = (c, es)" by fastforce
  show "post (\<lambda>b s'. map_ok (mem_entries s') \<and>
        InMemoryKeyValueStore_get s' = (InMemoryKeyValueStore_get s)(k := None) \<and>
        b = (InMemoryKeyValueStore_get s k \<noteq> None))
      (\<lambda>_ s'. map_ok (mem_entries s') \<and> InMemoryKeyValueStore_get s' = InMemoryKeyValueStore_get s)
      (InMemoryKeyValueStore_erase s k)"
    using ok e find_entry_simps(3) [of k "mem_entries s"] erase_entry_count [of k "mem_entries s"]
      map_ok_simps(3) [OF ok, of k]
    by (auto simp: InMemoryKeyValueStore_erase_def InMemoryKeyValueStore_get_def fun_eq_iff)
qed

end
