(* ===== verification/ByteCodec.thy ===== *)
theory ByteCodec
  imports Prelude
begin

text \<open>
  The little-endian encoding of 64-bit integers that both file formats use: \<open>write_uint64\<close> and
  \<open>read_uint64\<close> of \<open>src/storage/kv_store.cpp\<close>, \<open>append_uint64\<close> and \<open>read_uint64\<close> of
  \<open>src/node/node_runtime.cpp\<close>. A byte is a character.
\<close>

unbundle bit_operations_syntax

definition byte_of :: "u64 \<Rightarrow> nat \<Rightarrow> char" where
  "byte_of value index = char_of (unat (drop_bit (index * 8) value AND 0xff))"

definition le_bytes :: "u64 \<Rightarrow> bytes" where
  "le_bytes value = map (byte_of value) [0..<8]"

fun le_value :: "nat \<Rightarrow> bytes \<Rightarrow> u64" where
  "le_value index [] = 0"
| "le_value index (b # bs) = push_bit (index * 8) (of_nat (of_char b)) OR le_value (Suc index) bs"

section \<open>Round trips\<close>

lemma length_le_bytes [simp]: "length (le_bytes v) = 8"
  by (simp add: le_bytes_def)

lemma unat_byte: "unat (drop_bit (i * 8) v AND 0xff :: u64) = take_bit 8 (unat (drop_bit (i * 8) v))"
proof -
  have m: "(0xff :: u64) = mask 8" by (simp add: mask_eq_exp_minus_1)
  show ?thesis unfolding m by (simp only: take_bit_eq_mask [symmetric] unsigned_take_bit_eq)
qed

lemma bit_byte: "bit (of_nat (of_char (c :: char)) :: u64) n \<longleftrightarrow> bit (of_char c :: nat) n"
proof -
  have c: "take_bit 8 (of_char c :: nat) = of_char c"
    using nat_of_char_less_256 [of c] by (simp add: take_bit_nat_eq_self)
  have "n < 8" if "bit (of_char c :: nat) n"
    using that c by (metis bit_take_bit_iff)
  then show ?thesis by (auto simp: bit_of_nat_iff possible_bit_word)
qed

lemma bit_byte_of: "bit (of_char (byte_of v i) :: nat) n \<longleftrightarrow> n < 8 \<and> bit v (i * 8 + n)"
proof -
  have "(of_char (byte_of v i) :: nat) = take_bit 8 (unat (drop_bit (i * 8) v))"
    unfolding byte_of_def unat_byte by (simp add: take_bit_eq_mod)
  then show ?thesis by (auto simp: bit_unsigned_iff bit_take_bit_iff bit_drop_bit_eq)
qed

lemma bit_le_value:
  "bit (le_value k bs) n \<longleftrightarrow>
     n < 64 \<and> (\<exists>j < length bs. (k + j) * 8 \<le> n \<and> bit (of_char (bs ! j) :: nat) (n - (k + j) * 8))"
proof (induction bs arbitrary: k)
  case (Cons b bs)
  have "(\<exists>j < length (b # bs). (k + j) * 8 \<le> n \<and> bit (of_char ((b # bs) ! j) :: nat) (n - (k + j) * 8)) \<longleftrightarrow>
      k * 8 \<le> n \<and> bit (of_char b :: nat) (n - k * 8) \<or>
      (\<exists>j < length bs. (Suc k + j) * 8 \<le> n \<and> bit (of_char (bs ! j) :: nat) (n - (Suc k + j) * 8))"
    by (subst length_Cons, subst Ex_less_Suc2) simp
  then show ?case
    by (auto simp: Cons bit_or_iff bit_push_bit_iff bit_byte)
qed simp

text \<open>Reading what was written gives the value back.\<close>

lemma le_value_bytes [simp]: "le_value 0 (le_bytes v) = v"
proof (rule bit_word_eqI)
  fix n assume "n < LENGTH(64)"
  then have n: "n < 64" by simp
  have "bit (le_value 0 (le_bytes v)) n \<longleftrightarrow>
      (\<exists>j < 8. j * 8 \<le> n \<and> n - j * 8 < 8 \<and> bit v (j * 8 + (n - j * 8)))"
    using n by (simp add: bit_le_value le_bytes_def bit_byte_of cong: conj_cong)
  also have "\<dots> \<longleftrightarrow> (\<exists>j < 8. j * 8 \<le> n \<and> n - j * 8 < 8 \<and> bit v n)"
    by (auto cong: conj_cong)
  also have "\<dots> \<longleftrightarrow> bit v n"
    using n by (auto intro!: exI [of _ "n div 8"])
  finally show "bit (le_value 0 (le_bytes v)) n \<longleftrightarrow> bit v n" .
qed

text \<open>Writing what was read gives the bytes back, so no two encodings stand for the same value.\<close>

lemma byte_of_le_value:
  assumes "length bs = 8" "i < 8"
  shows "byte_of (le_value 0 bs) i = bs ! i"
proof -
  have eight: "n < 8" if "bit (of_char c :: nat) n" for c :: char and n
    using that nat_of_char_less_256 [of c] bit_take_bit_iff [of 8 "of_char c :: nat" n]
    by (simp add: take_bit_nat_eq_self)
  have "(of_char (byte_of (le_value 0 bs) i) :: nat) = of_char (bs ! i)"
  proof (rule bit_eqI)
    fix n
    have one: "j = i" if "j * 8 \<le> i * 8 + n" "n < 8" "i * 8 + n - j * 8 < 8" for j :: nat
      using that by linarith
    show "bit (of_char (byte_of (le_value 0 bs) i) :: nat) n \<longleftrightarrow> bit (of_char (bs ! i) :: nat) n"
    proof
      assume "bit (of_char (byte_of (le_value 0 bs) i) :: nat) n"
      then obtain j where j: "n < 8" "j * 8 \<le> i * 8 + n" "bit (of_char (bs ! j) :: nat) (i * 8 + n - j * 8)"
        by (auto simp: bit_byte_of bit_le_value)
      have "j = i" using one [OF j(2,1) eight [OF j(3)]] .
      then show "bit (of_char (bs ! i) :: nat) n" using j(3) by simp
    next
      assume b: "bit (of_char (bs ! i) :: nat) n"
      have "n < 8" using eight [OF b] .
      then show "bit (of_char (byte_of (le_value 0 bs) i) :: nat) n"
        using assms b by (auto simp: bit_byte_of bit_le_value intro!: exI [of _ i])
    qed
  qed
  then show ?thesis by simp
qed

lemma le_bytes_value: "length bs = 8 \<Longrightarrow> le_bytes (le_value 0 bs) = bs"
  by (rule nth_equalityI) (simp_all add: le_bytes_def byte_of_le_value)

end
