(* ===== verification/FilePersistence.thy ===== *)
theory FilePersistence
  imports KeyValueStore ByteCodec "HOL-Library.Multiset"
begin

text \<open>
  The snapshot file of \<open>src/storage/kv_store.cpp\<close>: the functions on streams, \<open>FilePersistence::load\<close>
  and \<open>FilePersistence::save\<close>, over a file system in which every call may fail. The history of the
  file system is kept, so that a crash in the middle of a save can be stated.
\<close>

section \<open>Constants\<close>

definition kFileMagic :: bytes where
  "kFileMagic = ''FTKVSTR1''"

definition kMaximumEntries :: nat where
  "kMaximumEntries = 1000000"

definition kMaximumFieldBytes :: nat where
  "kMaximumFieldBytes = 64 * 1024 * 1024"

type_synonym path = string

definition error_message :: "string \<Rightarrow> path \<Rightarrow> string" where
  "error_message action p = action @ '': '' @ p"

text \<open>\<open>std::filesystem::path::parent_path\<close>: what precedes the last component, without the separator.\<close>

definition parent_path :: "path \<Rightarrow> path" where
  "parent_path p =
     (let before = dropWhile (\<lambda>c. c \<noteq> CHR ''/'') (rev p);
          dir = dropWhile (\<lambda>c. c = CHR ''/'') before
      in rev (if dir = [] then before else dir))"

section \<open>Input streams\<close>

text \<open>An input stream is the bytes it can still deliver.\<close>

definition read_exact :: "bytes \<Rightarrow> nat \<Rightarrow> error + bytes \<times> bytes" where
  "read_exact input n =
     (if n \<le> length input then Inr (take n input, drop n input)
      else Inl (StorageError ''storage snapshot is truncated''))"

definition read_uint64 :: "bytes \<Rightarrow> error + u64 \<times> bytes" where
  "read_uint64 input =
     (case read_exact input 8 of
        Inl e \<Rightarrow> Inl e
      | Inr (bs, rest) \<Rightarrow> Inr (le_value 0 bs, rest))"

definition read_field :: "bytes \<Rightarrow> error + bytes \<times> bytes" where
  "read_field input =
     (case read_uint64 input of
        Inl e \<Rightarrow> Inl e
      | Inr (n, rest) \<Rightarrow>
          if unat n > kMaximumFieldBytes
          then Inl (StorageError ''invalid key or value size in storage snapshot'')
          else read_exact rest (unat n))"

fun read_entries :: "path \<Rightarrow> nat \<Rightarrow> bytes \<Rightarrow> EntryMap \<Rightarrow> error + EntryMap \<times> bytes" where
  "read_entries p 0 input entries = Inr (entries, input)"
| "read_entries p (Suc n) input entries =
     (case read_field input of
        Inl e \<Rightarrow> Inl e
      | Inr (key, input1) \<Rightarrow>
          (case read_field input1 of
             Inl e \<Rightarrow> Inl e
           | Inr (value, input2) \<Rightarrow>
               if find_entry entries key \<noteq> None
               then Inl (StorageError (error_message ''duplicate key in storage file'' p))
               else read_entries p n input2 (entries @ [(key, value)])))"

section \<open>The file system\<close>

text \<open>
  The outcome of the calls of one save: whether creating the directory, opening, flushing, closing,
  renaming and removing succeed, and after how many bytes the device refuses to write.
\<close>

record save_faults =
  sf_directory :: bool
  sf_open :: bool
  sf_room :: "nat option"
  sf_flush :: bool
  sf_close :: bool
  sf_rename :: bool
  sf_remove :: bool

definition no_faults :: save_faults where
  "no_faults =
     \<lparr> sf_directory = False, sf_open = False, sf_room = None, sf_flush = False, sf_close = False,
       sf_rename = False, sf_remove = False \<rparr>"

record load_faults =
  lf_inspect :: bool
  lf_open :: bool

text \<open>
  The files by path, all their earlier versions, and the outcomes of the calls of the saves to
  come; when the list is used up nothing fails.
\<close>

record disk =
  files :: "path \<rightharpoonup> bytes"
  journal :: "(path \<rightharpoonup> bytes) list"
  faults :: "save_faults list"

definition set_file :: "disk \<Rightarrow> path \<Rightarrow> bytes option \<Rightarrow> disk" where
  "set_file d p c =
     (let fs = (files d)(p := c) in d\<lparr>files := fs, journal := journal d @ [fs]\<rparr>)"

definition next_faults :: "disk \<Rightarrow> save_faults \<times> disk" where
  "next_faults d =
     (case faults d of [] \<Rightarrow> (no_faults, d) | f # fs \<Rightarrow> (f, d\<lparr>faults := fs\<rparr>))"

definition rename_file :: "disk \<Rightarrow> path \<Rightarrow> path \<Rightarrow> disk" where
  "rename_file d old new =
     (let fs = (files d)(new := files d old, old := None)
      in d\<lparr>files := fs, journal := journal d @ [fs]\<rparr>)"

section \<open>Output streams\<close>

record ostream =
  os_disk :: disk
  os_path :: path
  os_room :: "nat option"

definition append_data :: "ostream \<Rightarrow> bytes \<Rightarrow> ostream" where
  "append_data out data =
     out\<lparr>os_disk := set_file (os_disk out) (os_path out)
            (map_option (\<lambda>c. c @ data) (files (os_disk out) (os_path out))),
         os_room := map_option (\<lambda>r. r - length data) (os_room out)\<rparr>"

definition write_exact :: "ostream \<Rightarrow> bytes \<Rightarrow> (unit, ostream) outcome" where
  "write_exact out data =
     (case os_room out of
        None \<Rightarrow> Ret () (append_data out data)
      | Some r \<Rightarrow>
          if length data \<le> r then Ret () (append_data out data)
          else Exc (StorageError ''failed to write storage snapshot'') (append_data out (take r data)))"

definition write_uint64 :: "ostream \<Rightarrow> u64 \<Rightarrow> (unit, ostream) outcome" where
  "write_uint64 out value = write_exact out (le_bytes value)"

definition write_field :: "ostream \<Rightarrow> bytes \<Rightarrow> (unit, ostream) outcome" where
  "write_field out field =
     (if length field > kMaximumFieldBytes
      then Exc (StorageError ''key or value exceeds the storage size limit'') out
      else and_then (write_uint64 out (of_nat (length field))) (\<lambda>_ out1. write_exact out1 field))"

fun write_entries :: "ostream \<Rightarrow> EntryMap \<Rightarrow> (unit, ostream) outcome" where
  "write_entries out [] = Ret () out"
| "write_entries out ((key, value) # es) =
     and_then (write_field out key) (\<lambda>_ out1.
     and_then (write_field out1 value) (\<lambda>_ out2. write_entries out2 es))"

section \<open>Loading and saving\<close>

text \<open>
  The order in which a range-based loop visits an \<open>unordered_map\<close> is chosen by the implementation:
  \<open>rank\<close> is that choice, an arbitrary ranking of the keys of each map.
\<close>

type_synonym hash_order = "EntryMap \<Rightarrow> bytes \<Rightarrow> nat"

definition iterate :: "hash_order \<Rightarrow> EntryMap \<Rightarrow> EntryMap" where
  "iterate rank entries = sort_key (\<lambda>e. rank entries (fst e)) entries"

definition new_FilePersistence :: "path \<Rightarrow> error + path" where
  "new_FilePersistence p =
     (if p = [] then Inl (InvalidArgument ''storage file path must not be empty'') else Inr p)"

definition parse_snapshot :: "path \<Rightarrow> bytes \<Rightarrow> error + EntryMap" where
  "parse_snapshot p input =
     (case read_exact input (length kFileMagic) of
        Inl e \<Rightarrow> Inl e
      | Inr (magic, input1) \<Rightarrow>
          if magic \<noteq> kFileMagic
          then Inl (StorageError (error_message ''unsupported storage file format'' p))
          else
            (case read_uint64 input1 of
               Inl e \<Rightarrow> Inl e
             | Inr (entry_count, input2) \<Rightarrow>
                 if unat entry_count > kMaximumEntries
                 then Inl (StorageError (error_message ''invalid entry count in storage file'' p))
                 else
                   (case read_entries p (unat entry_count) input2 [] of
                      Inl e \<Rightarrow> Inl e
                    | Inr (entries, input3) \<Rightarrow>
                        if input3 \<noteq> []
                        then Inl (StorageError
                               (error_message ''unexpected data at end of storage file'' p))
                        else Inr entries)))"

definition FilePersistence_load :: "load_faults \<Rightarrow> path \<Rightarrow> disk \<Rightarrow> error + EntryMap" where
  "FilePersistence_load lf p d =
     (if lf_inspect lf then Inl (StorageError (error_message ''failed to inspect storage file'' p))
      else
        (case files d p of
           None \<Rightarrow> Inr []
         | Some contents \<Rightarrow>
             if lf_open lf then Inl (StorageError (error_message ''failed to open storage file'' p))
             else parse_snapshot p contents))"

text \<open>The body of the try block, up to and including the rename.\<close>

definition write_snapshot ::
    "hash_order \<Rightarrow> save_faults \<Rightarrow> path \<Rightarrow> path \<Rightarrow> EntryMap \<Rightarrow> disk \<Rightarrow> (unit, disk) outcome" where
  "write_snapshot rank f p tmp entries d =
     (if sf_open f
      then Exc (StorageError (error_message ''failed to open temporary storage file'' tmp)) d
      else
        (let out = \<lparr> os_disk = set_file d tmp (Some []), os_path = tmp, os_room = sf_room f \<rparr>
         in case and_then (write_exact out kFileMagic) (\<lambda>_ out1.
                 and_then (write_uint64 out1 (of_nat (length entries))) (\<lambda>_ out2.
                 write_entries out2 (iterate rank entries))) of
              Exc e out3 \<Rightarrow> Exc e (os_disk out3)
            | Ret _ out3 \<Rightarrow>
                if sf_flush f
                then Exc (StorageError (error_message ''failed to flush storage file'' tmp)) (os_disk out3)
                else if sf_close f
                then Exc (StorageError (error_message ''failed to close storage file'' tmp)) (os_disk out3)
                else if sf_rename f
                then Exc (StorageError (error_message ''failed to replace storage file'' p)) (os_disk out3)
                else Ret () (rename_file (os_disk out3) tmp p)))"

definition remove_if_present :: "save_faults \<Rightarrow> path \<Rightarrow> disk \<Rightarrow> disk" where
  "remove_if_present f p d =
     (if sf_remove f \<or> files d p = None then d else set_file d p None)"

definition FilePersistence_save ::
    "hash_order \<Rightarrow> path \<Rightarrow> EntryMap \<Rightarrow> disk \<Rightarrow> (unit, disk) outcome" where
  "FilePersistence_save rank p entries d =
     (if length entries > kMaximumEntries
      then Exc (StorageError ''entry count exceeds the storage size limit'') d
      else
        (let (f, d1) = next_faults d; parent = parent_path p
         in if parent \<noteq> [] \<and> sf_directory f
            then Exc (StorageError (error_message ''failed to create storage directory'' parent)) d1
            else
              (let tmp = p @ ''.tmp''
               in case write_snapshot rank f p tmp entries d1 of
                    Ret u d2 \<Rightarrow> Ret u d2
                  | Exc e d2 \<Rightarrow> Exc e (remove_if_present f tmp d2))))"

section \<open>The file format\<close>

definition encode_field :: "bytes \<Rightarrow> bytes" where
  "encode_field field = le_bytes (of_nat (length field)) @ field"

fun encode_entries :: "EntryMap \<Rightarrow> bytes" where
  "encode_entries [] = []"
| "encode_entries ((key, value) # es) = encode_field key @ encode_field value @ encode_entries es"

definition encode_snapshot :: "EntryMap \<Rightarrow> bytes" where
  "encode_snapshot es = kFileMagic @ le_bytes (of_nat (length es)) @ encode_entries es"

text \<open>The sizes the format can hold.\<close>

definition fits_format :: "EntryMap \<Rightarrow> bool" where
  "fits_format es \<longleftrightarrow> length es \<le> kMaximumEntries \<and>
     (\<forall>(k, v) \<in> set es. length k \<le> kMaximumFieldBytes \<and> length v \<le> kMaximumFieldBytes)"

lemma read_exact_append [simp]: "length xs = n \<Longrightarrow> read_exact (xs @ ys) n = Inr (xs, ys)"
  by (auto simp: read_exact_def)

lemma read_uint64_bytes [simp]: "read_uint64 (le_bytes v @ rest) = Inr (v, rest)"
  by (simp add: read_uint64_def)

lemma read_field_encode [simp]:
  assumes "length f \<le> kMaximumFieldBytes"
  shows "read_field (encode_field f @ rest) = Inr (f, rest)"
proof -
  have "length f < 2 ^ 64" using assms by (simp add: kMaximumFieldBytes_def)
  then show ?thesis using assms by (simp add: read_field_def encode_field_def)
qed

lemma find_entry_None: "find_entry es k = None \<longleftrightarrow> k \<notin> fst ` set es"
  by (simp add: find_entry_def map_of_eq_None_iff)

lemma read_entries_encode:
  "map_ok (acc @ es) \<Longrightarrow>
   (\<And>k v. (k, v) \<in> set es \<Longrightarrow> length k \<le> kMaximumFieldBytes \<and> length v \<le> kMaximumFieldBytes) \<Longrightarrow>
   read_entries p (length es) (encode_entries es @ rest) acc = Inr (acc @ es, rest)"
proof (induction es arbitrary: acc)
  case (Cons e es)
  obtain k v where e: "e = (k, v)" by fastforce
  have "find_entry acc k = None" using Cons.prems(1) e by (auto simp: find_entry_None map_ok_def)
  moreover have "map_ok ((acc @ [(k, v)]) @ es)" using Cons.prems(1) e by simp
  moreover have "length k \<le> kMaximumFieldBytes" "length v \<le> kMaximumFieldBytes"
    "\<And>k v. (k, v) \<in> set es \<Longrightarrow> length k \<le> kMaximumFieldBytes \<and> length v \<le> kMaximumFieldBytes"
    using Cons.prems(2) e by auto
  ultimately show ?case
    using Cons.IH [of "acc @ [(k, v)]"] e by simp
qed simp

lemma parse_encode:
  assumes "map_ok es" "fits_format es"
  shows "parse_snapshot p (encode_snapshot es) = Inr es"
proof -
  have n: "length es < 2 ^ 64" "length es \<le> kMaximumEntries"
    using assms(2) by (auto simp: fits_format_def kMaximumEntries_def)
  have r: "read_entries p (length es) (encode_entries es) [] = Inr (es, [])"
    using read_entries_encode [of "[]" es p "[]"] assms by (auto simp: fits_format_def)
  show ?thesis
    using n r unfolding parse_snapshot_def encode_snapshot_def by simp
qed

text \<open>A loaded map has distinct keys, whatever the file contains.\<close>

lemma read_entries_map_ok:
  "read_entries p n input acc = Inr (es, rest) \<Longrightarrow> map_ok acc \<Longrightarrow> map_ok es"
proof (induction p n input acc rule: read_entries.induct)
  case (2 p n input acc)
  then show ?case
    by (auto simp: find_entry_None map_ok_def split: sum.splits prod.splits if_splits)
qed auto

lemma parse_map_ok: "parse_snapshot p input = Inr es \<Longrightarrow> map_ok es"
  by (auto simp: parse_snapshot_def split: sum.splits prod.splits if_splits dest: read_entries_map_ok)

section \<open>What a save does to the disk\<close>

text \<open>
  \<open>only_changes p d d'\<close>: from \<open>d\<close> to \<open>d'\<close> no file but \<open>p\<close> was touched, at no moment in between.
\<close>

definition only_changes :: "path \<Rightarrow> disk \<Rightarrow> disk \<Rightarrow> bool" where
  "only_changes p d d' \<longleftrightarrow>
     (\<forall>q. q \<noteq> p \<longrightarrow> files d' q = files d q) \<and>
     (\<exists>js. journal d' = journal d @ js \<and> (\<forall>fs \<in> set js. \<forall>q. q \<noteq> p \<longrightarrow> fs q = files d q))"

lemma only_changes_refl [simp]: "only_changes p d d"
  by (simp add: only_changes_def)

lemma only_changes_trans:
  assumes "only_changes p d d'" "only_changes p d' d''"
  shows "only_changes p d d''"
proof -
  obtain js where js: "journal d' = journal d @ js" "\<forall>fs \<in> set js. \<forall>q. q \<noteq> p \<longrightarrow> fs q = files d q"
    using assms(1) by (auto simp: only_changes_def)
  obtain ks where ks: "journal d'' = journal d' @ ks" "\<forall>fs \<in> set ks. \<forall>q. q \<noteq> p \<longrightarrow> fs q = files d' q"
    using assms(2) by (auto simp: only_changes_def)
  have "\<forall>q. q \<noteq> p \<longrightarrow> files d'' q = files d q" "\<forall>q. q \<noteq> p \<longrightarrow> files d' q = files d q"
    using assms by (simp_all add: only_changes_def)
  then show ?thesis
    unfolding only_changes_def using js ks by (intro conjI exI [of _ "js @ ks"]) auto
qed

lemma only_changes_set_file [simp]: "only_changes p d (set_file d p c)"
  by (simp add: only_changes_def set_file_def Let_def)

lemma files_set_file [simp]: "files (set_file d p c) = (files d)(p := c)"
  by (simp add: set_file_def Let_def)

text \<open>\<open>wrote out data out'\<close>: the stream appended exactly \<open>data\<close> to its file.\<close>

definition wrote :: "ostream \<Rightarrow> bytes \<Rightarrow> ostream \<Rightarrow> bool" where
  "wrote out data out' \<longleftrightarrow>
     os_path out' = os_path out \<and> only_changes (os_path out) (os_disk out) (os_disk out') \<and>
     files (os_disk out') (os_path out) =
       map_option (\<lambda>c. c @ data) (files (os_disk out) (os_path out))"

definition touched :: "ostream \<Rightarrow> ostream \<Rightarrow> bool" where
  "touched out out' \<longleftrightarrow>
     os_path out' = os_path out \<and> only_changes (os_path out) (os_disk out) (os_disk out')"

abbreviation writes :: "ostream \<Rightarrow> bytes \<Rightarrow> bool \<Rightarrow> ('a, ostream) outcome \<Rightarrow> bool" where
  "writes out data ok r \<equiv>
     post (\<lambda>_ out'. wrote out data out' \<and> ok) (\<lambda>e out'. touched out out') r"

lemma wrote_touched: "wrote out data out' \<Longrightarrow> touched out out'"
  by (simp add: wrote_def touched_def)

lemma wrote_trans: "wrote out xs out1 \<Longrightarrow> wrote out1 ys out2 \<Longrightarrow> wrote out (xs @ ys) out2"
  by (auto simp: wrote_def option.map_comp comp_def intro: only_changes_trans)

lemma touched_trans: "touched out out1 \<Longrightarrow> touched out1 out2 \<Longrightarrow> touched out out2"
  by (auto simp: touched_def intro: only_changes_trans)

lemma writes_then:
  assumes "writes out xs ok r" "\<And>x out1. writes out1 ys ok' (f x out1)"
  shows "writes out (xs @ ys) (ok \<and> ok') (and_then r f)"
proof (cases r)
  case (Ret x out1)
  then have w: "wrote out xs out1" ok using assms(1) by auto
  show ?thesis
    using Ret w
    by (auto intro!: post_mono [OF assms(2)] intro: wrote_trans touched_trans [OF wrote_touched])
qed (use assms(1) in auto)

lemma append_data_wrote: "wrote out data (append_data out data)"
  by (simp add: wrote_def append_data_def)

lemma write_exact_writes: "writes out data True (write_exact out data)"
  using append_data_wrote [of out data] wrote_touched [OF append_data_wrote [of out]]
  by (simp add: write_exact_def split: option.split)

lemma write_field_writes:
  "writes out (encode_field f) (length f \<le> kMaximumFieldBytes) (write_field out f)"
proof (cases "length f \<le> kMaximumFieldBytes")
  case True
  have "writes out (le_bytes (of_nat (length f)) @ f) (True \<and> True)
      (and_then (write_uint64 out (of_nat (length f))) (\<lambda>_ out1. write_exact out1 f))"
    unfolding write_uint64_def by (intro writes_then write_exact_writes)
  then show ?thesis using True by (simp add: write_field_def encode_field_def)
qed (simp add: write_field_def touched_def)

lemma write_entries_writes:
  "writes out (encode_entries es)
     (\<forall>(k, v) \<in> set es. length k \<le> kMaximumFieldBytes \<and> length v \<le> kMaximumFieldBytes)
     (write_entries out es)"
proof (induction es arbitrary: out)
  case Nil
  show ?case by (cases "files (os_disk out) (os_path out)") (simp_all add: wrote_def)
next
  case (Cons e es)
  obtain k v where e: "e = (k, v)" by fastforce
  let ?fits = "\<forall>(k, v) \<in> set es. length k \<le> kMaximumFieldBytes \<and> length v \<le> kMaximumFieldBytes"
  have "writes out (encode_field k @ encode_field v @ encode_entries es)
      (length k \<le> kMaximumFieldBytes \<and> length v \<le> kMaximumFieldBytes \<and> ?fits)
      (write_entries out (e # es))"
    unfolding e write_entries.simps by (intro writes_then write_field_writes Cons.IH)
  then show ?case by (rule post_mono) (auto simp: e)
qed

text \<open>The stream operations of a save write exactly the encoded snapshot.\<close>

lemma write_all_writes:
  "writes out (kFileMagic @ le_bytes n @ encode_entries es)
     (\<forall>(k, v) \<in> set es. length k \<le> kMaximumFieldBytes \<and> length v \<le> kMaximumFieldBytes)
     (and_then (write_exact out kFileMagic) (\<lambda>_ out1.
      and_then (write_uint64 out1 n) (\<lambda>_ out2. write_entries out2 es)))"
proof -
  have "writes out (kFileMagic @ le_bytes n @ encode_entries es) (True \<and> True \<and>
       (\<forall>(k, v) \<in> set es. length k \<le> kMaximumFieldBytes \<and> length v \<le> kMaximumFieldBytes))
     (and_then (write_exact out kFileMagic) (\<lambda>_ out1.
      and_then (write_uint64 out1 n) (\<lambda>_ out2. write_entries out2 es)))"
    unfolding write_uint64_def by (intro writes_then write_exact_writes write_entries_writes)
  then show ?thesis by simp
qed

lemma mset_iterate [simp]: "mset (iterate rank es) = mset es"
  by (simp add: iterate_def)

lemma iterate_simps [simp]:
  "set (iterate rank es) = set es" "length (iterate rank es) = length es"
  "map_ok (iterate rank es) \<longleftrightarrow> map_ok es"
  by (simp_all add: iterate_def map_ok_def distinct_map)

lemma find_entry_eq: "map_ok es \<Longrightarrow> map_ok es' \<Longrightarrow> set es = set es' \<Longrightarrow> find_entry es = find_entry es'"
  by (simp add: find_entry_def [abs_def] map_ok_def map_of_inject_set)

lemma find_entry_iterate [simp]: "map_ok es \<Longrightarrow> find_entry (iterate rank es) = find_entry es"
  by (rule find_entry_eq) simp_all

section \<open>Saving\<close>

text \<open>
  \<open>replaced p c d d'\<close>: the file \<open>p\<close> now has the contents \<open>c\<close>, and at every moment in between it had
  the old contents or \<open>c\<close>. \<open>kept p d d'\<close>: it had the old contents throughout.
\<close>

definition replaced :: "path \<Rightarrow> bytes \<Rightarrow> disk \<Rightarrow> disk \<Rightarrow> bool" where
  "replaced p c d d' \<longleftrightarrow>
     files d' p = Some c \<and>
     (\<exists>js. journal d' = journal d @ js \<and> (\<forall>fs \<in> set js. fs p = files d p \<or> fs p = Some c))"

definition kept :: "path \<Rightarrow> disk \<Rightarrow> disk \<Rightarrow> bool" where
  "kept p d d' \<longleftrightarrow>
     files d' p = files d p \<and>
     (\<exists>js. journal d' = journal d @ js \<and> (\<forall>fs \<in> set js. fs p = files d p))"

lemma only_changes_kept: "only_changes q d d' \<Longrightarrow> p \<noteq> q \<Longrightarrow> kept p d d'"
  by (auto simp: only_changes_def kept_def)

lemma kept_refl [simp]: "kept p d d"
  by (simp add: kept_def)

lemma kept_trans:
  assumes "kept p d d'" "kept p d' d''"
  shows "kept p d d''"
proof -
  obtain js ks where "journal d' = journal d @ js" "\<forall>fs \<in> set js. fs p = files d p"
    "journal d'' = journal d' @ ks" "\<forall>fs \<in> set ks. fs p = files d p"
    using assms by (auto simp: kept_def)
  then show ?thesis
    using assms unfolding kept_def by (intro conjI exI [of _ "js @ ks"]) auto
qed

lemma rename_replaced:
  assumes "kept p d d'" "files d' tmp = Some c" "p \<noteq> tmp"
  shows "replaced p c d (rename_file d' tmp p)"
proof -
  obtain js where "journal d' = journal d @ js" "\<forall>fs \<in> set js. fs p = files d p"
    using assms(1) by (auto simp: kept_def)
  then show ?thesis
    using assms(2,3) unfolding replaced_def rename_file_def Let_def
    by (auto intro!: exI [of _ "js @ [(files d')(p := Some c, tmp := None)]"])
qed

lemma write_snapshot_spec:
  assumes "p \<noteq> tmp" "length es \<le> kMaximumEntries"
  shows "post (\<lambda>_ d'. replaced p (encode_snapshot (iterate rank es)) d d' \<and> fits_format es)
    (\<lambda>_ d'. kept p d d') (write_snapshot rank f p tmp es d)"
proof (cases "sf_open f")
  case False
  define out where "out = \<lparr> os_disk = set_file d tmp (Some []), os_path = tmp, os_room = sf_room f \<rparr>"
  define w where "w = and_then (write_exact out kFileMagic) (\<lambda>_ out1.
      and_then (write_uint64 out1 (of_nat (length es))) (\<lambda>_ out2. write_entries out2 (iterate rank es)))"
  let ?fits = "\<forall>(k, v) \<in> set es. length k \<le> kMaximumFieldBytes \<and> length v \<le> kMaximumFieldBytes"
  have W: "writes out (encode_snapshot (iterate rank es)) ?fits w"
    using write_all_writes [of out "of_nat (length es)" "iterate rank es"]
    unfolding w_def encode_snapshot_def by simp
  have k: "kept p d (os_disk out')" if "touched out out'" for out'
    using that only_changes_trans [OF only_changes_set_file, of tmp d "Some []"] assms(1)
    by (auto simp: touched_def out_def intro: only_changes_kept)
  show ?thesis
  proof (cases w)
    case (Ret u out')
    then have wr: "wrote out (encode_snapshot (iterate rank es)) out'" and fit: "fits_format es"
      using W assms(2) by (auto simp: fits_format_def)
    have c: "files (os_disk out') tmp = Some (encode_snapshot (iterate rank es))"
      using wr by (simp add: wrote_def out_def)
    show ?thesis
      using False Ret fit k [OF wrote_touched [OF wr]] rename_replaced [OF _ c assms(1)]
      unfolding write_snapshot_def Let_def out_def [symmetric] w_def [symmetric] by simp
  next
    case (Exc e out')
    then show ?thesis
      using False W k unfolding write_snapshot_def Let_def out_def [symmetric] w_def [symmetric]
      by simp
  qed
qed (simp add: write_snapshot_def)

lemma kept_remove: "p \<noteq> tmp \<Longrightarrow> kept p d (remove_if_present f tmp d)"
  by (auto simp: remove_if_present_def intro: only_changes_kept [OF only_changes_set_file])

lemma next_faults_same:
  "next_faults d = (f, d1) \<Longrightarrow> files d1 = files d \<and> journal d1 = journal d"
  by (auto simp: next_faults_def split: list.splits)

lemma save_spec:
  "post (\<lambda>_ d'. replaced p (encode_snapshot (iterate rank es)) d d' \<and> fits_format es)
     (\<lambda>_ d'. kept p d d') (FilePersistence_save rank p es d)"
proof (cases "length es > kMaximumEntries")
  case False
  obtain f d1 where f: "next_faults d = (f, d1)" by fastforce
  have same: "kept p d d' \<longleftrightarrow> kept p d1 d'" "replaced p c d d' \<longleftrightarrow> replaced p c d1 d'" for c d'
    using next_faults_same [OF f] by (simp_all add: kept_def replaced_def)
  have ne: "p \<noteq> p @ ''.tmp''" by simp
  have W: "post (\<lambda>_ d'. replaced p (encode_snapshot (iterate rank es)) d1 d' \<and> fits_format es)
      (\<lambda>_ d'. kept p d1 d') (write_snapshot rank f p (p @ ''.tmp'') es d1)"
    using False by (intro write_snapshot_spec) auto
  show ?thesis
    using False f W kept_trans [OF _ kept_remove [OF ne]]
    by (cases "write_snapshot rank f p (p @ ''.tmp'') es d1")
      (auto simp: FilePersistence_save_def Let_def same)
qed (simp add: FilePersistence_save_def)

text \<open>A file system call of a load that does not fail.\<close>

definition no_load_faults :: load_faults where
  "no_load_faults = \<lparr> lf_inspect = False, lf_open = False \<rparr>"

lemma load_file:
  "FilePersistence_load no_load_faults p d =
     (case files d p of None \<Rightarrow> Inr [] | Some c \<Rightarrow> parse_snapshot p c)"
  by (simp add: FilePersistence_load_def no_load_faults_def split: option.split)

lemma load_map_ok: "FilePersistence_load lf p d = Inr es \<Longrightarrow> map_ok es"
  by (auto simp: FilePersistence_load_def split: if_splits option.splits intro: parse_map_ok)

lemma fits_format_iterate [simp]: "fits_format (iterate rank es) \<longleftrightarrow> fits_format es"
  by (simp add: fits_format_def)

lemma load_replaced:
  "replaced p (encode_snapshot (iterate rank es)) d d' \<Longrightarrow> fits_format es \<Longrightarrow> map_ok es \<Longrightarrow>
   FilePersistence_load no_load_faults p d' = Inr (iterate rank es)"
  by (simp add: load_file replaced_def parse_encode)

lemma load_kept:
  "kept p d d' \<Longrightarrow> FilePersistence_load lf p d' = FilePersistence_load lf p d"
  by (simp add: FilePersistence_load_def kept_def)

text \<open>On a device that does not fail, a map that fits the format is saved.\<close>

lemma write_exact_returns:
  "os_room out = None \<Longrightarrow> \<exists>out'. write_exact out data = Ret () out' \<and> os_room out' = None"
  by (simp add: write_exact_def append_data_def)

lemma write_field_returns:
  assumes "os_room out = None" "length f \<le> kMaximumFieldBytes"
  shows "\<exists>out'. write_field out f = Ret () out' \<and> os_room out' = None"
proof -
  obtain out1 where "write_uint64 out (of_nat (length f)) = Ret () out1" "os_room out1 = None"
    using write_exact_returns [OF assms(1)] unfolding write_uint64_def by blast
  then show ?thesis using write_exact_returns [of out1 f] assms(2) by (simp add: write_field_def)
qed

lemma write_entries_returns:
  "os_room out = None \<Longrightarrow>
   \<forall>(k, v) \<in> set es. length k \<le> kMaximumFieldBytes \<and> length v \<le> kMaximumFieldBytes \<Longrightarrow>
   \<exists>out'. write_entries out es = Ret () out' \<and> os_room out' = None"
proof (induction es arbitrary: out)
  case (Cons e es)
  obtain k v where e: "e = (k, v)" by fastforce
  have kv: "length k \<le> kMaximumFieldBytes" "length v \<le> kMaximumFieldBytes"
    using Cons.prems(2) e by auto
  obtain out1 where 1: "write_field out k = Ret () out1" "os_room out1 = None"
    using write_field_returns [OF Cons.prems(1) kv(1)] by blast
  obtain out2 where 2: "write_field out1 v = Ret () out2" "os_room out2 = None"
    using write_field_returns [OF 1(2) kv(2)] by blast
  show ?case using Cons.IH [OF 2(2)] Cons.prems e 1 2 by simp
qed simp

lemma save_returns:
  assumes "fits_format es" "faults d = []"
  shows "returns (FilePersistence_save rank p es d)"
proof -
  let ?tmp = "p @ ''.tmp''"
  define out where "out = \<lparr> os_disk = set_file d ?tmp (Some []), os_path = ?tmp, os_room = None \<rparr>"
  have "os_room out = None" by (simp add: out_def)
  then obtain out1 where 1: "write_exact out kFileMagic = Ret () out1" "os_room out1 = None"
    using write_exact_returns by blast
  then obtain out2 where 2: "write_uint64 out1 (of_nat (length es)) = Ret () out2" "os_room out2 = None"
    using write_exact_returns unfolding write_uint64_def by blast
  then obtain out3 where 3: "write_entries out2 (iterate rank es) = Ret () out3"
    using write_entries_returns [OF 2(2), of "iterate rank es"] assms(1) by (auto simp: fits_format_def)
  have "\<exists>d'. write_snapshot rank no_faults p ?tmp es d = Ret () d'"
    using 1 2 3 unfolding write_snapshot_def no_faults_def out_def by simp
  then show ?thesis
    using assms by (auto simp: FilePersistence_save_def next_faults_def fits_format_def Let_def no_faults_def)
qed

section \<open>Truncated and extended files\<close>

lemma read_exact_more: "read_exact s n = Inr (x, r) \<Longrightarrow> read_exact (s @ t) n = Inr (x, r @ t)"
  by (auto simp: read_exact_def split: if_splits)

lemma read_uint64_more:
  assumes "read_uint64 s = Inr (x, r)"
  shows "read_uint64 (s @ t) = Inr (x, r @ t)"
proof -
  obtain bs where "read_exact s 8 = Inr (bs, r)" "x = le_value 0 bs"
    using assms by (auto simp: read_uint64_def split: sum.splits)
  then show ?thesis using read_exact_more [of s 8 bs r t] by (simp add: read_uint64_def)
qed

lemma read_field_more:
  assumes "read_field s = Inr (x, r)"
  shows "read_field (s @ t) = Inr (x, r @ t)"
proof -
  obtain n s1 where "read_uint64 s = Inr (n, s1)" "unat n \<le> kMaximumFieldBytes"
    "read_exact s1 (unat n) = Inr (x, r)"
    using assms by (auto simp: read_field_def split: sum.splits if_splits)
  then show ?thesis
    using read_uint64_more [of s n s1 t] read_exact_more [of s1 "unat n" x r t]
    by (simp add: read_field_def)
qed

lemma read_entries_more:
  "read_entries p n s acc = Inr (es, r) \<Longrightarrow> read_entries p n (s @ t) acc = Inr (es, r @ t)"
proof (induction n arbitrary: s acc)
  case (Suc n)
  then obtain k s1 v s2 where "read_field s = Inr (k, s1)" "read_field s1 = Inr (v, s2)"
    "find_entry acc k = None" "read_entries p n s2 (acc @ [(k, v)]) = Inr (es, r)"
    by (auto split: sum.splits if_splits)
  then show ?case
    using Suc.IH [of s2 "acc @ [(k, v)]"] read_field_more [of s k s1 t] read_field_more [of s1 v s2 t]
    by simp
qed simp

text \<open>A file that loads does not load once anything is appended to it.\<close>

lemma parse_more:
  assumes "parse_snapshot p s = Inr es" "t \<noteq> []"
  shows "parse_snapshot p (s @ t) =
    Inl (StorageError (error_message ''unexpected data at end of storage file'' p))"
proof -
  obtain s1 n s2 where s1: "read_exact s (length kFileMagic) = Inr (kFileMagic, s1)"
    and s2: "read_uint64 s1 = Inr (n, s2)" and n: "unat n \<le> kMaximumEntries"
    and r: "read_entries p (unat n) s2 [] = Inr (es, [])"
    using assms(1) by (auto simp: parse_snapshot_def split: sum.splits if_splits)
  show ?thesis
    using read_exact_more [OF s1, of t] read_uint64_more [OF s2, of t] n
      read_entries_more [OF r, of t] assms(2)
    by (simp add: parse_snapshot_def)
qed

section \<open>Exceptions\<close>

abbreviation storage_error :: "error \<Rightarrow> bool" where
  "storage_error e \<equiv> (\<exists>m. e = StorageError m)"

abbreviation only_storage_errors :: "('a, 's) outcome \<Rightarrow> bool" where
  "only_storage_errors r \<equiv> post (\<lambda>_ _. True) (\<lambda>e _. storage_error e) r"

lemma write_exact_throws: "only_storage_errors (write_exact out bs)"
  by (simp add: write_exact_def split: option.splits)

lemma write_field_throws: "only_storage_errors (write_field out f)"
  using write_exact_throws
  by (auto simp: write_field_def write_uint64_def intro!: post_mono [OF write_exact_throws])

lemma write_entries_throws: "only_storage_errors (write_entries out es)"
  by (induction out es rule: write_entries.induct) (auto intro!: post_mono [OF write_field_throws])

lemma save_throws: "only_storage_errors (FilePersistence_save rank p es d)"
proof -
  have w: "only_storage_errors (write_snapshot rank f p tmp es d')" for f tmp d'
  proof -
    let ?out = "\<lparr> os_disk = set_file d' tmp (Some []), os_path = tmp, os_room = sf_room f \<rparr>"
    have "only_storage_errors (and_then (write_exact ?out kFileMagic) (\<lambda>_ out1.
        and_then (write_uint64 out1 (of_nat (length es))) (\<lambda>_ out2. write_entries out2 (iterate rank es))))"
      using write_exact_throws write_entries_throws
      by (auto simp: write_uint64_def intro!: post_mono [OF write_exact_throws])
    then show ?thesis by (auto simp: write_snapshot_def Let_def simp del: post_and_then split: outcome.splits)
  qed
  obtain f d1 where nf: "next_faults d = (f, d1)" by fastforce
  show ?thesis
    using w [of f "p @ ''.tmp''" d1] nf
    by (cases "write_snapshot rank f p (p @ ''.tmp'') es d1") (auto simp: FilePersistence_save_def Let_def)
qed

end
