(* ===== verification/KvStore.thy ===== *)
theory KvStore
  imports FilePersistence
begin

text \<open>
  \<open>KvStore\<close> of \<open>src/storage/kv_store.cpp\<close>: a key-value store that publishes a new map only after the
  persistence layer has saved it. The abstract class \<open>Persistence\<close> is a locale; \<open>FilePersistence\<close>
  implements it.
\<close>

section \<open>The persistence contract\<close>

text \<open>
  A save that returns makes the saved map the one that is loaded next; a save that throws leaves
  what is loaded unchanged; loaded maps have distinct keys.
\<close>

locale persistence =
  fixes load :: "'p \<Rightarrow> error + EntryMap"
    and save :: "EntryMap \<Rightarrow> 'p \<Rightarrow> (unit, 'p) outcome"
  assumes save_law: "map_ok es \<Longrightarrow>
      post (\<lambda>_ d'. \<exists>es'. load d' = Inr es' \<and> find_entry es' = find_entry es)
        (\<lambda>_ d'. load d' = load d) (save es d)"
    and load_law: "load d = Inr es \<Longrightarrow> map_ok es"

section \<open>The store\<close>

record 'p KvStore =
  kv_persistence :: 'p
  kv_entries :: EntryMap

definition new_KvStore :: "('p \<Rightarrow> error + EntryMap) \<Rightarrow> 'p option \<Rightarrow> error + 'p KvStore" where
  "new_KvStore load ptr =
     (case ptr of
        None \<Rightarrow> Inl (InvalidArgument ''persistence must not be null'')
      | Some p \<Rightarrow>
          (case load p of
             Inl e \<Rightarrow> Inl e
           | Inr entries \<Rightarrow> Inr \<lparr> kv_persistence = p, kv_entries = entries \<rparr>))"

text \<open>Saving the updated map and publishing it.\<close>

definition save_and_swap ::
    "(EntryMap \<Rightarrow> 'p \<Rightarrow> (unit, 'p) outcome) \<Rightarrow> 'p KvStore \<Rightarrow> EntryMap \<Rightarrow> (unit, 'p KvStore) outcome" where
  "save_and_swap save s updated_entries =
     (case save updated_entries (kv_persistence s) of
        Ret _ p \<Rightarrow> Ret () (s\<lparr>kv_persistence := p, kv_entries := updated_entries\<rparr>)
      | Exc e p \<Rightarrow> Exc e (s\<lparr>kv_persistence := p\<rparr>))"

definition KvStore_put ::
    "(EntryMap \<Rightarrow> 'p \<Rightarrow> (unit, 'p) outcome) \<Rightarrow> 'p KvStore \<Rightarrow> bytes \<Rightarrow> bytes
     \<Rightarrow> (unit, 'p KvStore) outcome" where
  "KvStore_put save s key v = save_and_swap save s (insert_or_assign key v (kv_entries s))"

definition KvStore_get :: "'p KvStore \<Rightarrow> bytes \<Rightarrow> bytes option" where
  "KvStore_get s key = find_entry (kv_entries s) key"

definition KvStore_erase ::
    "(EntryMap \<Rightarrow> 'p \<Rightarrow> (unit, 'p) outcome) \<Rightarrow> 'p KvStore \<Rightarrow> bytes \<Rightarrow> (bool, 'p KvStore) outcome" where
  "KvStore_erase save s key =
     (let (count, updated_entries) = erase_entry key (kv_entries s)
      in if count = 0 then Ret False s
         else and_then (save_and_swap save s updated_entries) (\<lambda>_ s'. Ret True s'))"

section \<open>Durability\<close>

text \<open>
  The map in memory is the map that the persistence layer would load: a store that is opened again
  at any time, also after failed writes, shows the same contents.
\<close>

definition durable :: "('p \<Rightarrow> error + EntryMap) \<Rightarrow> 'p KvStore \<Rightarrow> bool" where
  "durable load s \<longleftrightarrow>
     map_ok (kv_entries s) \<and>
     (\<exists>es. load (kv_persistence s) = Inr es \<and> find_entry es = find_entry (kv_entries s))"

context persistence
begin

lemma durable_new: "new_KvStore load (Some p) = Inr s \<Longrightarrow> durable load s"
  by (auto simp: new_KvStore_def durable_def split: sum.splits intro: load_law)

lemma durable_reopen:
  "durable load s \<Longrightarrow>
   \<exists>s'. new_KvStore load (Some (kv_persistence s)) = Inr s' \<and> KvStore_get s' = KvStore_get s"
  by (auto simp: durable_def new_KvStore_def KvStore_get_def fun_eq_iff)

lemma save_and_swap_law:
  assumes "durable load s" "map_ok es"
  shows "post (\<lambda>_ s'. durable load s' \<and> KvStore_get s' = find_entry es)
    (\<lambda>_ s'. durable load s' \<and> KvStore_get s' = KvStore_get s) (save_and_swap save s es)"
  using save_law [OF assms(2), of "kv_persistence s"] assms
  by (cases "save es (kv_persistence s)")
    (auto simp: save_and_swap_def durable_def KvStore_get_def [abs_def])

end

sublocale persistence \<subseteq> kv: key_value_store "durable load" "KvStore_put save" KvStore_get
  "KvStore_erase save"
proof
  fix s k v assume d: "durable load s"
  then have ok: "map_ok (insert_or_assign k v (kv_entries s))" by (simp add: durable_def)
  show "post (\<lambda>_ s'. durable load s' \<and> KvStore_get s' = (KvStore_get s)(k \<mapsto> v))
    (\<lambda>_ s'. durable load s' \<and> KvStore_get s' = KvStore_get s) (KvStore_put save s k v)"
    using save_and_swap_law [OF d ok]
    by (simp add: KvStore_put_def KvStore_get_def [abs_def])
next
  fix s k assume d: "durable load s"
  obtain c es where e: "erase_entry k (kv_entries s) = (c, es)" by fastforce
  have "map_ok es" using map_ok_simps(3) [of "kv_entries s" k] d e by (simp add: durable_def)
  note W = save_and_swap_law [OF d this]
  have f: "find_entry es = (find_entry (kv_entries s))(k := None)"
    "c = 0 \<longleftrightarrow> find_entry (kv_entries s) k = None"
    using find_entry_simps(3) [of k "kv_entries s"] erase_entry_count [of k "kv_entries s"] e by auto
  show "post (\<lambda>b s'. durable load s' \<and> KvStore_get s' = (KvStore_get s)(k := None) \<and>
      b = (KvStore_get s k \<noteq> None))
    (\<lambda>_ s'. durable load s' \<and> KvStore_get s' = KvStore_get s) (KvStore_erase save s k)"
    using W d f e
    by (cases "save_and_swap save s es")
      (auto simp: KvStore_erase_def KvStore_get_def [abs_def] fun_upd_idem)
qed

section \<open>Snapshot files\<close>

interpretation snapshot_file: persistence "FilePersistence_load no_load_faults p" "FilePersistence_save rank p"
  for p rank
proof
  fix es :: EntryMap and d assume "map_ok es"
  then show "post (\<lambda>_ d'. \<exists>es'. FilePersistence_load no_load_faults p d' = Inr es' \<and>
      find_entry es' = find_entry es)
    (\<lambda>_ d'. FilePersistence_load no_load_faults p d' = FilePersistence_load no_load_faults p d)
    (FilePersistence_save rank p es d)"
    by (intro post_mono [OF save_spec [of p rank es d]])
      (auto simp: load_replaced load_kept)
qed (rule load_map_ok)

end
