(* ===== verification/NodeInvariant.thy ===== *)
theory NodeInvariant
  imports RaftNodeFacts
begin

text \<open>
  A type invariant of a single node that holds whatever messages arrive and whatever the storage does:
  the containers are indexed within bounds, the timers stay in the configured range and the outbox
  holds well-addressed messages. Every public operation keeps it, also when it throws, and throws
  only what the storage threw or one of the documented errors. Nothing is assumed about the other
  nodes.
\<close>

section \<open>The invariant\<close>

definition timers_ok :: "('st, 'g) RaftNode \<Rightarrow> bool" where
  "timers_ok n \<longleftrightarrow>
     (let c = node_config n in
      0 < cfg_heartbeat_interval c \<and> cfg_heartbeat_interval c < cfg_election_timeout_min c \<and>
      cfg_election_timeout_min c \<le> election_timeout n \<and>
      election_timeout n \<le> cfg_election_timeout_max c \<and>
      0 \<le> election_elapsed n \<and> election_elapsed n < election_timeout n \<and>
      0 \<le> heartbeat_elapsed n \<and> heartbeat_elapsed n < cfg_heartbeat_interval c)"

fun sender_ok :: "NodeId \<Rightarrow> Rpc \<Rightarrow> bool" where
  "sender_ok i (RpcRequestVoteRequest r) = (rvq_candidate_id r = i)"
| "sender_ok i (RpcAppendEntriesRequest r) = (aeq_leader_id r = i)"
| "sender_ok i _ = True"

definition addressed :: "RaftConfig \<Rightarrow> Message \<Rightarrow> bool" where
  "addressed c m \<longleftrightarrow>
     msg_from m = cfg_node_id c \<and> msg_to m \<in> set (cfg_peers c) \<and>
     sender_ok (cfg_node_id c) (msg_rpc m)"

definition node_wf :: "nat \<Rightarrow> ('st, 'g) RaftNode \<Rightarrow> bool" where
  "node_wf L n \<longleftrightarrow>
     rlog n \<noteq> [] \<and> length (rlog n) \<le> L \<and> L < 2 ^ 64 \<and>
     last_applied n \<le> commit_index n \<and> unat (commit_index n) < length (rlog n) \<and>
     members n = insert (node_id n) (set (peers n)) \<and> node_id n \<notin> set (peers n) \<and>
     (node_state n = Leader \<longrightarrow> (\<forall>p \<in> set (peers n). progress_ok n p)) \<and>
     timers_ok n \<and> list_all (addressed (node_config n)) (outbox n)"

text \<open>Exceptions the node may end with: everything but an access outside a container.\<close>

definition benign :: "error \<Rightarrow> bool" where
  "benign e \<longleftrightarrow> e \<noteq> OutOfRange \<and> e \<noteq> UndefinedBehaviour"

definition storage_benign :: "('st, 'g) RaftEnv \<Rightarrow> bool" where
  "storage_benign E \<longleftrightarrow> (\<forall>ps st e st'. storage_save E ps st = (Inl e, st') \<longrightarrow> benign e)"

abbreviation keeps :: "nat \<Rightarrow> ('a, ('st, 'g) RaftNode) outcome \<Rightarrow> bool" where
  "keeps L r \<equiv> post (\<lambda>_ n. node_wf L n) (\<lambda>e n. node_wf L n \<and> benign e) r"

lemma node_wfD:
  assumes "node_wf L n"
  shows "rlog n \<noteq> []" "length (rlog n) \<le> L" "L < 2 ^ 64" "length (rlog n) < 2 ^ 64"
    "last_applied n \<le> commit_index n" "unat (commit_index n) < length (rlog n)"
    "members n = insert (node_id n) (set (peers n))" "node_id n \<notin> set (peers n)"
    "\<And>p. node_state n = Leader \<Longrightarrow> p \<in> set (peers n) \<Longrightarrow> progress_ok n p"
    "timers_ok n" "list_all (addressed (node_config n)) (outbox n)"
  using assms by (auto simp: node_wf_def)

lemma node_wf_mono: "node_wf L n \<Longrightarrow> L \<le> L' \<Longrightarrow> L' < 2 ^ 64 \<Longrightarrow> node_wf L' n"
  by (auto simp: node_wf_def)

lemma keeps_mono: "keeps L r \<Longrightarrow> L \<le> L' \<Longrightarrow> L' < 2 ^ 64 \<Longrightarrow> keeps L' r"
  by (erule post_mono) (auto intro: node_wf_mono)

lemma unat_log_index: "node_wf L n \<Longrightarrow> unat (last_log_index_locked n) = length (rlog n) - 1"
  using node_wfD(1,4) [of L n] by (simp add: last_log_index_locked_def unat_last_index)

lemma le_last_log_index: "node_wf L n \<Longrightarrow> i \<le> last_log_index_locked n \<longleftrightarrow> unat i < length (rlog n)"
  using node_wfD(1,4) [of L n] by (simp add: last_log_index_locked_def le_last_index_iff)

text \<open>The fields an operation may change without touching the invariant.\<close>

lemma node_wf_updates [simp]:
  "node_wf L (n\<lparr>storage := st\<rparr>) \<longleftrightarrow> node_wf L n"
  "node_wf L (n\<lparr>current_term := t\<rparr>) \<longleftrightarrow> node_wf L n"
  "node_wf L (n\<lparr>voted_for := v\<rparr>) \<longleftrightarrow> node_wf L n"
  "node_wf L (n\<lparr>leader_id := l\<rparr>) \<longleftrightarrow> node_wf L n"
  "node_wf L (n\<lparr>votes_received := vs\<rparr>) \<longleftrightarrow> node_wf L n"
  "node_wf L (n\<lparr>append_request_id := ids\<rparr>) \<longleftrightarrow> node_wf L n"
  "node_wf L (n\<lparr>committed_entries := es\<rparr>) \<longleftrightarrow> node_wf L n"
  by (simp_all add: node_wf_def timers_ok_def progress_ok_def Let_def)

lemma node_wf_heartbeat: "node_wf L n \<Longrightarrow> node_wf L (n\<lparr>heartbeat_elapsed := 0\<rparr>)"
  by (simp add: node_wf_def timers_ok_def progress_ok_def Let_def)

lemma node_wf_demote: "node_wf L n \<Longrightarrow> s \<noteq> Leader \<Longrightarrow> node_wf L (n\<lparr>node_state := s\<rparr>)"
  by (simp add: node_wf_def timers_ok_def Let_def)

lemma progress_ok_updates [simp]:
  "progress_ok (n\<lparr>outbox := ms\<rparr>) p \<longleftrightarrow> progress_ok n p"
  "progress_ok (n\<lparr>append_request_id := ids\<rparr>) p \<longleftrightarrow> progress_ok n p"
  "progress_ok (n\<lparr>commit_index := c\<rparr>) p \<longleftrightarrow> progress_ok n p"
  "progress_ok (n\<lparr>last_applied := c\<rparr>) p \<longleftrightarrow> progress_ok n p"
  "progress_ok (n\<lparr>storage := st\<rparr>) p \<longleftrightarrow> progress_ok n p"
  "progress_ok (n\<lparr>committed_entries := es\<rparr>) p \<longleftrightarrow> progress_ok n p"
  by (simp_all add: progress_ok_def)

section \<open>Timers, persistence, sending\<close>

lemma node_wf_reset:
  assumes "uniform_in_range E" "node_wf L n"
  shows "node_wf L (reset_election_timeout_locked E n)"
proof -
  obtain t g where d: "uniform_int E (cfg_election_timeout_min (node_config n))
      (cfg_election_timeout_max (node_config n)) (random n) = (t, g)" by fastforce
  have T: "cfg_election_timeout_min (node_config n) \<le> cfg_election_timeout_max (node_config n)"
    using node_wfD(10) [OF assms(2)] by (simp add: timers_ok_def Let_def)
  have "cfg_election_timeout_min (node_config n) \<le> t" "t \<le> cfg_election_timeout_max (node_config n)"
    using assms(1) T d unfolding uniform_in_range_def by (metis fst_conv)+
  then show ?thesis
    using assms(2) d
    by (simp add: reset_election_timeout_locked_def node_wf_def timers_ok_def progress_ok_def Let_def)
qed

lemma persist_keeps:
  assumes "storage_benign E"
  shows "post (\<lambda>_ n'. \<exists>st. n' = n\<lparr>storage := st\<rparr>) (\<lambda>e n'. (\<exists>st. n' = n\<lparr>storage := st\<rparr>) \<and> benign e)
    (persist_locked E n)"
  using assms by (auto simp: persist_locked_def storage_benign_def split: prod.splits sum.splits)

lemma persist_if_keeps:
  assumes "storage_benign E"
  shows "post (\<lambda>_ n'. \<exists>st. n' = n\<lparr>storage := st\<rparr>) (\<lambda>e n'. (\<exists>st. n' = n\<lparr>storage := st\<rparr>) \<and> benign e)
    (if b then persist_locked E n else Ret () n)"
proof -
  have "n = n\<lparr>storage := storage n\<rparr>" by simp
  then show ?thesis using persist_keeps [OF assms, of n] by (auto intro: exI [of _ "storage n"])
qed

lemma node_wf_send:
  "node_wf L n \<Longrightarrow> p \<in> set (peers n) \<Longrightarrow> sender_ok (node_id n) rpc \<Longrightarrow> node_wf L (send_locked n p rpc)"
  by (simp add: send_locked_def node_wf_def timers_ok_def addressed_def Let_def)

lemma become_follower_keeps:
  assumes "uniform_in_range E" "storage_benign E" "node_wf L n"
  shows "post (\<lambda>_ n'. node_wf L n' \<and> node_state n' = Follower \<and> rlog n' = rlog n \<and>
        commit_index n' = commit_index n \<and> outbox n' = outbox n \<and> node_config n' = node_config n \<and>
        current_term n' = max (current_term n) t)
      (\<lambda>e n'. node_wf L n' \<and> benign e) (become_follower_locked E n t leader)"
proof -
  let ?n1 = "if t > current_term n then n\<lparr>current_term := t, voted_for := None\<rparr> else n"
  let ?n2 = "?n1\<lparr>node_state := Follower, leader_id := leader, votes_received := {},
      next_index := Map.empty, match_index := Map.empty, append_request_id := Map.empty,
      heartbeat_elapsed := 0\<rparr>"
  have "node_wf L ?n2"
    using assms(3) by (simp add: node_wf_def timers_ok_def Let_def)
  then have wf: "node_wf L (reset_election_timeout_locked E ?n2)" using node_wf_reset assms(1) by blast
  show ?thesis
    using wf post_mono [OF persist_keeps [OF assms(2)]]
    by (auto simp: become_follower_locked_def Let_def max_def intro!: post_mono [OF persist_keeps [OF assms(2)]])
qed

section \<open>Replication\<close>

lemma append_messages_addressed:
  "list_all2 (append_message_of n) ps ms \<Longrightarrow> set ps \<subseteq> set (peers n) \<Longrightarrow>
   list_all (addressed (node_config n)) ms"
  by (induction rule: list_all2_induct)
    (auto simp: append_message_of_def addressed_def append_request_for_def)

lemma node_wf_outbox:
  "node_wf L n \<Longrightarrow> list_all (addressed (node_config n)) ms \<Longrightarrow>
   node_wf L (n\<lparr>append_request_id := ids, outbox := outbox n @ ms\<rparr>)"
  by (simp add: node_wf_def timers_ok_def Let_def)

lemma send_append_entries_keeps:
  assumes "node_wf L n" "node_state n = Leader" "p \<in> set (peers n)"
  shows "keeps L (send_append_entries_locked n p)"
proof -
  obtain ids ms where "send_append_entries_to [p] n = Ret () (n\<lparr>append_request_id := ids, outbox := outbox n @ ms\<rparr>)"
    "list_all2 (append_message_of n) [p] ms"
    using send_append_entries_to_spec [of "[p]" n] node_wfD(9) [OF assms] by auto
  then show ?thesis
    using node_wf_outbox [OF assms(1) append_messages_addressed] assms(3)
    by (cases "send_append_entries_locked n p") auto
qed

lemma broadcast_keeps:
  assumes "node_wf L n" "node_state n = Leader"
  shows "keeps L (broadcast_append_entries_locked n)"
proof -
  obtain ids ms where
    "send_append_entries_to (peers n) n = Ret () (n\<lparr>append_request_id := ids, outbox := outbox n @ ms\<rparr>)"
    "list_all2 (append_message_of n) (peers n) ms"
    using send_append_entries_to_spec [of "peers n" n] node_wfD(9) [OF assms] by auto
  then show ?thesis
    using node_wf_outbox [OF assms(1) append_messages_addressed]
    by (simp add: broadcast_append_entries_locked_def)
qed

lemma node_wf_commit:
  assumes "node_wf L n" "commit_index n \<le> c" "unat c < length (rlog n)"
  shows "node_wf L (n\<lparr>commit_index := c\<rparr>)"
  using assms by (auto simp: node_wf_def timers_ok_def Let_def intro: order.trans)

lemma node_wf_deliver: "node_wf L n \<Longrightarrow> node_wf L (deliver n)"
  by (simp add: deliver_def node_wf_def timers_ok_def Let_def)

lemma deliver_fields [simp]:
  "node_state (deliver n) = node_state n" "rlog (deliver n) = rlog n"
  "node_config (deliver n) = node_config n" "storage (deliver n) = storage n" "match_index (deliver n) = match_index n"
  "next_index (deliver n) = next_index n" "outbox (deliver n) = outbox n"
  "current_term (deliver n) = current_term n"
  by (simp_all add: deliver_def)

lemma advance_commit_keeps:
  assumes "node_wf L n" "node_state n = Leader"
  shows "\<exists>b n'. advance_commit_index_locked n = Ret b n' \<and> node_wf L n' \<and> node_state n' = Leader \<and>
    rlog n' = rlog n \<and> node_config n' = node_config n \<and> match_index n' = match_index n"
proof -
  have last: "unat (last_log_index_locked n) < length (rlog n)"
    using unat_log_index [OF assms(1)] node_wfD(1) [OF assms(1)] by (simp add: diff_less)
  have m: "\<And>p. p \<in> set (peers n) \<Longrightarrow> match_index n p \<noteq> None"
    using node_wfD(9) [OF assms] by (auto simp: progress_ok_def)
  consider j where "commit_index n < j" "j \<le> last_log_index_locked n"
      "advance_commit_loop n (last_log_index_locked n) = Ret True (deliver (n\<lparr>commit_index := j\<rparr>))"
    | "advance_commit_loop n (last_log_index_locked n) = Ret False n"
    using advance_commit_loop_spec [of n "last_log_index_locked n"] m last node_wfD(5) [OF assms(1)]
    by blast
  then show ?thesis
  proof cases
    case (1 j)
    have "node_wf L (deliver (n\<lparr>commit_index := j\<rparr>))"
      using 1(1,2) le_last_log_index [OF assms(1)]
      by (intro node_wf_deliver node_wf_commit [OF assms(1)]) auto
    then show ?thesis using 1(3) assms(2) by (auto simp: advance_commit_index_locked_def)
  qed (use assms in \<open>auto simp: advance_commit_index_locked_def\<close>)
qed

lemma advance_then_broadcast:
  assumes "node_wf L n" "node_state n = Leader"
  shows "keeps L (and_then (advance_commit_index_locked n) (\<lambda>_ n1. broadcast_append_entries_locked n1))"
  using advance_commit_keeps [OF assms] by (auto simp: broadcast_keeps)

section \<open>Elections\<close>

lemma become_leader_keeps:
  assumes "storage_benign E" "node_wf L n" "Suc L < 2 ^ 64"
  shows "keeps (Suc L) (become_leader_locked E n)"
proof -
  let ?n1 = "n\<lparr>node_state := Leader, leader_id := Some (node_id n), heartbeat_elapsed := 0\<rparr>"
  let ?n2 = "init_peer_progress (peers ?n1) (last_log_index_locked ?n1 + 1) ?n1"
  let ?n3 = "?n2\<lparr>rlog := rlog ?n2 @ [LogEntry (current_term ?n2) [] True]\<rparr>"
  have "unat (last_log_index_locked n + 1) = length (rlog n)"
    using unat_log_index [OF assms(2)] node_wfD(1,4) [OF assms(2)] unat_plus_one_u64 [of "last_log_index_locked n"]
    by (simp add: Suc_diff_1)
  moreover have "last_log_index_locked ?n1 = last_log_index_locked n" by (simp add: last_log_index_locked_def)
  moreover have "0 < length (rlog n)" using node_wfD(1) [OF assms(2)] by simp
  ultimately have "node_wf (Suc L) ?n3"
    using assms(2,3) by (auto simp: init_peer_progress_spec node_wf_def timers_ok_def progress_ok_def Let_def
        unat_gt_0 word_greater_zero_iff)
  then have wf: "node_wf (Suc L) (?n3\<lparr>storage := st\<rparr>)" for st by simp
  have "node_state (?n3\<lparr>storage := st\<rparr>) = Leader" for st by (simp add: init_peer_progress_spec)
  note rest = advance_then_broadcast [OF wf this]
  show ?thesis
    unfolding become_leader_locked_def Let_def post_and_then [of _ _ "persist_locked E ?n3"]
    by (rule post_mono [OF persist_keeps [OF assms(1)]]) (use rest wf in blast)+
qed

lemma solicit_keeps:
  assumes "storage_benign E" "node_wf L n" "Suc L < 2 ^ 64"
  shows "keeps (Suc L)
    (if card (votes_received n) \<ge> quorum_size_locked n then become_leader_locked E n
     else let request = RequestVoteRequest (current_term n) (node_id n) (last_log_index_locked n)
            (last_log_term_locked n)
          in Ret () (send_to_all (peers n) (RpcRequestVoteRequest request) n))"
  using become_leader_keeps [OF assms] assms(2,3)
  by (auto simp: Let_def send_to_all_spec node_wf_def timers_ok_def addressed_def list_all_iff)

lemma start_election_keeps:
  assumes "uniform_in_range E" "storage_benign E" "node_wf L n" "Suc L < 2 ^ 64"
  shows "keeps (Suc L) (start_election_locked E n)"
proof -
  let ?n1 = "n\<lparr>node_state := Candidate, leader_id := None, current_term := current_term n + 1,
      voted_for := Some (node_id n), votes_received := {node_id n}\<rparr>"
  let ?n2 = "reset_election_timeout_locked E ?n1"
  have "node_wf L ?n1" using assms(3) by (simp add: node_wf_def timers_ok_def Let_def)
  then have wf: "node_wf L ?n2" using node_wf_reset assms(1) by blast
  have same: "node_wf L n3" if "\<exists>st. n3 = ?n2\<lparr>storage := st\<rparr>" for n3 using wf that by auto
  show ?thesis
    unfolding start_election_locked_def Let_def post_and_then [of _ _ "persist_locked E ?n2"]
  proof (rule post_mono [OF persist_keeps [OF assms(2)]])
    fix n3 assume "\<exists>st. n3 = ?n2\<lparr>storage := st\<rparr>"
    from solicit_keeps [OF assms(2) same [OF this] assms(4)]
    show "keeps (Suc L) (if card (votes_received n3) \<ge> quorum_size_locked n3 then become_leader_locked E n3
        else Ret () (send_to_all (peers n3) (RpcRequestVoteRequest (RequestVoteRequest (current_term n3)
          (node_id n3) (last_log_index_locked n3) (last_log_term_locked n3))) n3))"
      by (simp only: Let_def)
  qed (use same node_wf_mono assms(4) in force)
qed

section \<open>Message handlers\<close>

lemma peer_of: "node_wf L n \<Longrightarrow> is_peer_locked n i \<Longrightarrow> i \<in> set (peers n)"
  using node_wfD(7) [of L n] by (auto simp: is_peer_locked_def)

lemma request_vote_keeps:
  assumes "uniform_in_range E" "storage_benign E" "node_wf L n" "i \<in> set (peers n)"
  shows "keeps L (handle_request_vote_locked E n i request)"
proof -
  have R: "node_wf L (reset_election_timeout_locked E (n\<lparr>voted_for := v, storage := st\<rparr>))"
    "node_wf L (reset_election_timeout_locked E n)" for v st
    using node_wf_reset [OF assms(1)] assms(3) by simp_all
  show ?thesis
    using assms(3,4)
    by (auto simp: handle_request_vote_locked_def Let_def intro!: node_wf_send R
        post_mono [OF persist_keeps [OF assms(2)]])
qed

lemma vote_response_keeps:
  assumes "storage_benign E" "node_wf L n" "Suc L < 2 ^ 64"
  shows "keeps (Suc L) (handle_request_vote_response_locked E n i response)"
  using become_leader_keeps [OF assms(1) _ assms(3), of "n\<lparr>votes_received := insert i (votes_received n)\<rparr>"]
    node_wf_mono [OF assms(2), of "Suc L"] assms(2,3)
  by (simp add: handle_request_vote_response_locked_def Let_def)

lemma reject_keeps: "node_wf L n \<Longrightarrow> i \<in> set (peers n) \<Longrightarrow> node_wf L (reject_append n i request c t)"
  by (simp add: reject_append_def node_wf_send)

lemma node_wf_log:
  assumes "node_wf L n" "node_state n \<noteq> Leader" "l \<noteq> []" "length l \<le> L'" "L' < 2 ^ 64"
    "unat (commit_index n) < length l"
  shows "node_wf L' (n\<lparr>rlog := l\<rparr>)"
  using assms by (simp add: node_wf_def timers_ok_def Let_def)

lemma log_index_next:
  assumes "node_wf L n" "\<not> i > last_log_index_locked n"
  shows "unat (i + 1) \<le> length (rlog n)" "unat i < length (rlog n)"
proof -
  show "unat i < length (rlog n)" using assms(2) le_last_log_index [OF assms(1)] by (simp add: not_less)
  then show "unat (i + 1) \<le> length (rlog n)"
    using node_wfD(4) [OF assms(1)] unat_plus_one_u64 [of i] by simp
qed

text \<open>The commit index of the leader, cut to the local log.\<close>

lemma commit_step_keeps:
  assumes "node_wf L n"
  shows "\<exists>n'. (if leader_commit > commit_index n
       then apply_committed_entries_locked (n\<lparr>commit_index := min leader_commit (last_log_index_locked n)\<rparr>)
       else Ret () n) = Ret () n' \<and> node_wf L n' \<and> node_config n' = node_config n \<and> outbox n' = outbox n \<and>
      storage n' = storage n"
proof (cases "leader_commit > commit_index n")
  case True
  let ?n = "n\<lparr>commit_index := min leader_commit (last_log_index_locked n)\<rparr>"
  have "commit_index n \<le> last_log_index_locked n"
    using node_wfD(6) [OF assms] le_last_log_index [OF assms] by simp
  moreover have "unat (min leader_commit (last_log_index_locked n)) < length (rlog n)"
    using le_last_log_index [OF assms, of "min leader_commit (last_log_index_locked n)"] by simp
  ultimately have wf: "node_wf L ?n" using True node_wf_commit [OF assms] by simp
  then have "apply_committed_entries_locked ?n = Ret () (deliver ?n)"
    using apply_committed_entries_deliver [of ?n] node_wfD(5,6) by blast
  then show ?thesis using node_wf_deliver [OF wf] True by auto
qed (use assms in auto)

lemma scan_done_wf:
  assumes "node_wf L n" "node_state n \<noteq> Leader" and bound: "L + length inc < 2 ^ 64"
    and prev: "\<not> i > last_log_index_locked n"
    and scanned: "scan_entries (rlog n) (commit_index n) (i + 1) inc = ScanDone l rest truncated"
  shows "node_wf (L + length inc) (n\<lparr>rlog := l @ rest\<rparr>)"
    and "truncated \<or> rest \<noteq> [] \<Longrightarrow> l @ rest = take (unat (i + 1)) (rlog n) @ inc"
    and "\<not> (truncated \<or> rest \<noteq> []) \<Longrightarrow> l @ rest = rlog n"
proof -
  note scan = scan_entries_spec [OF node_wfD(1) [OF assms(1)] log_index_next(1) [OF assms(1) prev]
      node_wfD(4,6) [OF assms(1)], of inc]
  show eq: "truncated \<or> rest \<noteq> [] \<Longrightarrow> l @ rest = take (unat (i + 1)) (rlog n) @ inc"
    "\<not> (truncated \<or> rest \<noteq> []) \<Longrightarrow> l @ rest = rlog n"
    using scan scanned by simp_all
  have commit: "unat (commit_index n) < length (l @ rest)"
    using scan scanned node_wfD(6) [OF assms(1)] by (auto split: if_splits)
  have len: "length (l @ rest) \<le> L + length inc"
  proof (cases "truncated \<or> rest \<noteq> []")
    case True
    from arg_cong [OF eq(1) [OF True], of length] show ?thesis using node_wfD(2) [OF assms(1)] by simp
  next
    case False
    from arg_cong [OF eq(2) [OF False], of length] show ?thesis using node_wfD(2) [OF assms(1)] by simp
  qed
  have "node_wf (L + length inc) n" using node_wf_mono [OF assms(1), of "L + length inc"] bound by simp
  then show "node_wf (L + length inc) (n\<lparr>rlog := l @ rest\<rparr>)"
    using assms(2) commit len bound by (intro node_wf_log) auto
qed

text \<open>The part of the handler after the save always returns.\<close>

definition acknowledge ::
    "('st, 'g) RaftNode \<Rightarrow> NodeId \<Rightarrow> AppendEntriesRequest \<Rightarrow> (unit, ('st, 'g) RaftNode) outcome" where
  "acknowledge n i q =
     and_then
       (if aeq_leader_commit q > commit_index n then
          apply_committed_entries_locked
            (n\<lparr>commit_index := min (aeq_leader_commit q) (last_log_index_locked n)\<rparr>)
        else Ret () n)
       (\<lambda>_ n3. let matched = aeq_previous_log_index q + of_nat (length (aeq_entries q))
          in Ret () (send_locked n3 i (RpcAppendEntriesResponse (AppendEntriesResponse
            (current_term n3) True matched (matched + 1) None (aeq_request_id q)))))"

lemma append_and_commit_done:
  "scan_entries (rlog n) (commit_index n) (aeq_previous_log_index q + 1) (aeq_entries q) =
     ScanDone l rest truncated \<Longrightarrow>
   append_and_commit E n i q =
     and_then (if truncated \<or> rest \<noteq> [] then persist_locked E (n\<lparr>rlog := l @ rest\<rparr>)
               else Ret () (n\<lparr>rlog := l @ rest\<rparr>)) (\<lambda>_ n2. acknowledge n2 i q)"
  by (simp add: append_and_commit_def acknowledge_def Let_def)

lemma acknowledge_returns:
  assumes "node_wf L n" "i \<in> set (peers n)"
  shows "\<exists>n'. acknowledge n i q = Ret () n' \<and> node_wf L n' \<and> storage n' = storage n \<and>
    (\<exists>r. outbox n' = outbox n @ [Message (node_id n) i (RpcAppendEntriesResponse r)] \<and> aer_success r \<and>
       aer_request_id r = aeq_request_id q)"
proof -
  obtain n3 where n3: "(if aeq_leader_commit q > commit_index n
      then apply_committed_entries_locked (n\<lparr>commit_index := min (aeq_leader_commit q) (last_log_index_locked n)\<rparr>)
      else Ret () n) = Ret () n3" "node_wf L n3" "node_config n3 = node_config n" "outbox n3 = outbox n"
      "storage n3 = storage n"
    using commit_step_keeps [OF assms(1), of "aeq_leader_commit q"] by blast
  let ?matched = "aeq_previous_log_index q + of_nat (length (aeq_entries q))"
  let ?n' = "send_locked n3 i (RpcAppendEntriesResponse (AppendEntriesResponse (current_term n3) True ?matched
      (?matched + 1) None (aeq_request_id q)))"
  have "acknowledge n i q = Ret () ?n'" unfolding acknowledge_def n3(1) by (simp add: Let_def)
  moreover have "node_wf L ?n'" using n3 assms(2) by (simp add: node_wf_send)
  ultimately show ?thesis using n3(3-5) by (auto simp: send_locked_def)
qed

lemma append_and_commit_keeps:
  assumes "storage_benign E" "node_wf L n" "node_state n \<noteq> Leader" "i \<in> set (peers n)"
    and bound: "L + length (aeq_entries request) < 2 ^ 64"
    and prev: "\<not> aeq_previous_log_index request > last_log_index_locked n"
  shows "keeps (L + length (aeq_entries request)) (append_and_commit E n i request)"
proof (cases "scan_entries (rlog n) (commit_index n) (aeq_previous_log_index request + 1) (aeq_entries request)")
  case (ScanDone l rest truncated)
  let ?L = "L + length (aeq_entries request)"
  note wf = scan_done_wf(1) [OF assms(2,3) bound prev ScanDone]
  show ?thesis
    unfolding append_and_commit_done [OF ScanDone] post_and_then
  proof (rule post_mono [OF persist_if_keeps [OF assms(1)]], goal_cases)
    case (1 _ n2)
    then have "node_wf ?L n2" "i \<in> set (peers n2)" using wf assms(4) by auto
    from acknowledge_returns [OF this, of request] show ?case by auto
  qed (use wf in auto)
next
  case ScanOutOfBounds
  then show ?thesis
    using scan_entries_spec [OF node_wfD(1) [OF assms(2)] log_index_next(1) [OF assms(2) prev]
        node_wfD(4,6) [OF assms(2)], of "aeq_entries request"] by simp
qed (use node_wf_mono [OF assms(2), of "L + length (aeq_entries request)"] bound assms(4) in
    \<open>simp_all add: append_and_commit_def benign_def reject_keeps\<close>)

lemma follow_keeps:
  assumes "uniform_in_range E" "storage_benign E" "node_wf L n"
  shows "post (\<lambda>_ n'. node_wf L n' \<and> node_state n' \<noteq> Leader \<and> node_config n' = node_config n \<and>
        outbox n' = outbox n)
      (\<lambda>e n'. node_wf L n' \<and> benign e)
      (if node_state n \<noteq> Follower \<or> leader_id n \<noteq> Some l then
         become_follower_locked E n (current_term n) (Some l)
       else Ret () (reset_election_timeout_locked E n))"
  using node_wf_reset [OF assms(1,3)]
  by (auto intro: post_mono [OF become_follower_keeps [OF assms]])

text \<open>
  The structure of the handler: an early rejection, or following the leader and then a rejection or
  the comparison of the logs. The second case on the bounds covers the accesses to the log.
\<close>

lemma append_entries_post:
  assumes "\<And>c t. P (reject_append n i q c t)"
    and first: "post (\<lambda>_ n1. F n1) R
      (if node_state n \<noteq> Follower \<or> leader_id n \<noteq> Some (aeq_leader_id q) then
         become_follower_locked E n (current_term n) (Some (aeq_leader_id q))
       else Ret () (reset_election_timeout_locked E n))"
    and rej: "\<And>n1 c t. F n1 \<Longrightarrow> P (reject_append n1 i q c t)"
    and rest: "\<And>n1. F n1 \<Longrightarrow> \<not> aeq_previous_log_index q > last_log_index_locked n1 \<Longrightarrow>
      post (\<lambda>_. P) R (append_and_commit E n1 i q)"
    and bounds: "\<And>n1. F n1 \<Longrightarrow> \<not> aeq_previous_log_index q > last_log_index_locked n1 \<Longrightarrow>
      R UndefinedBehaviour n1 \<or> unat (aeq_previous_log_index q) < length (rlog n1)"
  shows "post (\<lambda>_. P) R (handle_append_entries_locked E n i q)"
proof (cases "(aeq_leader_id q \<noteq> i \<or> aeq_term q < current_term n) \<or>
    list_ex (\<lambda>entry. le_term entry = 0 \<or> le_term entry > aeq_term q) (aeq_entries q)")
  case False
  then have ok: "\<not> (aeq_leader_id q \<noteq> i \<or> aeq_term q < current_term n)"
    "\<not> list_ex (\<lambda>entry. le_term entry = 0 \<or> le_term entry > aeq_term q) (aeq_entries q)"
    by blast+
  show ?thesis
    unfolding handle_append_entries_locked_def if_not_P [OF ok(1)] if_not_P [OF ok(2)] post_and_then
  proof (rule post_mono [OF first], goal_cases)
    case (1 _ n1)
    show ?case
    proof (cases "aeq_previous_log_index q > last_log_index_locked n1")
      case False
      note B = bounds [OF 1 False]
      have "R UndefinedBehaviour n1 \<or> (\<exists>k. first_index_of_term (rlog n1)
          (le_term (rlog n1 ! unat (aeq_previous_log_index q))) (aeq_previous_log_index q) = Some k)"
        if "aeq_previous_log_index q > 0"
        using B first_index_of_term_spec [OF _ that refl, of "rlog n1"] by blast
      then show ?thesis
        using B False rest [OF 1 False] rej [OF 1]
        by (auto simp: log_at_def simp del: not_less split: option.splits)
    qed (simp add: rej [OF 1])
  qed
qed (use assms(1) in \<open>auto simp: handle_append_entries_locked_def\<close>)

lemma append_entries_keeps:
  assumes "uniform_in_range E" "storage_benign E" "node_wf L n" "i \<in> set (peers n)"
    and bound: "L + length (aeq_entries request) < 2 ^ 64"
  shows "keeps (L + length (aeq_entries request)) (handle_append_entries_locked E n i request)"
proof (rule append_entries_post)
  let ?L = "L + length (aeq_entries request)"
  let ?F = "\<lambda>n'. node_wf L n' \<and> node_state n' \<noteq> Leader \<and> node_config n' = node_config n \<and> outbox n' = outbox n"
  have mono: "node_wf ?L n'" if "node_wf L n'" for n' :: "('a, 'b) RaftNode"
    using node_wf_mono [OF that, of ?L] bound by simp
  show "node_wf ?L (reject_append n i request c t)" for c t
    using mono [OF assms(3)] assms(4) by (rule reject_keeps)
  show "post (\<lambda>_. ?F) (\<lambda>e n. node_wf ?L n \<and> benign e)
      (if node_state n \<noteq> Follower \<or> leader_id n \<noteq> Some (aeq_leader_id request) then
         become_follower_locked E n (current_term n) (Some (aeq_leader_id request))
       else Ret () (reset_election_timeout_locked E n))"
    by (rule post_mono [OF follow_keeps [OF assms(1-3)]]) (auto intro: mono)
  show "node_wf ?L (reject_append n1 i request c t)" if "?F n1" for n1 :: "('a, 'b) RaftNode" and c t
    using that assms(4) reject_keeps [OF mono, of n1 i] by simp
  show "keeps ?L (append_and_commit E n1 i request)"
    if "?F n1" "\<not> aeq_previous_log_index request > last_log_index_locked n1" for n1
    using that append_and_commit_keeps [OF assms(2) _ _ _ bound that(2)] assms(4) by auto
  show "node_wf ?L n1 \<and> benign UndefinedBehaviour \<or> unat (aeq_previous_log_index request) < length (rlog n1)"
    if "?F n1" "\<not> aeq_previous_log_index request > last_log_index_locked n1" for n1
    using that log_index_next(2) by blast
qed

lemma node_wf_progress:
  assumes "node_wf L n" "0 < k" "unat k \<le> length (rlog n)" "unat m < length (rlog n)"
  shows "node_wf L (n\<lparr>match_index := (match_index n)(i \<mapsto> m), next_index := (next_index n)(i \<mapsto> k)\<rparr>)"
  using assms by (simp add: node_wf_def timers_ok_def progress_ok_def Let_def)

lemma unat_max_less: "unat (a :: u64) < c \<Longrightarrow> unat b < c \<Longrightarrow> unat (max a b) < c"
  by (simp add: max_def)

lemma unat_max_le: "unat (a :: u64) \<le> c \<Longrightarrow> unat b \<le> c \<Longrightarrow> unat (max a b) \<le> c"
  by (simp add: max_def)

lemma append_success_keeps:
  assumes "node_wf L n" "node_state n = Leader" "i \<in> set (peers n)"
  shows "keeps L (handle_append_success n i response)"
proof (cases "aer_match_index response > last_log_index_locked n")
  case False
  obtain k m where p: "next_index n i = Some k" "0 < k" "unat k \<le> length (rlog n)"
    "match_index n i = Some m" "unat m < length (rlog n)"
    using node_wfD(9) [OF assms] by (auto simp: progress_ok_def)
  let ?m = "max m (aer_match_index response)" and ?k = "max k (aer_match_index response + 1)"
  let ?n2 = "n\<lparr>match_index := (match_index n)(i \<mapsto> ?m), next_index := (next_index n)(i \<mapsto> ?k)\<rparr>"
  note r = log_index_next [OF assms(1) False]
  have "0 < ?k" using p(2) by (rule order.strict_trans2) simp
  then have wf: "node_wf L ?n2"
    by (rule node_wf_progress [OF assms(1) _ unat_max_le [OF p(3) r(1)] unat_max_less [OF p(5) r(2)]])
  have lead: "node_state ?n2 = Leader" using assms(2) by simp
  obtain b n3 where adv: "advance_commit_index_locked ?n2 = Ret b n3" "node_wf L n3" "node_state n3 = Leader"
    "node_config n3 = node_config n" "match_index n3 = match_index ?n2"
    using advance_commit_keeps [OF wf lead] by auto
  have m3: "map_index (match_index n3) i = (?m, match_index n3)" "n3\<lparr>match_index := match_index n3\<rparr> = n3"
    using adv(5) by simp_all
  have "handle_append_success n i response =
      (if b then broadcast_append_entries_locked n3
       else if ?m < last_log_index_locked n3 then send_append_entries_locked n3 i else Ret () n3)"
    using False p adv(1) m3 by (simp add: handle_append_success_def Let_def)
  then show ?thesis
    using broadcast_keeps [OF adv(2,3)] send_append_entries_keeps [OF adv(2,3), of i] adv(2,4) assms(3) by simp
qed (use assms in \<open>simp add: handle_append_success_def\<close>)

lemma append_failure_keeps:
  assumes "node_wf L n" "node_state n = Leader" "i \<in> set (peers n)"
  shows "keeps L (handle_append_failure n i response)"
proof -
  obtain rid ids where ids: "map_index (append_request_id n) i = (rid, ids)" by fastforce
  obtain m where m: "match_index n i = Some m" "unat m < length (rlog n)"
    using node_wfD(9) [OF assms] by (auto simp: progress_ok_def)
  let ?n1 = "n\<lparr>append_request_id := ids\<rparr>"
  let ?last = "last_log_index_locked n"
  have last: "last_log_index_locked ?n1 = ?last" "rlog ?n1 = rlog n" by (simp_all add: last_log_index_locked_def)
  have up: "unat (?last + 1) \<le> length (rlog n)" "unat (m + 1) \<le> length (rlog n)"
    using log_index_next(1) [OF assms(1), of ?last] log_index_next(1) [OF assms(1), of m] m(2)
      le_last_log_index [OF assms(1), of m] by (simp_all add: not_less)
  have found: "\<exists>f. (case aer_conflict_term response of None \<Rightarrow> Inr None
      | Some t \<Rightarrow> last_index_of_term (rlog n) t ?last) = Inr f"
    using last_index_of_term_spec [of ?last "rlog n"] log_index_next(2) [OF assms(1), of ?last]
    by (fastforce split: option.splits)
  have sends: "keeps L (send_append_entries_locked (?n1\<lparr>match_index := match_index n,
      next_index := (next_index n)(i \<mapsto> max (clamp_u64 v 1 (?last + 1)) (m + 1))\<rparr>) i)" for v
  proof -
    let ?k = "max (clamp_u64 v 1 (?last + 1)) (m + 1)"
    have one: "unat (1 :: u64) \<le> length (rlog n)" using node_wfD(1) [OF assms(1)] by (simp add: Suc_le_eq)
    have c: "unat (clamp_u64 v 1 (?last + 1)) \<le> length (rlog n)"
      using up(1) one by (auto simp: clamp_u64_def word_less_nat_alt)
    have "0 < unat (?last + 1)"
      using unat_log_index [OF assms(1)] node_wfD(1,4) [OF assms(1)] unat_plus_one_u64 [of ?last] by simp
    then have "0 < clamp_u64 v 1 (?last + 1)" by (auto simp: clamp_u64_def word_less_nat_alt not_less)
    then have "0 < ?k" by (rule order.strict_trans2) simp
    then have "node_wf L (?n1\<lparr>match_index := (match_index ?n1)(i \<mapsto> m), next_index := (next_index ?n1)(i \<mapsto> ?k)\<rparr>)"
      using assms(1) m(2) unat_max_le [OF c up(2)] by (intro node_wf_progress) simp_all
    moreover have "(match_index n)(i \<mapsto> m) = match_index n" using m(1) by (simp add: fun_upd_idem)
    ultimately show ?thesis using assms(2,3) by (intro send_append_entries_keeps) simp_all
  qed
  obtain f where f: "(case aer_conflict_term response of None \<Rightarrow> Inr None
      | Some t \<Rightarrow> last_index_of_term (rlog n) t ?last) = Inr f" using found by blast
  have "handle_append_failure n i response =
      (if rid \<noteq> aer_request_id response then Ret () ?n1
       else send_append_entries_locked (?n1\<lparr>match_index := match_index n, next_index := (next_index n)
         (i \<mapsto> max (clamp_u64 (case f of None \<Rightarrow> aer_conflict_index response | Some k \<Rightarrow> k + 1) 1 (?last + 1))
                    (m + 1))\<rparr>) i)"
    using m(1) unfolding handle_append_failure_def ids Let_def prod.case last
    by (simp add: f)
  then show ?thesis using sends assms(1) by simp
qed

lemma append_response_keeps:
  assumes "node_wf L n" "i \<in> set (peers n)"
  shows "keeps L (handle_append_entries_response_locked n i response)"
  using assms append_success_keeps [OF assms(1) _ assms(2)] append_failure_keeps [OF assms(1) _ assms(2)]
  by (simp add: handle_append_entries_response_locked_def)

section \<open>Public operations\<close>

text \<open>By how much an operation may lengthen the log.\<close>

fun rpc_growth :: "Rpc \<Rightarrow> nat" where
  "rpc_growth (RpcAppendEntriesRequest r) = length (aeq_entries r)"
| "rpc_growth (RpcRequestVoteResponse r) = 1"
| "rpc_growth _ = 0"

lemma dispatch_keeps:
  assumes "uniform_in_range E" "storage_benign E" "node_wf L n" "i \<in> set (peers n)" "L + rpc_growth rpc < 2 ^ 64"
  shows "keeps (L + rpc_growth rpc) (dispatch_rpc E n i rpc)"
  using assms request_vote_keeps [OF assms(1-4)] vote_response_keeps [OF assms(2,3)]
    append_entries_keeps [OF assms(1-4)] append_response_keeps [OF assms(3,4)]
  by (cases rpc) simp_all

lemma step_keeps:
  assumes "uniform_in_range E" "storage_benign E" "node_wf L n" "L + rpc_growth (msg_rpc m) < 2 ^ 64"
  shows "keeps (L + rpc_growth (msg_rpc m)) (step_locked E n m)"
proof (cases "msg_to m \<noteq> node_id n \<or> \<not> is_peer_locked n (msg_from m)")
  case False
  let ?L = "L + rpc_growth (msg_rpc m)"
  have first: "post (\<lambda>_ n'. node_wf L n' \<and> node_config n' = node_config n) (\<lambda>e n'. node_wf L n' \<and> benign e)
      (if message_term m > current_term n then become_follower_locked E n (message_term m) None else Ret () n)"
    using assms(3) by (auto intro: post_mono [OF become_follower_keeps [OF assms(1-3)]])
  show ?thesis
    unfolding step_locked_def if_not_P [OF False] post_and_then
  proof (rule post_mono [OF first], goal_cases)
    case (1 _ n1)
    then have "msg_from m \<in> set (peers n1)" using peer_of [OF assms(3)] False by auto
    from dispatch_keeps [OF assms(1,2) _ this assms(4)] 1 show ?case by (auto elim: post_mono)
  qed (use assms(4) in \<open>auto intro: node_wf_mono [of L]\<close>)
qed (use assms node_wf_mono [OF assms(3)] in \<open>auto simp: step_locked_def\<close>)

lemma tick_keeps:
  assumes "uniform_in_range E" "storage_benign E" "node_wf L n" "Suc L < 2 ^ 64"
  shows "keeps (Suc L) (tick E n elapsed)"
proof -
  have up: "node_wf (Suc L) n" using node_wf_mono [OF assms(3), of "Suc L"] assms(4) by simp
  have "node_wf (Suc L) (n\<lparr>heartbeat_elapsed := heartbeat_elapsed n + elapsed\<rparr>)"
    if "0 \<le> elapsed" "elapsed < cfg_heartbeat_interval (node_config n) - heartbeat_elapsed n"
    using up that by (simp add: node_wf_def timers_ok_def progress_ok_def Let_def)
  moreover have "node_wf (Suc L) (n\<lparr>election_elapsed := election_elapsed n + elapsed\<rparr>)"
    if "0 \<le> elapsed" "elapsed < election_timeout n - election_elapsed n"
    using up that by (simp add: node_wf_def timers_ok_def progress_ok_def Let_def)
  ultimately show ?thesis
    using up start_election_keeps [OF assms] broadcast_keeps [OF node_wf_heartbeat [OF up]]
    by (simp add: tick_def benign_def not_le not_less)
qed

lemma propose_keeps:
  assumes "storage_benign E" "node_wf L n" "Suc L < 2 ^ 64"
  shows "keeps (Suc L) (propose E n command)"
proof (cases "node_state n \<noteq> Leader \<or> (of_nat (length (rlog n)) :: u64) = - 1")
  case False
  let ?n = "n\<lparr>rlog := rlog n @ [LogEntry (current_term n) command False]\<rparr>"
  have wf: "node_wf (Suc L) ?n"
    using assms(2,3) by (auto simp: node_wf_def timers_ok_def progress_ok_def Let_def)
  have rest: "keeps (Suc L) (let index = last_log_index_locked n1 in
        and_then (advance_commit_index_locked n1) (\<lambda>_ n2.
        and_then (broadcast_append_entries_locked n2) (\<lambda>_ n3. Ret (Some index) n3)))"
    if n1: "n1 = ?n\<lparr>storage := st\<rparr>" for n1 st
  proof -
    have "node_wf (Suc L) n1" "node_state n1 = Leader" using wf False n1 by auto
    from advance_then_broadcast [OF this] show ?thesis by (simp add: Let_def)
  qed
  show ?thesis
    using False unfolding propose_def
    by (simp del: post_and_then) (subst post_and_then, rule post_mono [OF persist_keeps [OF assms(1)]],
      use rest wf in auto)
qed (use node_wf_mono [OF assms(2), of "Suc L"] assms(3) in \<open>auto simp: propose_def benign_def\<close>)

section \<open>Every request is answered\<close>

text \<open>The handler of a request appends its answer, and nothing else, to the outbox.\<close>

definition answered :: "Rpc \<Rightarrow> NodeId \<Rightarrow> ('st, 'g) RaftNode \<Rightarrow> ('st, 'g) RaftNode \<Rightarrow> bool" where
  "answered q i n n' \<longleftrightarrow>
     (\<exists>r. outbox n' = outbox n @ [Message (node_id n) i r] \<and> answers q r)"

lemma persist_outbox:
  "post (\<lambda>_ n'. outbox n' = outbox n \<and> node_config n' = node_config n) (\<lambda>_ _. True) (persist_locked E n)"
  by (auto simp: persist_locked_def split: prod.splits sum.splits)

lemma become_follower_outbox:
  "post (\<lambda>_ n'. outbox n' = outbox n \<and> node_config n' = node_config n) (\<lambda>_ _. True)
     (become_follower_locked E n t l)"
  by (auto simp: become_follower_locked_def Let_def intro!: post_mono [OF persist_outbox])

lemma request_vote_answers:
  "post (\<lambda>_ n'. answered (RpcRequestVoteRequest q) i n n') (\<lambda>_ _. True) (handle_request_vote_locked E n i q)"
  by (auto simp: handle_request_vote_locked_def Let_def answered_def send_locked_def
      intro!: post_mono [OF persist_outbox])

lemma reject_answers: "answered (RpcAppendEntriesRequest q) i n (reject_append n i q c t)"
  by (simp add: answered_def reject_append_def send_locked_def)

lemma answered_trans:
  "answered q i n1 n2 \<Longrightarrow> outbox n1 = outbox n \<Longrightarrow> node_config n1 = node_config n \<Longrightarrow> answered q i n n2"
  by (simp add: answered_def)

lemma apply_outbox:
  "post (\<lambda>_ n'. outbox n' = outbox n \<and> node_config n' = node_config n) (\<lambda>_ _. True)
     (apply_committed_entries_locked n)"
proof (induction n rule: apply_committed_entries_locked.induct)
  case (1 n)
  show ?case
  proof (cases "last_applied n < commit_index n")
    case True
    show ?thesis
    proof (cases "log_at (rlog n) (last_applied n + 1)")
      case (Some e)
      show ?thesis
        using 1 [OF True refl, of e] True Some
        by (subst apply_committed_entries_locked.simps) (auto simp: Let_def elim!: post_mono)
    qed (use True in \<open>simp add: apply_committed_entries_locked.simps [of n] Let_def\<close>)
  qed (simp add: apply_committed_entries_locked.simps [of n])
qed

lemma append_and_commit_answers:
  "post (\<lambda>_ n'. answered (RpcAppendEntriesRequest q) i n n') (\<lambda>_ _. True) (append_and_commit E n i q)"
  by (auto simp: append_and_commit_def Let_def reject_append_def answered_def send_locked_def
      split: scan_result.splits intro!: post_mono [OF persist_outbox] post_mono [OF apply_outbox])

lemma append_entries_answers:
  "post (\<lambda>_ n'. answered (RpcAppendEntriesRequest q) i n n') (\<lambda>_ _. True) (handle_append_entries_locked E n i q)"
  by (rule append_entries_post [where F = "\<lambda>n1. outbox n1 = outbox n \<and> node_config n1 = node_config n"])
    (auto simp: reject_answers become_follower_outbox
      intro: answered_trans [OF reject_answers] post_mono [OF append_and_commit_answers] answered_trans)

lemma dispatch_answers:
  "is_request q \<Longrightarrow> post (\<lambda>_ n'. answered q i n n') (\<lambda>_ _. True) (dispatch_rpc E n i q)"
  using request_vote_answers append_entries_answers by (cases q) simp_all

lemma handle_request_keeps:
  assumes "uniform_in_range E" "storage_benign E" "node_wf L n" "L + rpc_growth (msg_rpc m) < 2 ^ 64"
  shows "keeps (L + rpc_growth (msg_rpc m)) (handle_request E n m)"
proof (cases "is_request (msg_rpc m)")
  case True
  have outbox: "node_wf M (n1\<lparr>outbox := take k (outbox n1) @ rest\<rparr>)"
    if "node_wf M n1" "take_answer m (drop k (outbox n1)) = Some (r, rest)" for M n1 k r rest
  proof -
    have "set (take k (outbox n1) @ rest) \<subseteq> set (outbox n1)"
      using take_answer_Some [OF that(2)] by (auto dest: in_set_takeD in_set_dropD)
    then show ?thesis using that(1) by (auto simp: node_wf_def timers_ok_def Let_def list_all_iff)
  qed
  show ?thesis
    using True unfolding handle_request_def Let_def
    by (simp, intro post_mono [OF step_keeps [OF assms]]) (auto split: option.splits intro: outbox)
qed (use node_wf_mono [OF assms(3)] assms(4) in \<open>simp add: handle_request_def benign_def\<close>)

lemma handle_request_answers:
  assumes "is_request (msg_rpc m)" "msg_to m = node_id n" "is_peer_locked n (msg_from m)"
  shows "post (\<lambda>reply n'. \<exists>r. reply = Some (Message (node_id n) (msg_from m) r) \<and> answers (msg_rpc m) r \<and>
      outbox n' = outbox n) (\<lambda>_ _. True) (handle_request E n m)"
proof -
  have "post (\<lambda>b n'. b \<and> answered (msg_rpc m) (msg_from m) n n') (\<lambda>_ _. True) (step_locked E n m)"
    using assms(2,3)
    by (auto simp: step_locked_def intro!: post_mono [OF become_follower_outbox] post_mono [OF dispatch_answers [OF assms(1)]]
        intro: answered_trans)
  then show ?thesis
    using assms(1) unfolding handle_request_def Let_def
    by simp (erule post_mono, auto simp: answered_def)
qed

lemma new_raft_node_wf:
  assumes "uniform_in_range E" "new_raft_node E config (Some st) = Inr n" "length (rlog n) \<le> L" "L < 2 ^ 64"
  shows "node_wf L n"
proof -
  obtain persisted entries g where "storage_load E st = Inr persisted" and v: "validate_config config = Inr ()"
    and l: "load_log (ps_current_term persisted) 0 [default_log_entry] (ps_log persisted) = Inr entries"
    and n: "n = reset_election_timeout_locked E
      \<lparr> node_config = config, storage = st, random = g, node_state = Follower,
        current_term = ps_current_term persisted, voted_for = ps_voted_for persisted, leader_id = None,
        rlog = entries, commit_index = 0, last_applied = 0, election_elapsed = 0, election_timeout = 0,
        heartbeat_elapsed = 0, members = insert (cfg_node_id config) (set (cfg_peers config)),
        votes_received = {}, next_index = Map.empty, match_index = Map.empty,
        append_request_id = Map.empty, outbox = [], committed_entries = [] \<rparr>"
    using assms(2) by (auto simp: new_raft_node_def Let_def split: sum.splits if_splits)
  have ne: "entries \<noteq> []" using l by (auto simp: load_log_spec split: if_splits)
  let ?c = "config"
  have c: "0 < cfg_heartbeat_interval ?c" "cfg_heartbeat_interval ?c < cfg_election_timeout_min ?c"
    "cfg_election_timeout_min ?c \<le> cfg_election_timeout_max ?c" "cfg_node_id ?c \<notin> set (cfg_peers ?c)"
    using v by (auto simp: validate_config_def insert_members_iff split: if_splits)
  obtain t g' where d: "uniform_int E (cfg_election_timeout_min ?c) (cfg_election_timeout_max ?c) g = (t, g')"
    by fastforce
  have "cfg_election_timeout_min ?c \<le> t" "t \<le> cfg_election_timeout_max ?c"
    using assms(1) c(3) d unfolding uniform_in_range_def by (metis fst_conv)+
  then show ?thesis
    using n c ne d assms(3,4) by (simp add: node_wf_def timers_ok_def Let_def reset_election_timeout_locked_def)
qed

end
