(* ===== verification/DurableRaftStorage.thy ===== *)
theory DurableRaftStorage
  imports RaftTypes KvStore
begin

text \<open>
  The durable Raft storage of \<open>src/node/node_runtime.cpp\<close>: the encoding of the persistent state, and
  \<open>DurableRaftStorage\<close>, which keeps the encoded state under one key of a \<open>KvStore\<close>.
\<close>

section \<open>The encoding\<close>

definition kRaftStateKey :: bytes where
  "kRaftStateKey = ''raft-hard-state''"

definition kRaftStateMagic :: bytes where
  "kRaftStateMagic = ''FTKVRAFT1''"

definition kMaximumLogEntries :: nat where
  "kMaximumLogEntries = 1000000"

definition kMaximumCommandBytes :: nat where
  "kMaximumCommandBytes = 64 * 1024 * 1024"

definition append_uint64 :: "bytes \<Rightarrow> u64 \<Rightarrow> bytes" where
  "append_uint64 output value = output @ le_bytes value"

text \<open>Reading takes the offset by reference: the new offset is part of the result.\<close>

definition read_uint64_at :: "bytes \<Rightarrow> nat \<Rightarrow> error + u64 \<times> nat" where
  "read_uint64_at input offset =
     (if offset > length input \<or> length input - offset < 8
      then Inl (RaftError ''persisted Raft state is truncated'')
      else Inr (le_value 0 (take 8 (drop offset input)), offset + 8))"

definition read_flag_at :: "bytes \<Rightarrow> nat \<Rightarrow> error + bool \<times> nat" where
  "read_flag_at input offset =
     (if offset \<ge> length input then Inl (RaftError ''persisted Raft state is truncated'')
      else Inr (input ! offset \<noteq> CHR 0x00, offset + 1))"

fun decode_log :: "nat \<Rightarrow> bytes \<Rightarrow> nat \<Rightarrow> LogEntry list \<Rightarrow> error + LogEntry list \<times> nat" where
  "decode_log 0 input offset acc = Inr (acc, offset)"
| "decode_log (Suc n) input offset acc =
     (case read_uint64_at input offset of
        Inl e \<Rightarrow> Inl e
      | Inr (t, offset1) \<Rightarrow>
          (case read_flag_at input offset1 of
             Inl e \<Rightarrow> Inl e
           | Inr (is_no_op, offset2) \<Rightarrow>
               (case read_uint64_at input offset2 of
                  Inl e \<Rightarrow> Inl e
                | Inr (command_size, offset3) \<Rightarrow>
                    if unat command_size > kMaximumCommandBytes \<or> offset3 > length input \<or>
                       unat command_size > length input - offset3
                    then Inl (RaftError ''persisted Raft command has an invalid size'')
                    else
                      decode_log n input (offset3 + unat command_size)
                        (acc @ [LogEntry t (take (unat command_size) (drop offset3 input)) is_no_op]))))"

definition read_vote_at :: "bool \<Rightarrow> bytes \<Rightarrow> nat \<Rightarrow> error + NodeId option \<times> nat" where
  "read_vote_at has_vote input offset =
     (if has_vote
      then (case read_uint64_at input offset of
              Inl e \<Rightarrow> Inl e
            | Inr (v, offset1) \<Rightarrow> Inr (Some v, offset1))
      else Inr (None, offset))"

definition decode_state :: "bytes \<Rightarrow> error + PersistentState" where
  "decode_state input =
     (if \<not> prefix kRaftStateMagic input
      then Inl (RaftError ''persisted Raft state has an unsupported format'')
      else
        (case read_uint64_at input (length kRaftStateMagic) of
           Inl e \<Rightarrow> Inl e
         | Inr (t, offset1) \<Rightarrow>
             (case read_flag_at input offset1 of
                Inl e \<Rightarrow> Inl e
              | Inr (has_vote, offset2) \<Rightarrow>
                  (case read_vote_at has_vote input offset2 of
                     Inl e \<Rightarrow> Inl e
                   | Inr (vote, offset3) \<Rightarrow>
                       (case read_uint64_at input offset3 of
                          Inl e \<Rightarrow> Inl e
                        | Inr (entry_count, offset4) \<Rightarrow>
                            if unat entry_count > kMaximumLogEntries
                            then Inl (RaftError ''persisted Raft log exceeds the entry limit'')
                            else
                              (case decode_log (unat entry_count) input offset4 [] of
                                 Inl e \<Rightarrow> Inl e
                               | Inr (entries, offset5) \<Rightarrow>
                                   if offset5 \<noteq> length input
                                   then Inl (RaftError ''persisted Raft state contains trailing data'')
                                   else Inr \<lparr> ps_current_term = t, ps_voted_for = vote,
                                             ps_log = entries \<rparr>))))))"

definition flag_byte :: "bool \<Rightarrow> char" where
  "flag_byte b = (if b then CHR 0x01 else CHR 0x00)"

fun encode_log :: "bytes \<Rightarrow> LogEntry list \<Rightarrow> error + bytes" where
  "encode_log output [] = Inr output"
| "encode_log output (entry # rest) =
     (if length (le_command entry) > kMaximumCommandBytes
      then Inl (RaftError ''Raft command exceeds the persistence size limit'')
      else
        encode_log
          (append_uint64 (append_uint64 output (le_term entry) @ [flag_byte (le_is_no_op entry)])
             (of_nat (length (le_command entry))) @ le_command entry)
          rest)"

definition encode_state :: "PersistentState \<Rightarrow> error + bytes" where
  "encode_state state =
     (if length (ps_log state) > kMaximumLogEntries
      then Inl (RaftError ''Raft log exceeds the persistence entry limit'')
      else
        (let bytes1 = append_uint64 kRaftStateMagic (ps_current_term state);
             bytes2 = bytes1 @ [flag_byte (ps_voted_for state \<noteq> None)];
             bytes3 = (case ps_voted_for state of None \<Rightarrow> bytes2 | Some v \<Rightarrow> append_uint64 bytes2 v);
             bytes4 = append_uint64 bytes3 (of_nat (length (ps_log state)))
         in encode_log bytes4 (ps_log state)))"

section \<open>Round trip\<close>

definition entry_bytes :: "LogEntry \<Rightarrow> bytes" where
  "entry_bytes e =
     le_bytes (le_term e) @ [flag_byte (le_is_no_op e)] @
     le_bytes (of_nat (length (le_command e))) @ le_command e"

definition commands_fit :: "LogEntry list \<Rightarrow> bool" where
  "commands_fit es \<longleftrightarrow> (\<forall>e \<in> set es. length (le_command e) \<le> kMaximumCommandBytes)"

lemma encode_log_spec:
  "encode_log out es =
     (if commands_fit es then Inr (out @ concat (map entry_bytes es))
      else Inl (RaftError ''Raft command exceeds the persistence size limit''))"
proof (induction es arbitrary: out)
  case (Cons e es)
  have "append_uint64 (append_uint64 out (le_term e) @ [flag_byte (le_is_no_op e)])
      (of_nat (length (le_command e))) @ le_command e = out @ entry_bytes e"
    by (simp add: entry_bytes_def append_uint64_def)
  then show ?case using Cons by (auto simp: commands_fit_def)
qed (simp add: commands_fit_def)

lemma read_uint64_at_append [simp]:
  "length pre = offset \<Longrightarrow> read_uint64_at (pre @ le_bytes v @ rest) offset = Inr (v, offset + 8)"
  by (auto simp: read_uint64_at_def)

lemma read_flag_at_append [simp]:
  "length pre = offset \<Longrightarrow> read_flag_at (pre @ flag_byte b # rest) offset = Inr (b, offset + 1)"
  by (auto simp: read_flag_at_def flag_byte_def nth_append)

lemma decode_log_encode:
  "commands_fit es \<Longrightarrow>
   decode_log (length es) (pre @ concat (map entry_bytes es) @ rest) (length pre) acc =
     Inr (acc @ es, length pre + length (concat (map entry_bytes es)))"
proof (induction es arbitrary: pre acc)
  case (Cons e es)
  let ?c = "le_command e" and ?more = "concat (map entry_bytes es) @ rest"
  let ?input = "pre @ entry_bytes e @ ?more"
  have len: "length ?c \<le> kMaximumCommandBytes" "length ?c < 2 ^ 64"
    using Cons.prems by (auto simp: commands_fit_def kMaximumCommandBytes_def)
  let ?p1 = "pre @ le_bytes (le_term e)" and ?p2 = "(pre @ le_bytes (le_term e)) @ [flag_byte (le_is_no_op e)]"
  let ?p3 = "((pre @ le_bytes (le_term e)) @ [flag_byte (le_is_no_op e)]) @ le_bytes (of_nat (length ?c))"
  have i1: "?input = pre @ le_bytes (le_term e) @ (flag_byte (le_is_no_op e) #
      le_bytes (of_nat (length ?c)) @ ?c @ ?more)" by (simp add: entry_bytes_def)
  have i2: "?input = ?p1 @ flag_byte (le_is_no_op e) # (le_bytes (of_nat (length ?c)) @ ?c @ ?more)"
    by (simp add: entry_bytes_def)
  have i3: "?input = ?p2 @ le_bytes (of_nat (length ?c)) @ (?c @ ?more)" by (simp add: entry_bytes_def)
  have i4: "?input = ?p3 @ ?c @ ?more" by (simp add: entry_bytes_def)
  have r1: "read_uint64_at ?input (length pre) = Inr (le_term e, length ?p1)"
    unfolding i1 by simp
  have r2: "read_flag_at ?input (length ?p1) = Inr (le_is_no_op e, length ?p2)"
    unfolding i2 by (simp only: read_flag_at_append [OF refl]) simp
  have r3: "read_uint64_at ?input (length ?p2) = Inr (of_nat (length ?c), length ?p3)"
    unfolding i3 by (simp only: read_uint64_at_append [OF refl]) simp
  have r4: "take (length ?c) (drop (length ?p3) ?input) = ?c" "length ?p3 \<le> length ?input"
    "length ?c \<le> length ?input - length ?p3"
    unfolding i4 by simp_all
  have IH: "decode_log (length es) ((pre @ entry_bytes e) @ ?more) (length (pre @ entry_bytes e)) (acc @ [e]) =
      Inr ((acc @ [e]) @ es, length (pre @ entry_bytes e) + length (concat (map entry_bytes es)))"
    using Cons.IH [of "pre @ entry_bytes e" "acc @ [e]"] Cons.prems by (simp add: commands_fit_def)
  have at: "length ?p3 + length ?c = length (pre @ entry_bytes e)" by (simp add: entry_bytes_def)
  have e: "LogEntry (le_term e) ?c (le_is_no_op e) = e" by simp
  have "decode_log (Suc (length es)) ?input (length pre) acc =
      decode_log (length es) ?input (length ?p3 + length ?c) (acc @ [e])"
    using r1 r2 r3 r4 len e by simp
  also have "\<dots> = decode_log (length es) ((pre @ entry_bytes e) @ ?more) (length (pre @ entry_bytes e)) (acc @ [e])"
    unfolding at by simp
  also note IH
  finally show ?case by simp
qed simp

text \<open>The bytes of the encoded state, and that they are decoded to the state.\<close>

definition state_bytes :: "PersistentState \<Rightarrow> bytes" where
  "state_bytes ps =
     kRaftStateMagic @ le_bytes (ps_current_term ps) @ flag_byte (ps_voted_for ps \<noteq> None) #
     (case ps_voted_for ps of None \<Rightarrow> [] | Some v \<Rightarrow> le_bytes v) @
     le_bytes (of_nat (length (ps_log ps))) @ concat (map entry_bytes (ps_log ps))"

definition state_fits :: "PersistentState \<Rightarrow> bool" where
  "state_fits ps \<longleftrightarrow> length (ps_log ps) \<le> kMaximumLogEntries \<and> commands_fit (ps_log ps)"

lemma encode_state_spec: "state_fits ps \<Longrightarrow> encode_state ps = Inr (state_bytes ps)"
  by (auto simp: encode_state_def state_fits_def Let_def encode_log_spec append_uint64_def
      state_bytes_def split: option.split)

lemma encode_state_Inr: "encode_state ps = Inr bs \<Longrightarrow> state_fits ps \<and> bs = state_bytes ps"
  using encode_state_spec [of ps]
  by (cases "state_fits ps") (auto simp: encode_state_def state_fits_def Let_def encode_log_spec
      split: if_splits)

lemma decode_state_bytes:
  assumes "state_fits ps"
  shows "decode_state (state_bytes ps) = Inr ps"
proof -
  let ?t = "le_bytes (ps_current_term ps)" and ?f = "flag_byte (ps_voted_for ps \<noteq> None)"
  let ?v = "case ps_voted_for ps of None \<Rightarrow> [] | Some v \<Rightarrow> le_bytes v"
  let ?n = "le_bytes (of_nat (length (ps_log ps)))" and ?es = "concat (map entry_bytes (ps_log ps))"
  let ?p1 = "kRaftStateMagic @ ?t"
  let ?p2 = "?p1 @ [?f]"
  let ?p3 = "?p2 @ ?v"
  let ?p4 = "?p3 @ ?n"
  have i1: "state_bytes ps = kRaftStateMagic @ ?t @ (?f # ?v @ ?n @ ?es)" by (simp add: state_bytes_def)
  have i2: "state_bytes ps = ?p1 @ ?f # (?v @ ?n @ ?es)" by (simp add: state_bytes_def)
  have i3: "state_bytes ps = ?p2 @ ?v @ (?n @ ?es)" by (simp add: state_bytes_def)
  have i4: "state_bytes ps = ?p3 @ ?n @ ?es" by (simp add: state_bytes_def)
  have i5: "state_bytes ps = ?p4 @ ?es @ []" by (simp add: state_bytes_def)
  have pre: "prefix kRaftStateMagic (state_bytes ps)" by (simp add: state_bytes_def)
  have r1: "read_uint64_at (state_bytes ps) (length kRaftStateMagic) = Inr (ps_current_term ps, length ?p1)"
    unfolding i1 by (simp only: read_uint64_at_append [OF refl]) simp
  have r2: "read_flag_at (state_bytes ps) (length ?p1) = Inr (ps_voted_for ps \<noteq> None, length ?p2)"
    unfolding i2 by (simp only: read_flag_at_append [OF refl]) simp
  have r3: "read_vote_at (ps_voted_for ps \<noteq> None) (state_bytes ps) (length ?p2) =
      Inr (ps_voted_for ps, length ?p3)"
    unfolding i3 read_vote_at_def by (cases "ps_voted_for ps") (simp_all only: option.case read_uint64_at_append [OF refl], simp_all)
  have r4: "read_uint64_at (state_bytes ps) (length ?p3) = Inr (of_nat (length (ps_log ps)), length ?p4)"
    unfolding i4 by (simp only: read_uint64_at_append [OF refl]) simp
  have fit: "length (ps_log ps) \<le> kMaximumLogEntries" "length (ps_log ps) < 2 ^ 64" "commands_fit (ps_log ps)"
    using assms by (auto simp: state_fits_def kMaximumLogEntries_def)
  have r5: "decode_log (length (ps_log ps)) (state_bytes ps) (length ?p4) [] =
      Inr (ps_log ps, length (state_bytes ps))"
    unfolding i5 using decode_log_encode [OF fit(3), of ?p4 "[]" "[]"] by simp
  show ?thesis
    unfolding decode_state_def using pre r1 r2 r3 r4 r5 fit by (simp del: not_None_eq)
qed

section \<open>The storage object\<close>

text \<open>\<open>rank\<close> and \<open>p\<close> are the iteration order of the map and the path of the file.\<close>

type_synonym DurableRaftStorage = "disk KvStore"

definition new_DurableRaftStorage :: "load_faults \<Rightarrow> path \<Rightarrow> disk \<Rightarrow> error + DurableRaftStorage" where
  "new_DurableRaftStorage lf p d =
     (case new_FilePersistence p of
        Inl e \<Rightarrow> Inl e
      | Inr p' \<Rightarrow> new_KvStore (FilePersistence_load lf p') (Some d))"

definition DurableRaftStorage_load :: "DurableRaftStorage \<Rightarrow> error + PersistentState" where
  "DurableRaftStorage_load st =
     (case KvStore_get st kRaftStateKey of
        None \<Rightarrow> Inr default_persistent_state
      | Some encoded \<Rightarrow> decode_state encoded)"

definition DurableRaftStorage_save ::
    "hash_order \<Rightarrow> path \<Rightarrow> PersistentState \<Rightarrow> DurableRaftStorage \<Rightarrow> (error + unit) \<times> DurableRaftStorage" where
  "DurableRaftStorage_save rank p ps st =
     (case encode_state ps of
        Inl e \<Rightarrow> (Inl e, st)
      | Inr encoded \<Rightarrow>
          (case KvStore_put (FilePersistence_save rank p) st kRaftStateKey encoded of
             Ret u st' \<Rightarrow> (Inr u, st')
           | Exc e st' \<Rightarrow> (Inl e, st')))"

lemma put_entries:
  "KvStore_put save s k v = Ret u s' \<Longrightarrow> KvStore_get s' k = Some v"
  "KvStore_put save s k v = Exc e s' \<Longrightarrow> KvStore_get s' = KvStore_get s"
  by (auto simp: KvStore_put_def save_and_swap_def KvStore_get_def fun_eq_iff split: outcome.splits)

text \<open>The durable storage satisfies the contract the consensus core relies on.\<close>

interpretation durable_raft: atomic_raft_storage DurableRaftStorage_load "DurableRaftStorage_save rank p"
  for rank p
proof
  fix ps st u st' assume "DurableRaftStorage_save rank p ps st = (Inr u, st')"
  then obtain bs where bs: "encode_state ps = Inr bs"
    "KvStore_put (FilePersistence_save rank p) st kRaftStateKey bs = Ret u st'"
    by (auto simp: DurableRaftStorage_save_def split: sum.splits outcome.splits)
  show "DurableRaftStorage_load st' = Inr ps"
    using encode_state_Inr [OF bs(1)] decode_state_bytes [of ps] put_entries(1) [OF bs(2)]
    by (auto simp: DurableRaftStorage_load_def)
next
  fix ps st e st' assume "DurableRaftStorage_save rank p ps st = (Inl e, st')"
  then have "st' = st \<or> (\<exists>bs. KvStore_put (FilePersistence_save rank p) st kRaftStateKey bs = Exc e st')"
    by (auto simp: DurableRaftStorage_save_def split: sum.splits outcome.splits)
  then show "DurableRaftStorage_load st' = DurableRaftStorage_load st"
    using put_entries(2) by (fastforce simp: DurableRaftStorage_load_def)
qed

text \<open>The environment of a node whose storage object is this one.\<close>

definition durable_env ::
    "hash_order \<Rightarrow> path \<Rightarrow> (u64 \<Rightarrow> 'g) \<Rightarrow> (int \<Rightarrow> int \<Rightarrow> 'g \<Rightarrow> int \<times> 'g)
     \<Rightarrow> (DurableRaftStorage, 'g) RaftEnv" where
  "durable_env rank p seed draw =
     \<lparr> storage_load = DurableRaftStorage_load, storage_save = DurableRaftStorage_save rank p,
       seed_engine = seed, uniform_int = draw \<rparr>"

text \<open>The exceptions of a save are those of the codec and of the file.\<close>

lemma encode_log_error: "encode_log b es = Inl e \<Longrightarrow> \<exists>m. e = RaftError m"
  by (induction b es rule: encode_log.induct) (auto split: if_splits)

lemma save_errors:
  assumes "DurableRaftStorage_save rank p ps st = (Inl e, st')"
  shows "(\<exists>m. e = RaftError m) \<or> (\<exists>m. e = StorageError m)"
proof (cases "encode_state ps")
  case (Inl e')
  then have "\<exists>m. e' = RaftError m"
    by (auto simp: encode_state_def Let_def encode_log_error split: if_splits)
  then show ?thesis using assms Inl by (simp add: DurableRaftStorage_save_def)
next
  case (Inr bs)
  let ?es = "insert_or_assign kRaftStateKey bs (kv_entries st)"
  obtain d where "FilePersistence_save rank p ?es (kv_persistence st) = Exc e d"
    using assms Inr
    by (auto simp: DurableRaftStorage_save_def KvStore_put_def save_and_swap_def split: outcome.splits)
  then show ?thesis using save_throws [of rank p ?es "kv_persistence st"] by simp
qed

section \<open>Guarantees\<close>

definition demo_state :: PersistentState where
  "demo_state = \<lparr> ps_current_term = 3, ps_voted_for = Some 2,
     ps_log = [LogEntry 1 [] True, LogEntry 3 ''set'' False] \<rparr>"

lemma demo_state_fits: "state_fits demo_state"
  by (simp add: demo_state_def state_fits_def commands_fit_def kMaximumLogEntries_def
      kMaximumCommandBytes_def)

text \<open>
  C16: The encoding of the persistent Raft state is faithful: whatever \<open>encode_state\<close> produces,
  \<open>decode_state\<close> reads back as the same term, vote and log.
\<close>

theorem raft_state_roundtrip:
  assumes "encode_state ps = Inr bs"
  shows "decode_state bs = Inr ps"
  using encode_state_Inr [OF assms] decode_state_bytes by blast

theorem raft_state_roundtrip_witness:
  "\<exists>bs. encode_state demo_state = Inr bs \<and> decode_state bs = Inr demo_state"
  using encode_state_spec [OF demo_state_fits] raft_state_roundtrip [of demo_state] by blast

text \<open>
  C17: The persistent Raft state survives a restart of the process. When a save returns, a storage
  object constructed again from the disk loads the saved state; when it throws, it loads what was
  loaded before.
\<close>

theorem raft_state_durable:
  assumes "durable (FilePersistence_load no_load_faults p) st" "p \<noteq> []"
    and "DurableRaftStorage_save rank p ps st = (r, st')"
  shows "\<exists>st2. new_DurableRaftStorage no_load_faults p (kv_persistence st') = Inr st2 \<and>
    DurableRaftStorage_load st2 =
      (case r of Inl e \<Rightarrow> DurableRaftStorage_load st | Inr u \<Rightarrow> Inr ps)"
proof -
  have d: "durable (FilePersistence_load no_load_faults p) st'"
  proof (cases "encode_state ps")
    case (Inr bs)
    then show ?thesis
      using assms(3) snapshot_file.kv.put_law
        [OF assms(1), where rank = rank and k = kRaftStateKey and v = bs]
      by (auto simp: DurableRaftStorage_save_def split: outcome.splits)
  qed (use assms(1,3) in \<open>simp add: DurableRaftStorage_save_def\<close>)
  obtain st2 where st2: "new_KvStore (FilePersistence_load no_load_faults p) (Some (kv_persistence st')) = Inr st2"
    "KvStore_get st2 = KvStore_get st'"
    using snapshot_file.durable_reopen [OF d] by blast
  have "DurableRaftStorage_load st2 = DurableRaftStorage_load st'"
    using st2(2) by (simp add: DurableRaftStorage_load_def)
  then show ?thesis
    using st2(1) assms(2,3) durable_raft.load_after_any_save [of rank p ps st]
    by (simp add: new_DurableRaftStorage_def new_FilePersistence_def)
qed

theorem raft_state_durable_witness:
  "\<exists>st' st2. DurableRaftStorage_save (\<lambda>_ _. 0) ''raft'' demo_state
      \<lparr> kv_persistence = \<lparr> files = Map.empty, journal = [], faults = [] \<rparr>, kv_entries = [] \<rparr> = (Inr (), st') \<and>
    new_DurableRaftStorage no_load_faults ''raft'' (kv_persistence st') = Inr st2 \<and>
    DurableRaftStorage_load st2 = Inr demo_state"
proof -
  define st where "st = \<lparr> kv_persistence = \<lparr> files = Map.empty, journal = [], faults = [] \<rparr>, kv_entries = [] \<rparr>"
  have d: "durable (FilePersistence_load no_load_faults ''raft'') st"
    by (simp add: durable_def st_def load_file)
  have fits: "fits_format [(kRaftStateKey, state_bytes demo_state)]"
    by (simp add: fits_format_def kMaximumEntries_def kMaximumFieldBytes_def kRaftStateKey_def
        state_bytes_def demo_state_def kRaftStateMagic_def entry_bytes_def)
  have "returns (KvStore_put (FilePersistence_save (\<lambda>_ _. 0) ''raft'') st kRaftStateKey (state_bytes demo_state))"
    using save_returns [OF fits, of "kv_persistence st" "\<lambda>_ _. 0" "''raft''"]
    by (auto simp: KvStore_put_def save_and_swap_def insert_or_assign_def st_def split: outcome.splits)
  then obtain st' where s: "DurableRaftStorage_save (\<lambda>_ _. 0) ''raft'' demo_state st = (Inr (), st')"
    by (auto simp: DurableRaftStorage_save_def encode_state_spec [OF demo_state_fits] elim!: returnsE)
  show ?thesis
    using raft_state_durable [OF d _ s] s by (auto simp: st_def)
qed

text \<open>
  C18: The limits of the two formats do not agree. A state that \<open>encode_state\<close> accepts is never saved
  when its encoding is longer than \<open>kMaximumFieldBytes\<close>: the storage below refuses it, although each
  command is within \<open>kMaximumCommandBytes\<close> and the log within \<open>kMaximumLogEntries\<close>.
\<close>

theorem oversized_state_never_saved:
  assumes "encode_state ps = Inr bs" "length bs > kMaximumFieldBytes"
  shows "\<exists>e. fst (DurableRaftStorage_save rank p ps st) = Inl e"
proof -
  let ?es = "insert_or_assign kRaftStateKey bs (kv_entries st)"
  have "find_entry ?es kRaftStateKey = Some bs" by simp
  then have "(kRaftStateKey, bs) \<in> set ?es" unfolding find_entry_def by (rule map_of_SomeD)
  then have "\<not> fits_format ?es" using assms(2) by (force simp: fits_format_def)
  then obtain e d where "FilePersistence_save rank p ?es (kv_persistence st) = Exc e d"
    using save_spec [of p rank ?es "kv_persistence st"]
    by (cases "FilePersistence_save rank p ?es (kv_persistence st)") auto
  then show ?thesis
    using assms(1) by (simp add: DurableRaftStorage_save_def KvStore_put_def save_and_swap_def)
qed

theorem oversized_state_never_saved_witness:
  "\<exists>ps bs e. length (ps_log ps) = 1 \<and> commands_fit (ps_log ps) \<and> encode_state ps = Inr bs \<and>
     fst (DurableRaftStorage_save (\<lambda>_ _. 0) ''raft'' ps
       \<lparr> kv_persistence = \<lparr> files = Map.empty, journal = [], faults = [] \<rparr>, kv_entries = [] \<rparr>) = Inl e"
proof -
  define ps where "ps = \<lparr> ps_current_term = 1, ps_voted_for = None,
    ps_log = [LogEntry 1 (replicate kMaximumCommandBytes CHR ''x'') False] \<rparr>"
  have fit: "state_fits ps" "commands_fit (ps_log ps)" "length (ps_log ps) = 1"
    by (simp_all add: ps_def state_fits_def commands_fit_def kMaximumLogEntries_def)
  have "length (state_bytes ps) > kMaximumFieldBytes"
    by (simp add: state_bytes_def ps_def entry_bytes_def kMaximumFieldBytes_def kMaximumCommandBytes_def)
  then show ?thesis
    using oversized_state_never_saved [OF encode_state_spec [OF fit(1)]] encode_state_spec [OF fit(1)]
      fit by blast
qed

end
