(* ===== verification/NodeGuarantees.thy ===== *)
theory NodeGuarantees
  imports NodeInvariant DurableRaftStorage RaftScenario
begin

text \<open>
  What one node guarantees on its own, whatever its peers send and whatever its storage does: it stays
  within the bounds of its containers, answers every request of a member and keeps its timers in the
  configured range; and what it does not guarantee when its storage fails or its term overflows.
\<close>

section \<open>Arbitrary runs of one node\<close>

text \<open>
  Every public operation with arbitrary arguments, in any order, continuing after exceptions. The
  number bounds the length of the log.
\<close>

inductive any_run :: "('st, 'g) RaftEnv \<Rightarrow> RaftConfig \<Rightarrow> nat \<Rightarrow> ('st, 'g) RaftNode \<Rightarrow> bool"
  for E :: "('st, 'g) RaftEnv" and config :: RaftConfig where
  construct: "new_raft_node E config (Some st) = Inr n \<Longrightarrow> any_run E config (length (rlog n)) n"
| tick: "any_run E config L n \<Longrightarrow> any_run E config (Suc L) (outcome_state (tick E n elapsed))"
| step: "any_run E config L n \<Longrightarrow>
    any_run E config (L + rpc_growth (msg_rpc m)) (outcome_state (step E n m))"
| handle_request: "any_run E config L n \<Longrightarrow>
    any_run E config (L + rpc_growth (msg_rpc m)) (outcome_state (handle_request E n m))"
| propose: "any_run E config L n \<Longrightarrow> any_run E config (Suc L) (outcome_state (propose E n command))"
| take_messages: "any_run E config L n \<Longrightarrow> any_run E config L (snd (take_messages n))"
| take_committed_entries: "any_run E config L n \<Longrightarrow> any_run E config L (snd (take_committed_entries n))"

lemma keeps_state: "keeps L r \<Longrightarrow> node_wf L (outcome_state r)"
  by (cases r) simp_all

lemma keeps_benign: "keeps L r \<Longrightarrow> post (\<lambda>_ _. True) (\<lambda>e _. benign e) r"
  by (erule post_mono) simp_all

lemma any_run_wf:
  assumes "uniform_in_range E" "storage_benign E"
  shows "any_run E config L n \<Longrightarrow> L < 2 ^ 64 \<Longrightarrow> node_wf L n"
proof (induction rule: any_run.induct)
  case (construct st n)
  then show ?case using new_raft_node_wf [OF assms(1)] by blast
next
  case (tick L n elapsed)
  then show ?case using tick_keeps [OF assms, of L n] keeps_state by force
next
  case (step L n m)
  then show ?case using step_keeps [OF assms, of L n m] keeps_state by (force simp: step_def)
next
  case (handle_request L n m)
  then show ?case using handle_request_keeps [OF assms, of L n m] keeps_state by force
next
  case (propose L n command)
  then show ?case using propose_keeps [OF assms(2), of L n command] keeps_state by force
qed (simp_all add: take_messages_def take_committed_entries_def node_wf_def timers_ok_def Let_def)

lemma durable_benign: "storage_benign (durable_env rank p seed draw)"
  using save_errors by (fastforce simp: storage_benign_def durable_env_def benign_def)

lemma durable_uniform: "uniform_in_range (durable_env rank p seed draw) \<longleftrightarrow>
    (\<forall>a b g. a \<le> b \<longrightarrow> a \<le> fst (draw a b g) \<and> fst (draw a b g) \<le> b)"
  by (simp add: uniform_in_range_def durable_env_def)

section \<open>A node to experiment with\<close>

text \<open>
  Node 1 of a cluster of three, on a disk whose saves fail as scheduled, with the lower bound as
  every draw.
\<close>

definition demo_durable_env :: "(DurableRaftStorage, u64) RaftEnv" where
  "demo_durable_env = durable_env (\<lambda>es k. 0) ''raft'' (\<lambda>s. s) (\<lambda>lo hi g. (lo, g))"

definition demo_durable_storage :: "save_faults list \<Rightarrow> DurableRaftStorage" where
  "demo_durable_storage fs =
     \<lparr> kv_persistence = \<lparr> files = Map.empty, journal = [], faults = fs \<rparr>, kv_entries = [] \<rparr>"

definition demo_durable_node :: "save_faults list \<Rightarrow> (DurableRaftStorage, u64) RaftNode" where
  "demo_durable_node fs =
     projr (new_raft_node demo_durable_env (demo_config 1) (Some (demo_durable_storage fs)))"

lemma demo_durable_new:
  "new_raft_node demo_durable_env (demo_config 1) (Some (demo_durable_storage fs)) = Inr (demo_durable_node fs)"
  by (simp add: demo_durable_node_def new_raft_node_def demo_durable_env_def durable_env_def demo_config_def
      validate_config_def DurableRaftStorage_load_def demo_durable_storage_def KvStore_get_def find_entry_def
      default_persistent_state_def Let_def)

lemma demo_durable_fields [simp]:
  "rlog (demo_durable_node fs) = [default_log_entry]" "node_state (demo_durable_node fs) = Follower"
  "voted_for (demo_durable_node fs) = None" "current_term (demo_durable_node fs) = 0"
  "node_config (demo_durable_node fs) = demo_config 1" "storage (demo_durable_node fs) = demo_durable_storage fs"
  "members (demo_durable_node fs) = {1, 2, 3}" "outbox (demo_durable_node fs) = []"
  "leader_id (demo_durable_node fs) = None" "commit_index (demo_durable_node fs) = 0"
  by (auto simp: demo_durable_node_def new_raft_node_def demo_durable_env_def durable_env_def demo_config_def
      validate_config_def DurableRaftStorage_load_def demo_durable_storage_def KvStore_get_def find_entry_def
      default_persistent_state_def Let_def reset_election_timeout_locked_def)

lemma demo_uniform: "uniform_in_range demo_durable_env"
  by (simp add: demo_durable_env_def durable_uniform)

lemma demo_benign: "storage_benign demo_durable_env"
  by (simp add: demo_durable_env_def durable_benign)

section \<open>Bounds and answers\<close>

lemma post_conj: "post P R r \<Longrightarrow> post P' R' r \<Longrightarrow> post (\<lambda>a s. P a s \<and> P' a s) (\<lambda>e s. R e s \<and> R' e s) r"
  by (cases r) simp_all

lemma demo_any_run: "any_run demo_durable_env (demo_config 1) 1 (demo_durable_node fs)"
  using any_run.construct [OF demo_durable_new, of fs] by simp

text \<open>A hostile message: indexes at the end of the range and an entry of the last term.\<close>

definition hostile_append :: Message where
  "hostile_append = Message 2 1 (RpcAppendEntriesRequest
     (AppendEntriesRequest (- 1) 2 (- 1) 7 [LogEntry (- 1) ''x'' False] (- 1) 0))"

text \<open>
  C19: A node over its durable storage never leaves the bounds of its containers and never dies of a
  missing map entry, after any sequence of operations with any arguments, any messages and any
  failures of the disk: the next operation returns or throws one of the documented exceptions.
\<close>

theorem no_undefined_behaviour:
  assumes "\<forall>a b g. a \<le> b \<longrightarrow> a \<le> fst (draw a b g) \<and> fst (draw a b g) \<le> b"
    and "any_run (durable_env rank p seed draw) config L n" "L + rpc_growth (msg_rpc m) + 1 < 2 ^ 64"
  shows "post (\<lambda>_ _. True) (\<lambda>e _. benign e) (tick (durable_env rank p seed draw) n elapsed) \<and>
    post (\<lambda>_ _. True) (\<lambda>e _. benign e) (step (durable_env rank p seed draw) n m) \<and>
    post (\<lambda>_ _. True) (\<lambda>e _. benign e) (handle_request (durable_env rank p seed draw) n m) \<and>
    post (\<lambda>_ _. True) (\<lambda>e _. benign e) (propose (durable_env rank p seed draw) n command)"
proof -
  let ?E = "durable_env rank p seed draw"
  have u: "uniform_in_range ?E" using assms(1) by (simp add: durable_uniform)
  have wf: "node_wf L n" using any_run_wf [OF u durable_benign assms(2)] assms(3) by simp
  have L: "Suc L < 2 ^ 64" "L + rpc_growth (msg_rpc m) < 2 ^ 64" using assms(3) by simp_all
  show ?thesis
    unfolding step_def
    using keeps_benign [OF tick_keeps [OF u durable_benign wf L(1)]]
      keeps_benign [OF step_keeps [OF u durable_benign wf L(2)]]
      keeps_benign [OF handle_request_keeps [OF u durable_benign wf L(2)]]
      keeps_benign [OF propose_keeps [OF durable_benign wf L(1)]]
    by (intro conjI)
qed

theorem no_undefined_behaviour_witness:
  "post (\<lambda>_ _. True) (\<lambda>e _. benign e) (tick demo_durable_env (demo_durable_node [no_faults\<lparr>sf_open := True\<rparr>]) 1000) \<and>
   post (\<lambda>_ _. True) (\<lambda>e _. benign e) (step demo_durable_env (demo_durable_node [no_faults\<lparr>sf_open := True\<rparr>]) hostile_append) \<and>
   post (\<lambda>_ _. True) (\<lambda>e _. benign e) (handle_request demo_durable_env (demo_durable_node [no_faults\<lparr>sf_open := True\<rparr>]) hostile_append) \<and>
   post (\<lambda>_ _. True) (\<lambda>e _. benign e) (propose demo_durable_env (demo_durable_node [no_faults\<lparr>sf_open := True\<rparr>]) ''y'')"
  unfolding demo_durable_env_def
  by (rule no_undefined_behaviour [OF _ demo_any_run [unfolded demo_durable_env_def]])
    (simp_all add: hostile_append_def)

text \<open>
  C20: Every request that a member addresses to the node is answered: the call returns an answer of the
  kind of the request, to its sender and with its request number, and leaves the outbox as it was, or
  it throws a documented exception.
\<close>

theorem requests_answered:
  assumes "\<forall>a b g. a \<le> b \<longrightarrow> a \<le> fst (draw a b g) \<and> fst (draw a b g) \<le> b"
    and "any_run (durable_env rank p seed draw) config L n" "L + rpc_growth (msg_rpc m) < 2 ^ 64"
    and "is_request (msg_rpc m)" "msg_to m = node_id n" "is_peer_locked n (msg_from m)"
  shows "post (\<lambda>reply n'. (\<exists>r. reply = Some (Message (node_id n) (msg_from m) r) \<and> answers (msg_rpc m) r) \<and>
      outbox n' = outbox n) (\<lambda>e _. benign e) (handle_request (durable_env rank p seed draw) n m)"
proof -
  let ?E = "durable_env rank p seed draw"
  have u: "uniform_in_range ?E" using assms(1) by (simp add: durable_uniform)
  have wf: "node_wf L n" using any_run_wf [OF u durable_benign assms(2)] assms(3) by simp
  show ?thesis
    by (rule post_mono [OF post_conj [OF handle_request_keeps [OF u durable_benign wf assms(3)]
        handle_request_answers [OF assms(4-6)]]]) auto
qed

theorem requests_answered_witness:
  "post (\<lambda>reply n'. (\<exists>r. reply = Some (Message 1 2 r) \<and> answers (msg_rpc hostile_append) r) \<and> outbox n' = [])
     (\<lambda>e _. benign e) (handle_request demo_durable_env (demo_durable_node []) hostile_append)"
proof -
  have "cfg_node_id (demo_config 1) = 1" "cfg_peers (demo_config 1) = [2, 3]" by (simp_all add: demo_config_def)
  then show ?thesis
    using requests_answered [of "\<lambda>lo hi g. (lo, g)" "\<lambda>es k. 0" "''raft''" "\<lambda>s. s" "demo_config 1" 1
        "demo_durable_node []" hostile_append] demo_any_run [of "[]"]
    by (simp add: demo_durable_env_def hostile_append_def is_peer_locked_def)
qed

text \<open>
  C21: The timers stay in range after any sequence of operations: the election timeout lies between the
  configured bounds, and the elapsed times are non-negative and below the times they are compared with,
  so the subtractions of \<open>tick\<close> cannot overflow.
\<close>

theorem timers_in_range:
  assumes "uniform_in_range E" "storage_benign E" "any_run E config L n" "L < 2 ^ 64"
  shows "cfg_election_timeout_min (node_config n) \<le> election_timeout n \<and>
    election_timeout n \<le> cfg_election_timeout_max (node_config n) \<and>
    0 \<le> election_elapsed n \<and> election_elapsed n < election_timeout n \<and>
    0 \<le> heartbeat_elapsed n \<and> heartbeat_elapsed n < cfg_heartbeat_interval (node_config n)"
  using any_run_wf [OF assms] by (auto simp: node_wf_def timers_ok_def Let_def)

theorem timers_in_range_witness:
  "cfg_election_timeout_min (demo_config 1) \<le> election_timeout (demo_durable_node []) \<and>
   election_timeout (demo_durable_node []) \<le> cfg_election_timeout_max (demo_config 1) \<and>
   0 \<le> election_elapsed (demo_durable_node []) \<and>
   election_elapsed (demo_durable_node []) < election_timeout (demo_durable_node []) \<and>
   0 \<le> heartbeat_elapsed (demo_durable_node []) \<and>
   heartbeat_elapsed (demo_durable_node []) < cfg_heartbeat_interval (demo_config 1)"
  using timers_in_range [OF demo_uniform demo_benign demo_any_run, of "[]"] by simp

section \<open>When a save fails\<close>

text \<open>A disk on which the temporary file cannot be opened.\<close>

lemma demo_save_fails:
  assumes "state_fits ps" "faults (kv_persistence st) = no_faults\<lparr>sf_open := True\<rparr> # fs"
    and "\<And>bs. length (insert_or_assign kRaftStateKey bs (kv_entries st)) \<le> kMaximumEntries"
  shows "\<exists>st'. DurableRaftStorage_save rank ''raft'' ps st =
    (Inl (StorageError (error_message ''failed to open temporary storage file'' ''raft.tmp'')), st')"
  using encode_state_spec [OF assms(1)] assms(2) assms(3) [of "state_bytes ps"]
  by (simp add: DurableRaftStorage_save_def KvStore_put_def save_and_swap_def
        FilePersistence_save_def next_faults_def write_snapshot_def parent_path_def Let_def no_faults_def not_less)

text \<open>
  C22: A vote that could not be saved is granted on the next request. The first call throws after the
  vote was recorded in memory; the candidate's retry finds the vote in place, grants it without
  saving, and what the storage would load is still the state without the vote. A restart between two
  such votes lets the node vote twice in a term.
\<close>

theorem unsaved_vote_granted:
  assumes "DurableRaftStorage_save rank p (persistent_part (n\<lparr>voted_for := Some c\<rparr>)) (storage n) = (Inl e, st')"
    and "voted_for n = None" "is_peer_locked n c" "rvq_candidate_id q = c" "rvq_term q = current_term n"
    and "candidate_log_is_current_locked n q"
  shows "\<exists>n1 n2.
    handle_request (durable_env rank p seed draw) n (Message c (node_id n) (RpcRequestVoteRequest q)) = Exc e n1 \<and>
    handle_request (durable_env rank p seed draw) n1 (Message c (node_id n) (RpcRequestVoteRequest q)) =
      Ret (Some (Message (node_id n) c (RpcRequestVoteResponse (RequestVoteResponse (current_term n) True)))) n2 \<and>
    DurableRaftStorage_load (storage n2) = DurableRaftStorage_load (storage n)"
proof -
  let ?E = "durable_env rank p seed draw" and ?m = "Message c (node_id n) (RpcRequestVoteRequest q)"
  let ?n1 = "n\<lparr>voted_for := Some c, storage := st'\<rparr>"
  let ?r = "Message (node_id n) c (RpcRequestVoteResponse (RequestVoteResponse (current_term n) True))"
  have "step_locked ?E n ?m = Exc e ?n1"
    using assms by (simp add: step_locked_def message_term_def handle_request_vote_locked_def Let_def
        persist_locked_def durable_env_def persistent_part_def)
  then have one: "handle_request ?E n ?m = Exc e ?n1" by (simp add: handle_request_def)
  have "candidate_log_is_current_locked ?n1 q" "is_peer_locked ?n1 c"
    using assms(3,6) by (simp_all add: candidate_log_is_current_locked_def last_log_term_locked_def
        last_log_index_locked_def is_peer_locked_def)
  then have two: "step_locked ?E ?n1 ?m = Ret True (send_locked (reset_election_timeout_locked ?E ?n1) c
      (RpcRequestVoteResponse (RequestVoteResponse (current_term n) True)))"
    using assms(4,5) by (simp add: step_locked_def message_term_def handle_request_vote_locked_def Let_def)
  have "\<exists>n2. handle_request ?E ?n1 ?m = Ret (Some ?r) n2 \<and> storage n2 = st'"
    unfolding handle_request_def two by (simp add: send_locked_def)
  then show ?thesis
    using one durable_raft.failed_save_keeps [OF assms(1)] by (metis surjective)
qed

theorem unsaved_vote_granted_witness:
  "\<exists>n1 n2.
    handle_request demo_durable_env (demo_durable_node [no_faults\<lparr>sf_open := True\<rparr>])
      (Message 2 1 (RpcRequestVoteRequest (RequestVoteRequest 0 2 0 0))) =
      Exc (StorageError (error_message ''failed to open temporary storage file'' ''raft.tmp'')) n1 \<and>
    handle_request demo_durable_env n1 (Message 2 1 (RpcRequestVoteRequest (RequestVoteRequest 0 2 0 0))) =
      Ret (Some (Message 1 2 (RpcRequestVoteResponse (RequestVoteResponse 0 True)))) n2 \<and>
    DurableRaftStorage_load (storage n2) =
      DurableRaftStorage_load (storage (demo_durable_node [no_faults\<lparr>sf_open := True\<rparr>]))"
proof -
  let ?n = "demo_durable_node [no_faults\<lparr>sf_open := True\<rparr>]"
  let ?e = "StorageError (error_message ''failed to open temporary storage file'' ''raft.tmp'')"
  let ?ps = "persistent_part (?n\<lparr>voted_for := Some 2\<rparr>)"
  have fits: "state_fits ?ps" by (simp add: persistent_part_def state_fits_def commands_fit_def kMaximumLogEntries_def)
  have c: "cfg_node_id (demo_config 1) = 1" by (simp add: demo_config_def)
  obtain st' where "DurableRaftStorage_save (\<lambda>es k. 0) ''raft'' ?ps (storage ?n) = (Inl ?e, st')"
    using demo_save_fails [OF fits, of "storage ?n" "[]" "\<lambda>es k. 0"]
    by (auto simp: demo_durable_storage_def insert_or_assign_def kMaximumEntries_def)
  from unsaved_vote_granted [OF this, of "RequestVoteRequest 0 2 0 0" "\<lambda>s. s" "\<lambda>lo hi g. (lo, g)"] c
  show ?thesis
    by (simp add: demo_durable_env_def is_peer_locked_def candidate_log_is_current_locked_def
        last_log_term_locked_def last_log_index_locked_def last_index_def default_log_entry_def)
qed

subsection \<open>Appends\<close>

text \<open>
  A request that the log already contains is acknowledged without a save; and the only way in which
  the comparison of the logs throws, apart from a violated invariant, is the save of the changed log.
\<close>

lemma append_contained:
  assumes "node_wf L n" "\<not> aeq_previous_log_index q > last_log_index_locked n" "i \<in> set (peers n)"
    and "rlog n = take (unat (aeq_previous_log_index q + 1)) l @ aeq_entries q"
    and "unat (aeq_previous_log_index q + 1) \<le> length l"
  shows "\<exists>n'. append_and_commit E n i q = Ret () n' \<and> storage n' = storage n \<and>
    (\<exists>r. outbox n' = outbox n @ [Message (node_id n) i (RpcAppendEntriesResponse r)] \<and> aer_success r \<and>
       aer_request_id r = aeq_request_id q)"
proof -
  let ?i = "aeq_previous_log_index q + 1" and ?inc = "aeq_entries q"
  have nth: "rlog n ! (unat ?i + j) = ?inc ! j" if "j < length ?inc" for j
    using that assms(4,5) by (simp add: nth_append)
  have "prefix (take (unat ?i) (rlog n) @ ?inc) (rlog n)" using assms(4,5) by simp
  with scan_entries_spec [OF node_wfD(1) [OF assms(1)] log_index_next(1) [OF assms(1,2)]
      node_wfD(4,6) [OF assms(1)], of ?inc] nth
  have "scan_entries (rlog n) (commit_index n) ?i ?inc = ScanDone (rlog n) [] False"
    by (fastforce split: scan_result.splits if_splits)
  from append_and_commit_done [OF this] show ?thesis
    using acknowledge_returns [OF assms(1,3), of q] by auto
qed

lemma append_throws:
  assumes "node_wf L n" "\<not> aeq_previous_log_index q > last_log_index_locked n" "node_state n \<noteq> Leader"
    and "L + length (aeq_entries q) < 2 ^ 64" "i \<in> set (peers n)"
    and "append_and_commit E n i q = Exc e n1" "e \<noteq> RaftError ''log matching invariant violated''"
  shows "\<exists>ps st l. storage_save E ps (storage n) = (Inl e, st) \<and> n1 = n\<lparr>rlog := l, storage := st\<rparr> \<and>
    l = take (unat (aeq_previous_log_index q + 1)) (rlog n) @ aeq_entries q \<and>
    node_wf (L + length (aeq_entries q)) n1"
proof (cases "scan_entries (rlog n) (commit_index n) (aeq_previous_log_index q + 1) (aeq_entries q)")
  case (ScanDone l rest truncated)
  note wf = scan_done_wf [OF assms(1,3,4,2) ScanDone]
  have ack: "\<exists>n'. acknowledge (n\<lparr>rlog := l @ rest, storage := st\<rparr>) i q = Ret () n'" for st
    using acknowledge_returns [of "L + length (aeq_entries q)" "n\<lparr>rlog := l @ rest, storage := st\<rparr>" i q]
      wf(1) assms(5) by auto
  have changed: "truncated \<or> rest \<noteq> []"
    using assms(6) ack [of "storage n"] unfolding append_and_commit_done [OF ScanDone] by auto
  obtain r st where "storage_save E (persistent_part (n\<lparr>rlog := l @ rest\<rparr>)) (storage n) = (r, st)" by fastforce
  moreover from this have "r = Inl e" "n1 = n\<lparr>rlog := l @ rest, storage := st\<rparr>"
    using assms(6) ack [of st] changed unfolding append_and_commit_done [OF ScanDone]
    by (auto simp: persist_locked_def split: sum.splits)
  ultimately show ?thesis using wf(1,2) changed by auto
next
  case ScanOutOfBounds
  then show ?thesis
    using scan_entries_spec [OF node_wfD(1) [OF assms(1)] log_index_next(1) [OF assms(1,2)]
        node_wfD(4,6) [OF assms(1)], of "aeq_entries q"] by simp
qed (use assms in \<open>auto simp: append_and_commit_def\<close>)

text \<open>In the leader's term a follower starts to follow without a save.\<close>

lemma follow_same_term:
  assumes "uniform_in_range E" "node_wf L n"
  shows "\<exists>nf. (if node_state n \<noteq> Follower \<or> leader_id n \<noteq> Some l
        then become_follower_locked E n (current_term n) (Some l)
        else Ret () (reset_election_timeout_locked E n)) = Ret () nf \<and>
    node_wf L nf \<and> node_state nf = Follower \<and> leader_id nf = Some l \<and> rlog nf = rlog n \<and>
    storage nf = storage n \<and> node_config nf = node_config n \<and> outbox nf = outbox n \<and>
    current_term nf = current_term n"
proof -
  have "node_wf L (n\<lparr>node_state := Follower, leader_id := Some l, votes_received := {},
      next_index := Map.empty, match_index := Map.empty, append_request_id := Map.empty, heartbeat_elapsed := 0\<rparr>)"
    using assms(2) by (simp add: node_wf_def timers_ok_def Let_def)
  from node_wf_reset [OF assms(1) this] node_wf_reset [OF assms] show ?thesis
    by (auto simp: become_follower_locked_def Let_def reset_election_timeout_locked_def split: prod.splits)
qed

lemma append_entries_checked:
  assumes "aeq_leader_id q = i" "aeq_term q = current_term n"
    and "\<not> list_ex (\<lambda>entry. le_term entry = 0 \<or> le_term entry > aeq_term q) (aeq_entries q)"
    and "(if node_state n \<noteq> Follower \<or> leader_id n \<noteq> Some i
        then become_follower_locked E n (current_term n) (Some i)
        else Ret () (reset_election_timeout_locked E n)) = Ret () nf"
    and "\<not> aeq_previous_log_index q > last_log_index_locked nf"
    and "aeq_previous_log_index q > 0 \<Longrightarrow> unat (aeq_previous_log_index q) < length (rlog nf) \<and>
      le_term (rlog nf ! unat (aeq_previous_log_index q)) = aeq_previous_log_term q"
  shows "handle_append_entries_locked E n i q = append_and_commit E nf i q"
  using assms unfolding handle_append_entries_locked_def assms(1) by (simp add: log_at_def)

lemma append_entries_throws:
  assumes "uniform_in_range E" "node_wf L n" "aeq_term q = current_term n"
    and "handle_append_entries_locked E n i q = Exc e n1"
  shows "\<exists>nf. aeq_leader_id q = i \<and>
    \<not> list_ex (\<lambda>entry. le_term entry = 0 \<or> le_term entry > aeq_term q) (aeq_entries q) \<and>
    node_wf L nf \<and> node_state nf = Follower \<and> leader_id nf = Some i \<and> rlog nf = rlog n \<and>
    storage nf = storage n \<and> node_config nf = node_config n \<and> outbox nf = outbox n \<and>
    current_term nf = current_term n \<and> \<not> aeq_previous_log_index q > last_log_index_locked nf \<and>
    (aeq_previous_log_index q > 0 \<longrightarrow> le_term (rlog nf ! unat (aeq_previous_log_index q)) = aeq_previous_log_term q) \<and>
    append_and_commit E nf i q = Exc e n1"
proof -
  have ok: "aeq_leader_id q = i"
    "\<not> list_ex (\<lambda>entry. le_term entry = 0 \<or> le_term entry > aeq_term q) (aeq_entries q)"
    using assms(4) by (auto simp: handle_append_entries_locked_def split: if_splits)
  obtain nf where nf: "(if node_state n \<noteq> Follower \<or> leader_id n \<noteq> Some i
        then become_follower_locked E n (current_term n) (Some i)
        else Ret () (reset_election_timeout_locked E n)) = Ret () nf" "node_wf L nf" "node_state nf = Follower"
    "leader_id nf = Some i" "rlog nf = rlog n" "storage nf = storage n" "node_config nf = node_config n"
    "outbox nf = outbox n" "current_term nf = current_term n"
    using follow_same_term [OF assms(1,2), of i] by blast
  let ?p = "aeq_previous_log_index q"
  have inner: "handle_append_entries_locked E n i q =
      (if ?p > last_log_index_locked nf then Ret () (reject_append nf i q (last_log_index_locked nf + 1) None)
       else if ?p > 0 then
         (case log_at (rlog nf) ?p of
            None \<Rightarrow> Exc UndefinedBehaviour nf
          | Some previous \<Rightarrow>
              if le_term previous \<noteq> aeq_previous_log_term q then
                (case first_index_of_term (rlog nf) (le_term previous) ?p of
                   None \<Rightarrow> Exc UndefinedBehaviour nf
                 | Some k \<Rightarrow> Ret () (reject_append nf i q k (Some (le_term previous))))
              else append_and_commit E nf i q)
       else append_and_commit E nf i q)"
    using ok assms(3) nf(1) unfolding handle_append_entries_locked_def ok(1) by simp
  have prev: "\<not> ?p > last_log_index_locked nf" using assms(4) unfolding inner by (auto split: if_splits)
  note idx = log_index_next(2) [OF nf(2) prev]
  have same: "?p > 0 \<longrightarrow> le_term (rlog nf ! unat ?p) = aeq_previous_log_term q"
    using assms(4) idx prev first_index_of_term_spec [OF idx _ refl] unfolding inner
    by (auto split: if_splits)
  have "append_and_commit E nf i q = Exc e n1"
    using assms(4) prev same idx unfolding inner by (auto split: if_splits)
  then show ?thesis using ok nf(2-9) prev same by blast
qed

lemma append_retry_returns:
  assumes "uniform_in_range E" "node_wf L n" "aeq_term q = current_term n" "L + length (aeq_entries q) < 2 ^ 64"
    and "i \<in> set (peers n)" "handle_append_entries_locked E n i q = Exc e n1"
    and "e \<noteq> RaftError ''log matching invariant violated''"
  shows "\<exists>ps st n2 r. storage_save E ps (storage n) = (Inl e, st) \<and>
    handle_append_entries_locked E n1 i q = Ret () n2 \<and> storage n2 = st \<and>
    outbox n2 = outbox n1 @ [Message (node_id n) i (RpcAppendEntriesResponse r)] \<and> aer_success r \<and>
    aer_request_id r = aeq_request_id q \<and> node_config n1 = node_config n \<and> members n1 = members n \<and>
    current_term n1 = current_term n"
proof -
  obtain nf where nf: "aeq_leader_id q = i" "node_wf L nf" "node_state nf = Follower" "leader_id nf = Some i"
    "\<not> list_ex (\<lambda>entry. le_term entry = 0 \<or> le_term entry > aeq_term q) (aeq_entries q)"
    "rlog nf = rlog n" "storage nf = storage n" "node_config nf = node_config n" "outbox nf = outbox n"
    "current_term nf = current_term n" "\<not> aeq_previous_log_index q > last_log_index_locked nf"
    "aeq_previous_log_index q > 0 \<longrightarrow> le_term (rlog nf ! unat (aeq_previous_log_index q)) = aeq_previous_log_term q"
    "append_and_commit E nf i q = Exc e n1"
    using append_entries_throws [OF assms(1-3,6)] by blast
  let ?i = "aeq_previous_log_index q + 1" and ?L = "L + length (aeq_entries q)"
  obtain ps st where st: "storage_save E ps (storage n) = (Inl e, st)" and wf1: "node_wf ?L n1"
    and n1: "n1 = nf\<lparr>rlog := take (unat ?i) (rlog n) @ aeq_entries q, storage := st\<rparr>"
    using append_throws [OF nf(2,11) _ assms(4) _ nf(13) assms(7)] nf(3,6-8) assms(5) by auto
  have i: "unat ?i = Suc (unat (aeq_previous_log_index q))" "unat ?i \<le> length (rlog n)"
    using log_index_next [OF nf(2,11)] nf(6) node_wfD(4) [OF nf(2)]
      unat_plus_one_u64 [of "aeq_previous_log_index q"] by simp_all
  let ?n2 = "reset_election_timeout_locked E n1"
  have wf2: "node_wf ?L ?n2" using node_wf_reset [OF assms(1) wf1] .
  have prev: "\<not> aeq_previous_log_index q > last_log_index_locked ?n2"
    using le_last_log_index [OF wf2, of "aeq_previous_log_index q"] i by (simp add: n1 not_less)
  have "handle_append_entries_locked E n1 i q = append_and_commit E ?n2 i q"
    using nf(1,3,4,5,6,10,12) assms(3) prev i
    by (intro append_entries_checked) (auto simp: n1 nth_append)
  moreover obtain n2 r where "append_and_commit E ?n2 i q = Ret () n2" "storage n2 = storage ?n2"
    "outbox n2 = outbox ?n2 @ [Message (node_id ?n2) i (RpcAppendEntriesResponse r)]" "aer_success r"
    "aer_request_id r = aeq_request_id q"
    using append_contained [OF wf2 prev, of i "rlog n" E] i assms(5) nf(8) by (auto simp: n1)
  moreover have "members n1 = members n"
    using node_wfD(7) [OF wf1] node_wfD(7) [OF assms(2)] nf(8) by (simp add: n1)
  ultimately show ?thesis using st nf(8,10) by (auto simp: n1)
qed

text \<open>
  C23: Entries that could not be saved are acknowledged on the next request. The first AppendEntries
  throws after the log in memory was changed; the leader's retry finds the entries in place,
  reports success without saving, and what the storage would load is still the old log. The leader
  counts the node as a replica of entries that a restart loses.
\<close>

theorem unsaved_append_acknowledged:
  assumes "\<forall>a b g. a \<le> b \<longrightarrow> a \<le> fst (draw a b g) \<and> fst (draw a b g) \<le> b"
    and "any_run (durable_env rank p seed draw) config L n" "L + length (aeq_entries q) < 2 ^ 64"
    and "aeq_term q = current_term n" "is_peer_locked n i"
    and "handle_request (durable_env rank p seed draw) n (Message i (node_id n) (RpcAppendEntriesRequest q)) = Exc e n1"
    and "e \<noteq> RaftError ''log matching invariant violated''"
  shows "\<exists>r n2. handle_request (durable_env rank p seed draw) n1 (Message i (node_id n) (RpcAppendEntriesRequest q)) =
      Ret (Some (Message (node_id n) i (RpcAppendEntriesResponse r))) n2 \<and> aer_success r \<and>
    DurableRaftStorage_load (storage n2) = DurableRaftStorage_load (storage n)"
proof -
  let ?E = "durable_env rank p seed draw" and ?m = "Message i (node_id n) (RpcAppendEntriesRequest q)"
  have u: "uniform_in_range ?E" using assms(1) by (simp add: durable_uniform)
  have wf: "node_wf L n" using any_run_wf [OF u durable_benign assms(2)] assms(3) by simp
  have "handle_append_entries_locked ?E n i q = Exc e n1"
    using assms(4-6)
    by (cases "handle_append_entries_locked ?E n i q")
      (auto simp: handle_request_def step_locked_def message_term_def Let_def split: option.splits)
  from append_retry_returns [OF u wf assms(4,3) peer_of [OF wf assms(5)] this assms(7)]
  obtain ps st n2 r where st: "DurableRaftStorage_save rank p ps (storage n) = (Inl e, st)"
    and retry: "handle_append_entries_locked ?E n1 i q = Ret () n2" "storage n2 = st"
    "outbox n2 = outbox n1 @ [Message (node_id n) i (RpcAppendEntriesResponse r)]" "aer_success r"
    "aer_request_id r = aeq_request_id q" "node_config n1 = node_config n" "members n1 = members n"
    "current_term n1 = current_term n"
    by (auto simp: durable_env_def)
  have "step_locked ?E n1 ?m = Ret True n2"
    using retry assms(4,5) by (simp add: step_locked_def message_term_def is_peer_locked_def)
  then have "handle_request ?E n1 ?m = Ret (Some (Message (node_id n) i (RpcAppendEntriesResponse r))) (n2\<lparr>outbox := outbox n1\<rparr>)"
    using retry by (simp add: handle_request_def)
  then show ?thesis
    using retry(2,4) durable_raft.failed_save_keeps [OF st] by auto
qed

text \<open>The same node after it has reached term 1, and an entry of that term.\<close>

definition demo_term_one :: PersistentState where
  "demo_term_one = \<lparr> ps_current_term = 1, ps_voted_for = None, ps_log = [] \<rparr>"

definition demo_term_storage :: DurableRaftStorage where
  "demo_term_storage =
     \<lparr> kv_persistence = \<lparr> files = Map.empty, journal = [], faults = [no_faults\<lparr>sf_open := True\<rparr>] \<rparr>,
       kv_entries = [(kRaftStateKey, state_bytes demo_term_one)] \<rparr>"

definition demo_term_node :: "(DurableRaftStorage, u64) RaftNode" where
  "demo_term_node =
     reset_election_timeout_locked demo_durable_env
       \<lparr> node_config = demo_config 1, storage = demo_term_storage,
         random = seed_engine demo_durable_env (xor 1 0x9e3779b97f4a7c15), node_state = Follower,
         current_term = 1, voted_for = None, leader_id = None, rlog = [default_log_entry],
         commit_index = 0, last_applied = 0, election_elapsed = 0, election_timeout = 0,
         heartbeat_elapsed = 0, members = {1, 2, 3}, votes_received = {}, next_index = Map.empty,
         match_index = Map.empty, append_request_id = Map.empty, outbox = [], committed_entries = [] \<rparr>"

definition demo_append :: AppendEntriesRequest where
  "demo_append = AppendEntriesRequest 1 2 0 0 [LogEntry 1 ''x'' False] 0 1"

lemma demo_term_load: "DurableRaftStorage_load demo_term_storage = Inr demo_term_one"
proof -
  have "state_fits demo_term_one" by (simp add: demo_term_one_def state_fits_def commands_fit_def kMaximumLogEntries_def)
  then show ?thesis
    by (simp add: DurableRaftStorage_load_def demo_term_storage_def KvStore_get_def find_entry_def decode_state_bytes)
qed

lemma demo_term_new:
  "new_raft_node demo_durable_env (demo_config 1) (Some demo_term_storage) = Inr demo_term_node"
  using demo_term_load
  by (simp add: new_raft_node_def demo_term_node_def demo_durable_env_def durable_env_def demo_config_def
      validate_config_def demo_term_one_def Let_def insert_commute)

lemma demo_append_fails:
  "\<exists>n1. handle_request demo_durable_env demo_term_node (Message 2 1 (RpcAppendEntriesRequest demo_append)) =
     Exc (StorageError (error_message ''failed to open temporary storage file'' ''raft.tmp'')) n1"
proof -
  let ?ps = "\<lparr> ps_current_term = 1, ps_voted_for = None, ps_log = [LogEntry 1 ''x'' False] \<rparr>"
  have "state_fits ?ps" by (simp add: state_fits_def commands_fit_def kMaximumLogEntries_def kMaximumCommandBytes_def)
  then obtain st' where "DurableRaftStorage_save (\<lambda>es k. 0) ''raft'' ?ps demo_term_storage =
      (Inl (StorageError (error_message ''failed to open temporary storage file'' ''raft.tmp'')), st')"
    using demo_save_fails [of ?ps demo_term_storage "[]" "\<lambda>es k. 0"]
    by (auto simp: demo_term_storage_def insert_or_assign_def kMaximumEntries_def)
  then show ?thesis
    by (simp add: handle_request_def step_locked_def message_term_def demo_append_def demo_term_node_def
        demo_config_def is_peer_locked_def handle_append_entries_locked_def become_follower_locked_def
        append_and_commit_def persist_locked_def persistent_part_def demo_durable_env_def durable_env_def
        last_log_index_locked_def last_index_def reset_election_timeout_locked_def Let_def)
qed

theorem unsaved_append_acknowledged_witness:
  "\<exists>n1 r n2.
    handle_request demo_durable_env demo_term_node (Message 2 1 (RpcAppendEntriesRequest demo_append)) =
      Exc (StorageError (error_message ''failed to open temporary storage file'' ''raft.tmp'')) n1 \<and>
    handle_request demo_durable_env n1 (Message 2 1 (RpcAppendEntriesRequest demo_append)) =
      Ret (Some (Message 1 2 (RpcAppendEntriesResponse r))) n2 \<and> aer_success r \<and>
    DurableRaftStorage_load (storage n2) = Inr demo_term_one"
proof -
  obtain n1 where n1: "handle_request demo_durable_env demo_term_node (Message 2 1 (RpcAppendEntriesRequest demo_append)) =
      Exc (StorageError (error_message ''failed to open temporary storage file'' ''raft.tmp'')) n1"
    using demo_append_fails by blast
  have f: "node_id demo_term_node = 1" "current_term demo_term_node = 1" "members demo_term_node = {1, 2, 3}"
    "storage demo_term_node = demo_term_storage" "rlog demo_term_node = [default_log_entry]"
    by (simp_all add: demo_term_node_def demo_config_def)
  have "any_run demo_durable_env (demo_config 1) 1 demo_term_node"
    using any_run.construct [OF demo_term_new] f(5) by simp
  from unsaved_append_acknowledged [of "\<lambda>lo hi g. (lo, g)" "\<lambda>es k. 0" "''raft''" "\<lambda>s. s" "demo_config 1" 1
      demo_term_node demo_append 2] this n1 f
  show ?thesis by (auto simp: demo_durable_env_def demo_append_def is_peer_locked_def demo_term_load)
qed

section \<open>Term overflow\<close>

lemma solicited_term:
  assumes "node_wf L n" "peers n \<noteq> []" "node_state n \<noteq> Leader" "0 \<le> elapsed"
    and "election_timeout n - election_elapsed n \<le> elapsed"
  shows "current_term (outcome_state (tick E n elapsed)) = current_term n + 1"
proof -
  let ?n1 = "n\<lparr>node_state := Candidate, leader_id := None, current_term := current_term n + 1,
      voted_for := Some (node_id n), votes_received := {node_id n}\<rparr>"
  let ?n2 = "reset_election_timeout_locked E ?n1"
  have "card (members n) = Suc (card (set (peers n)))"
    using node_wfD(7,8) [OF assms(1)] by simp
  then have quorum: "\<not> quorum_size_locked n3 \<le> card (votes_received n3)"
    if "members n3 = members n" "votes_received n3 = {node_id n}" for n3 :: "('a, 'b) RaftNode"
    using that assms(2) by (cases "peers n") (auto simp: quorum_size_locked_def Suc_le_eq card_gt_0_iff)
  have "votes_received ?n2 = {node_id n}"
    by (simp add: reset_election_timeout_locked_def split: prod.splits)
  then have "current_term (outcome_state (start_election_locked E n)) = current_term n + 1"
    using quorum by (auto simp: start_election_locked_def Let_def persist_locked_def send_to_all_spec
        split: sum.splits prod.splits)
  then show ?thesis using assms(3-5) by (simp add: tick_def not_less)
qed

text \<open>
  C24: The term of an election is computed without an overflow check. One response of a member with
  the largest term makes a follower adopt it, and its next election has term zero: its term
  decreases, which the protocol relies on never happening.
\<close>

theorem election_term_wraps:
  assumes "uniform_in_range E" "storage_benign E" "any_run E config L n" "L < 2 ^ 64"
    and "current_term n < - 1" "is_peer_locked n i"
    and "n1 = outcome_state (step E n (Message i (node_id n) (RpcRequestVoteResponse (RequestVoteResponse (- 1) False))))"
  shows "current_term n1 = - 1 \<and> current_term (outcome_state (tick E n1 (election_timeout n1))) = 0"
proof -
  have wf: "node_wf L n" using any_run_wf [OF assms(1-4)] .
  have p: "peers n \<noteq> []" using peer_of [OF wf assms(6)] by auto
  have follower: "post (\<lambda>_ n'. node_wf L n' \<and> node_state n' = Follower \<and> node_config n' = node_config n \<and> current_term n' = - 1)
      (\<lambda>e n'. node_wf L n' \<and> node_state n' = Follower \<and> node_config n' = node_config n \<and> current_term n' = - 1)
      (become_follower_locked E n (- 1) None)"
  proof -
    have c: "node_state n' = Follower \<and> node_config n' = node_config n \<and> current_term n' = - 1"
      if "outcome_state (become_follower_locked E n (- 1) None) = n'" for n'
      using that assms(5) by (auto simp: become_follower_locked_def Let_def persist_locked_def split: sum.splits prod.splits)
    show ?thesis
      using c [OF refl] become_follower_keeps [OF assms(1,2) wf, of "- 1" None]
      by (cases "become_follower_locked E n (- 1) None") auto
  qed
  then have n1: "node_wf L n1 \<and> node_state n1 = Follower \<and> node_config n1 = node_config n \<and> current_term n1 = - 1"
    using assms(5,6) unfolding assms(7) step_def
    by (cases "become_follower_locked E n (- 1) None")
      (auto simp: step_locked_def message_term_def handle_request_vote_response_locked_def)
  then have "0 \<le> election_elapsed n1" "0 \<le> election_timeout n1"
    by (auto simp: node_wf_def timers_ok_def Let_def)
  with solicited_term [of L n1 "election_timeout n1" E] n1 p show ?thesis by auto
qed

theorem election_term_wraps_witness:
  "current_term (outcome_state (step demo_durable_env (demo_durable_node []) (Message 2 1
      (RpcRequestVoteResponse (RequestVoteResponse (- 1) False))))) = - 1 \<and>
   current_term (outcome_state (tick demo_durable_env
      (outcome_state (step demo_durable_env (demo_durable_node []) (Message 2 1
         (RpcRequestVoteResponse (RequestVoteResponse (- 1) False)))))
      (election_timeout (outcome_state (step demo_durable_env (demo_durable_node []) (Message 2 1
         (RpcRequestVoteResponse (RequestVoteResponse (- 1) False)))))))) = 0"
proof -
  have "cfg_node_id (demo_config 1) = 1" by (simp add: demo_config_def)
  then show ?thesis
    using election_term_wraps [OF demo_uniform demo_benign demo_any_run _ _ _ refl, of "[]" 2]
    by (simp add: is_peer_locked_def word_greater_zero_iff)
qed

end
