(* ===== verification/Decimal.thy ===== *)
theory Decimal
  imports Prelude
begin

text \<open>
  Integers as decimal text: \<open>std::from_chars\<close> as the configuration uses it and \<open>std::to_string\<close> as the
  messages and the status line use it.
\<close>

section \<open>Reading integers\<close>

text \<open>
  \<open>std::from_chars\<close> in base ten: an optional minus sign for signed types, the longest run of digits,
  and an error when there is none or the value is out of range. The result is the value or nothing,
  and the unread rest.
\<close>

definition is_digit :: "char \<Rightarrow> bool" where
  "is_digit c \<longleftrightarrow> (of_char c :: nat) \<in> {48..57}"

definition digit_value :: "char \<Rightarrow> nat" where
  "digit_value c = of_char c - 48"

definition digits_value :: "string \<Rightarrow> nat" where
  "digits_value ds = foldl (\<lambda>n c. n * 10 + digit_value c) 0 ds"

definition from_chars :: "bool \<Rightarrow> int \<Rightarrow> int \<Rightarrow> string \<Rightarrow> int option \<times> string" where
  "from_chars sg lo hi s =
     (let negative = (sg \<and> s \<noteq> [] \<and> hd s = CHR ''-'');
          body = (if negative then tl s else s);
          ds = takeWhile is_digit body;
          v = (if negative then - int (digits_value ds) else int (digits_value ds))
      in if ds = [] then (None, s)
         else if v < lo \<or> hi < v then (None, dropWhile is_digit body)
         else (Some v, dropWhile is_digit body))"

section \<open>Printing integers\<close>

text \<open>\<open>std::to_string\<close> of an unsigned integer.\<close>

definition digit_char :: "nat \<Rightarrow> char" where
  "digit_char d = char_of (48 + d)"

fun decimal :: "nat \<Rightarrow> string" where
  "decimal n = (if n < 10 then [digit_char n] else decimal (n div 10) @ [digit_char (n mod 10)])"

declare decimal.simps [simp del]

text \<open>The same of a signed integer.\<close>

definition int_text :: "int \<Rightarrow> string" where
  "int_text i = (if i < 0 then CHR ''-'' # decimal (nat (- i)) else decimal (nat i))"

lemma digit_char [simp]:
  "d < 10 \<Longrightarrow> is_digit (digit_char d)" "d < 10 \<Longrightarrow> digit_value (digit_char d) = d"
  by (simp_all add: digit_char_def is_digit_def digit_value_def)

lemma decimal_digits: "list_all is_digit (decimal n) \<and> decimal n \<noteq> [] \<and> digits_value (decimal n) = n"
proof (induction n rule: decimal.induct)
  case (1 n)
  then show ?case
    by (subst (1 2 3) decimal.simps) (auto simp: digits_value_def)
qed

lemma takeWhile_digits:
  assumes "list_all is_digit ds" "r = [] \<or> \<not> is_digit (hd r)"
  shows "takeWhile is_digit (ds @ r) = ds" "dropWhile is_digit (ds @ r) = r"
proof -
  have "takeWhile is_digit r = []" "dropWhile is_digit r = r" using assms(2) by (cases r; auto)+
  then show "takeWhile is_digit (ds @ r) = ds" "dropWhile is_digit (ds @ r) = r"
    using assms(1) by (induction ds) auto
qed

lemma minus_no_digit: "\<not> is_digit CHR ''-''"
  by (simp add: is_digit_def)

lemma from_chars_decimal:
  "lo \<le> 0 \<Longrightarrow> 0 \<le> hi \<Longrightarrow>
   from_chars sg lo hi (decimal n) = (if int n \<le> hi then Some (int n) else None, [])"
proof -
  assume *: "lo \<le> 0" "0 \<le> hi"
  note d = decimal_digits [of n]
  have "hd (decimal n) \<noteq> CHR ''-''" using d minus_no_digit by (cases "decimal n") auto
  moreover have "takeWhile is_digit (decimal n) = decimal n" "dropWhile is_digit (decimal n) = []"
    using takeWhile_digits [of "decimal n" "[]"] d by simp_all
  ultimately show ?thesis using d * by (simp add: from_chars_def Let_def del: takeWhile_eq_all_conv)
qed

end
