(* ===== verification/NodeConfig.thy ===== *)
theory NodeConfig
  imports RaftTypes Decimal
begin

text \<open>
  The configuration of a node, \<open>src/node/node_runtime.cpp\<close>: the parsers of the environment variables,
  \<open>NodeRuntimeConfig::from_environment\<close> and the derived configuration of the consensus core. The
  environment of the process is a map from names to values.
\<close>

section \<open>Integers\<close>

definition parse_integer :: "bool \<Rightarrow> int \<Rightarrow> int \<Rightarrow> string \<Rightarrow> string \<Rightarrow> error + int" where
  "parse_integer sg lo hi s name =
     (case from_chars sg lo hi s of
        (Some v, []) \<Rightarrow> Inr v
      | _ \<Rightarrow> Inl (InvalidArgument (''invalid integer for '' @ name)))"

text \<open>The two instances of the template.\<close>

definition parse_node_id :: "string \<Rightarrow> string \<Rightarrow> error + NodeId" where
  "parse_node_id s name = map_sum id word_of_int (parse_integer False 0 (2 ^ 64 - 1) s name)"

definition parse_int64 :: "string \<Rightarrow> string \<Rightarrow> error + int" where
  "parse_int64 s name = parse_integer True (- (2 ^ 63)) (2 ^ 63 - 1) s name"

section \<open>The environment\<close>

type_synonym environment = "string \<rightharpoonup> string"

definition require_environment :: "environment \<Rightarrow> string \<Rightarrow> error + string" where
  "require_environment env name =
     (case env name of
        None \<Rightarrow> Inl (InvalidArgument (''missing environment variable: '' @ name))
      | Some value \<Rightarrow>
          if value = [] then Inl (InvalidArgument (''missing environment variable: '' @ name))
          else Inr value)"

definition environment_duration :: "environment \<Rightarrow> string \<Rightarrow> int \<Rightarrow> error + millis" where
  "environment_duration env name fallback =
     (case env name of None \<Rightarrow> Inr fallback | Some value \<Rightarrow> parse_int64 value name)"

section \<open>Peers\<close>

text \<open>A \<open>std::map\<close> keyed by node: an association list sorted by key.\<close>

type_synonym peer_map = "(NodeId \<times> string) list"

definition emplace_peer :: "NodeId \<Rightarrow> string \<Rightarrow> peer_map \<Rightarrow> peer_map option" where
  "emplace_peer peer_id endpoint ps =
     (if peer_id \<in> fst ` set ps then None
      else Some (insort_key fst (peer_id, endpoint) ps))"

definition parse_peer :: "NodeId \<Rightarrow> peer_map \<Rightarrow> string \<Rightarrow> error + peer_map" where
  "parse_peer local_id ps item =
     (let before = takeWhile (\<lambda>c. c \<noteq> CHR ''='') item;
          after = dropWhile (\<lambda>c. c \<noteq> CHR ''='') item
      in if after = [] \<or> before = [] \<or> tl after = []
         then Inl (InvalidArgument ''FTKV_PEERS must use id=host:port entries'')
         else
           (case parse_node_id before ''FTKV_PEERS'' of
              Inl e \<Rightarrow> Inl e
            | Inr peer_id \<Rightarrow>
                (case (if peer_id = local_id then None else emplace_peer peer_id (tl after) ps) of
                   None \<Rightarrow> Inl (InvalidArgument ''FTKV_PEERS contains a duplicate or local node ID'')
                 | Some ps' \<Rightarrow> Inr ps')))"

text \<open>The loop over the items; the argument is what follows the offset.\<close>

function parse_peer_items :: "NodeId \<Rightarrow> peer_map \<Rightarrow> string \<Rightarrow> error + peer_map" where
  "parse_peer_items local_id ps s =
     (if s = [] then Inr ps
      else
        (case parse_peer local_id ps (takeWhile (\<lambda>c. c \<noteq> CHR '','') s) of
           Inl e \<Rightarrow> Inl e
         | Inr ps' \<Rightarrow>
             (case dropWhile (\<lambda>c. c \<noteq> CHR '','') s of
                [] \<Rightarrow> Inr ps'
              | c # rest \<Rightarrow> parse_peer_items local_id ps' rest)))"
  by pat_completeness auto

termination parse_peer_items
proof (relation "measure (\<lambda>(local_id, ps, s). length s)")
  fix local_id :: NodeId and ps s ps' c rest
  assume "dropWhile (\<lambda>c. c \<noteq> CHR '','') s = c # rest"
  then have "length (c # rest) \<le> length s" by (metis length_dropWhile_le)
  then show "((local_id, ps', rest), (local_id, ps, s))
      \<in> measure (\<lambda>(local_id, ps, s). length s)" by simp
qed simp

declare parse_peer_items.simps [simp del]

definition parse_peers :: "string \<Rightarrow> NodeId \<Rightarrow> error + peer_map" where
  "parse_peers s local_id =
     (case parse_peer_items local_id [] s of
        Inl e \<Rightarrow> Inl e
      | Inr ps \<Rightarrow>
          if ps = [] then Inl (InvalidArgument ''FTKV_PEERS must contain at least one peer'')
          else Inr ps)"

section \<open>The configuration\<close>

record NodeRuntimeConfig =
  rt_node_id :: NodeId
  rt_listen_address :: string
  rt_data_directory :: string
  rt_peers :: peer_map
  rt_election_timeout_min :: millis
  rt_election_timeout_max :: millis
  rt_heartbeat_interval :: millis

text \<open>The steps run in order; the first exception ends the function.\<close>

definition from_environment :: "environment \<Rightarrow> error + NodeRuntimeConfig" where
  "from_environment env =
     bind_sum (require_environment env ''FTKV_NODE_ID'') (\<lambda>id_text.
     bind_sum (parse_node_id id_text ''FTKV_NODE_ID'') (\<lambda>nid.
     bind_sum (require_environment env ''FTKV_LISTEN_ADDRESS'') (\<lambda>listen.
     bind_sum (require_environment env ''FTKV_DATA_DIR'') (\<lambda>dir.
     bind_sum (require_environment env ''FTKV_PEERS'') (\<lambda>peers_text.
     bind_sum (parse_peers peers_text nid) (\<lambda>ps.
     bind_sum (environment_duration env ''FTKV_ELECTION_TIMEOUT_MIN_MS'' 300) (\<lambda>emin.
     bind_sum (environment_duration env ''FTKV_ELECTION_TIMEOUT_MAX_MS'' 500) (\<lambda>emax.
     bind_sum (environment_duration env ''FTKV_HEARTBEAT_INTERVAL_MS'' 100) (\<lambda>hb.
       Inr \<lparr> rt_node_id = nid, rt_listen_address = listen, rt_data_directory = dir,
             rt_peers = ps, rt_election_timeout_min = emin, rt_election_timeout_max = emax,
             rt_heartbeat_interval = hb \<rparr>)))))))))"

definition raft_config :: "NodeRuntimeConfig \<Rightarrow> RaftConfig" where
  "raft_config config =
     default_raft_config\<lparr>
       cfg_node_id := rt_node_id config,
       cfg_election_timeout_min := rt_election_timeout_min config,
       cfg_election_timeout_max := rt_election_timeout_max config,
       cfg_heartbeat_interval := rt_heartbeat_interval config,
       cfg_random_seed := xor (cfg_random_seed default_raft_config) (rt_node_id config),
       cfg_peers := cfg_peers default_raft_config @ map fst (rt_peers config)\<rparr>"

section \<open>Reading printed node identifiers\<close>

lemma parse_node_id_decimal:
  "parse_node_id (decimal n) name =
     (if n < 2 ^ 64 then Inr (of_nat n) else Inl (InvalidArgument (''invalid integer for '' @ name)))"
  by (simp add: parse_node_id_def parse_integer_def from_chars_decimal)

lemma parse_node_id_unat: "parse_node_id (decimal (unat i)) name = Inr i"
  using unat_u64_less [of i] by (simp add: parse_node_id_decimal)

section \<open>Peers\<close>

text \<open>What the parser of \<open>FTKV_PEERS\<close> accepts: sorted, without duplicates and without the local node.\<close>

definition peers_ok :: "NodeId \<Rightarrow> peer_map \<Rightarrow> bool" where
  "peers_ok local_id ps \<longleftrightarrow>
     sorted (map fst ps) \<and> distinct (map fst ps) \<and> local_id \<notin> fst ` set ps \<and> (\<forall>(i, h) \<in> set ps. h \<noteq> [])"

lemma map_fst_insort: "map fst (insort_key fst p ps) = insort (fst p) (map fst ps)"
  by (induction ps) auto

lemma insort_peers:
  "peers_ok l ps \<Longrightarrow> i \<notin> fst ` set ps \<Longrightarrow> i \<noteq> l \<Longrightarrow> h \<noteq> [] \<Longrightarrow> peers_ok l (insort_key fst (i, h) ps)"
  unfolding peers_ok_def
  by (intro conjI) (simp_all add: map_fst_insort sorted_insort distinct_insort set_insort_key)

lemma parse_peer_ok:
  assumes "peers_ok l ps" "parse_peer l ps item = Inr ps'"
  shows "peers_ok l ps' \<and> ps' \<noteq> []"
  using assms insort_peers [of l ps]
  by (auto simp: parse_peer_def Let_def emplace_peer_def split: if_splits sum.splits option.splits)

lemma parse_peer_items_ok: "peers_ok l ps \<Longrightarrow> parse_peer_items l ps s = Inr ps' \<Longrightarrow> peers_ok l ps'"
proof (induction l ps s rule: parse_peer_items.induct)
  case (1 l ps s)
  show ?case
    using 1(3) 1(1) 1(2) parse_peer_ok [OF 1(2)]
    by (subst (asm) parse_peer_items.simps) (auto split: if_splits sum.splits list.splits)
qed

lemma parse_peers_ok: "parse_peers s l = Inr ps \<Longrightarrow> peers_ok l ps \<and> ps \<noteq> []"
  using parse_peer_items_ok [of l "[]" s ps]
  by (auto simp: parse_peers_def peers_ok_def split: sum.splits if_splits)

subsection \<open>Printing and reading peers\<close>

definition print_peer :: "NodeId \<times> string \<Rightarrow> string" where
  "print_peer p = decimal (unat (fst p)) @ CHR ''='' # snd p"

fun print_peers :: "peer_map \<Rightarrow> string" where
  "print_peers [] = []"
| "print_peers [p] = print_peer p"
| "print_peers (p # q # ps) = print_peer p @ CHR '','' # print_peers (q # ps)"

definition endpoint_ok :: "string \<Rightarrow> bool" where
  "endpoint_ok h \<longleftrightarrow> h \<noteq> [] \<and> CHR '','' \<notin> set h"

lemma digits_not_special:
  "list_all is_digit ds \<Longrightarrow> CHR ''='' \<notin> set ds \<and> CHR '','' \<notin> set ds"
  by (induction ds) (auto simp: is_digit_def)

lemma takeWhile_split:
  "x \<notin> set xs \<Longrightarrow> takeWhile (\<lambda>c. c \<noteq> x) (xs @ x # ys) = xs \<and> dropWhile (\<lambda>c. c \<noteq> x) (xs @ x # ys) = x # ys"
  by (induction xs) auto

lemma takeWhile_all: "x \<notin> set xs \<Longrightarrow> takeWhile (\<lambda>c. c \<noteq> x) xs = xs \<and> dropWhile (\<lambda>c. c \<noteq> x) xs = []"
  by (induction xs) auto

lemma parse_print_peer:
  assumes "endpoint_ok h" "i \<noteq> l" "i \<notin> fst ` set ps"
  shows "parse_peer l ps (print_peer (i, h)) = Inr (insort_key fst (i, h) ps)"
proof -
  have d: "CHR ''='' \<notin> set (decimal (unat i))" "decimal (unat i) \<noteq> []"
    using decimal_digits [of "unat i"] digits_not_special by auto
  show ?thesis
    using takeWhile_split [OF d(1), of h] d(2) assms
    by (simp add: parse_peer_def print_peer_def Let_def parse_node_id_unat emplace_peer_def endpoint_ok_def)
qed

lemma insort_last:
  "sorted (map fst (ps @ [p])) \<Longrightarrow> distinct (map fst (ps @ [p])) \<Longrightarrow> insort_key fst p ps = ps @ [p]"
proof (induction ps)
  case (Cons q ps)
  then have "fst q < fst p" by (auto simp: less_le sorted_append)
  then show ?case using Cons by auto
qed simp

lemma print_peer_no_comma: "endpoint_ok h \<Longrightarrow> CHR '','' \<notin> set (print_peer (i, h))"
  using decimal_digits [of "unat i"] digits_not_special by (auto simp: print_peer_def endpoint_ok_def)

lemma print_peer_not_Nil: "print_peer p \<noteq> []"
  by (simp add: print_peer_def)

lemma parse_peer_next:
  assumes "peers_ok l (acc @ [p])" "endpoint_ok (snd p)"
  shows "parse_peer l acc (print_peer p) = Inr (acc @ [p])"
  using assms parse_print_peer [of "snd p" "fst p" l acc] insort_last [of acc p]
  by (auto simp: peers_ok_def)

lemma parse_peer_items_last:
  "CHR '','' \<notin> set item \<Longrightarrow> item \<noteq> [] \<Longrightarrow> parse_peer_items l acc item = parse_peer l acc item"
  by (subst parse_peer_items.simps) (simp add: takeWhile_all split: sum.splits)

lemma parse_peer_items_more:
  "CHR '','' \<notin> set item \<Longrightarrow> parse_peer l acc item = Inr acc' \<Longrightarrow>
   parse_peer_items l acc (item @ CHR '','' # rest) = parse_peer_items l acc' rest"
  by (subst parse_peer_items.simps) (simp add: takeWhile_split)

lemma parse_print_items:
  "peers_ok l (acc @ ps) \<Longrightarrow> list_all (\<lambda>p. endpoint_ok (snd p)) ps \<Longrightarrow>
   parse_peer_items l acc (print_peers ps) = Inr (acc @ ps)"
proof (induction ps arbitrary: acc rule: print_peers.induct)
  case 1
  then show ?case by (simp add: parse_peer_items.simps)
next
  case (2 p)
  then show ?case
    using print_peer_no_comma [of "snd p" "fst p"] print_peer_not_Nil [of p]
    by (simp add: parse_peer_items_last parse_peer_next)
next
  case (3 p q ps)
  have ok: "peers_ok l (acc @ [p])" using 3(2) by (auto simp: peers_ok_def sorted_append)
  show ?case
    using 3 parse_peer_next [OF ok] print_peer_no_comma [of "snd p" "fst p"]
    by (simp add: parse_peer_items_more)
qed

lemma parse_print_peers:
  assumes "peers_ok l ps" "ps \<noteq> []" "list_all (\<lambda>p. endpoint_ok (snd p)) ps"
  shows "parse_peers (print_peers ps) l = Inr ps"
  using parse_print_items [of l "[]" ps] assms by (simp add: parse_peers_def)

end
