(* ===== verification/GrpcTypes.thy ===== *)
theory GrpcTypes
  imports RaftTypes
begin

text \<open>
  The wire interface of \<open>proto/kvstore.proto\<close>: the messages of the two services, the status of a call,
  and the translations between wire messages and the types of the Raft core that the client
  (\<open>src/grpc/grpc_client.cpp\<close>) and the server (\<open>src/grpc/grpc_server.cpp\<close>) contain.
\<close>

section \<open>Status\<close>

text \<open>The codes the sources name; a call may end with any other code of the gRPC library.\<close>

datatype StatusCode =
    OK
  | CANCELLED
  | INVALID_ARGUMENT
  | DEADLINE_EXCEEDED
  | RESOURCE_EXHAUSTED
  | FAILED_PRECONDITION
  | ABORTED
  | INTERNAL
  | UNAVAILABLE
  | DATA_LOSS
  | OtherCode nat

datatype Status = Status (error_code: StatusCode) (status_text: string)

definition status_ok :: "Status \<Rightarrow> bool" where
  "status_ok s \<longleftrightarrow> error_code s = OK"

section \<open>Messages\<close>

text \<open>
  A field that is not set has the default value of its type; \<open>Clear\<close> resets a message to the defaults.
  An enumeration field may hold a number that has no name.
\<close>

record v1_GetRequest =
  gq_key :: bytes

record v1_GetResponse =
  gr_found :: bool
  gr_value :: bytes

record v1_PutRequest =
  pq_key :: bytes
  pq_value :: bytes

record v1_DeleteRequest =
  dq_key :: bytes

record v1_DeleteResponse =
  dr_deleted :: bool

record v1_RaftLogEntry =
  we_term :: u64
  we_command :: bytes
  we_is_no_op :: bool

record v1_AppendEntriesRequest =
  waq_term :: u64
  waq_leader_id :: u64
  waq_previous_log_index :: u64
  waq_previous_log_term :: u64
  waq_entries :: "v1_RaftLogEntry list"
  waq_leader_commit :: u64
  waq_request_id :: u64

record v1_AppendEntriesResponse =
  war_term :: u64
  war_success :: bool
  war_match_index :: u64
  war_conflict_index :: u64
  war_has_conflict_term :: bool
  war_conflict_term :: u64
  war_request_id :: u64

record v1_RequestVoteRequest =
  wvq_term :: u64
  wvq_candidate_id :: u64
  wvq_last_log_index :: u64
  wvq_last_log_term :: u64

record v1_RequestVoteResponse =
  wvr_term :: u64
  wvr_vote_granted :: bool

datatype v1_NodeRole =
    NODE_ROLE_UNSPECIFIED
  | NODE_ROLE_FOLLOWER
  | NODE_ROLE_CANDIDATE
  | NODE_ROLE_LEADER
  | NODE_ROLE_UNNAMED int

record v1_NodeStatusResponse =
  wns_node_id :: u64
  wns_role :: v1_NodeRole
  wns_current_term :: u64
  wns_has_leader :: bool
  wns_leader_id :: u64
  wns_commit_index :: u64
  wns_last_applied :: u64
  wns_last_log_index :: u64

definition clear_GetResponse :: v1_GetResponse where
  "clear_GetResponse = \<lparr> gr_found = False, gr_value = [] \<rparr>"

definition clear_DeleteResponse :: v1_DeleteResponse where
  "clear_DeleteResponse = \<lparr> dr_deleted = False \<rparr>"

definition clear_AppendEntriesResponse :: v1_AppendEntriesResponse where
  "clear_AppendEntriesResponse =
     \<lparr> war_term = 0, war_success = False, war_match_index = 0, war_conflict_index = 0,
       war_has_conflict_term = False, war_conflict_term = 0, war_request_id = 0 \<rparr>"

definition clear_RequestVoteResponse :: v1_RequestVoteResponse where
  "clear_RequestVoteResponse = \<lparr> wvr_term = 0, wvr_vote_granted = False \<rparr>"

definition clear_NodeStatusResponse :: v1_NodeStatusResponse where
  "clear_NodeStatusResponse =
     \<lparr> wns_node_id = 0, wns_role = NODE_ROLE_UNSPECIFIED, wns_current_term = 0,
       wns_has_leader = False, wns_leader_id = 0, wns_commit_index = 0, wns_last_applied = 0,
       wns_last_log_index = 0 \<rparr>"

section \<open>Votes\<close>

definition vote_request_to_wire :: "RequestVoteRequest \<Rightarrow> v1_RequestVoteRequest" where
  "vote_request_to_wire r =
     \<lparr> wvq_term = rvq_term r, wvq_candidate_id = rvq_candidate_id r,
       wvq_last_log_index = rvq_last_log_index r, wvq_last_log_term = rvq_last_log_term r \<rparr>"

definition vote_request_from_wire :: "v1_RequestVoteRequest \<Rightarrow> RequestVoteRequest" where
  "vote_request_from_wire w =
     RequestVoteRequest (wvq_term w) (wvq_candidate_id w) (wvq_last_log_index w) (wvq_last_log_term w)"

definition vote_response_to_wire :: "RequestVoteResponse \<Rightarrow> v1_RequestVoteResponse" where
  "vote_response_to_wire r =
     clear_RequestVoteResponse\<lparr>wvr_term := rvr_term r, wvr_vote_granted := rvr_vote_granted r\<rparr>"

definition vote_response_from_wire :: "v1_RequestVoteResponse \<Rightarrow> RequestVoteResponse" where
  "vote_response_from_wire w = RequestVoteResponse (wvr_term w) (wvr_vote_granted w)"

section \<open>Appends\<close>

definition entry_to_wire :: "LogEntry \<Rightarrow> v1_RaftLogEntry" where
  "entry_to_wire e =
     \<lparr> we_term = le_term e, we_command = le_command e, we_is_no_op = le_is_no_op e \<rparr>"

definition entry_from_wire :: "v1_RaftLogEntry \<Rightarrow> LogEntry" where
  "entry_from_wire w = LogEntry (we_term w) (we_command w) (we_is_no_op w)"

definition append_request_to_wire :: "AppendEntriesRequest \<Rightarrow> v1_AppendEntriesRequest" where
  "append_request_to_wire r =
     \<lparr> waq_term = aeq_term r, waq_leader_id = aeq_leader_id r,
       waq_previous_log_index = aeq_previous_log_index r,
       waq_previous_log_term = aeq_previous_log_term r,
       waq_entries = map entry_to_wire (aeq_entries r),
       waq_leader_commit = aeq_leader_commit r, waq_request_id = aeq_request_id r \<rparr>"

definition append_request_from_wire :: "v1_AppendEntriesRequest \<Rightarrow> AppendEntriesRequest" where
  "append_request_from_wire w =
     AppendEntriesRequest (waq_term w) (waq_leader_id w) (waq_previous_log_index w)
       (waq_previous_log_term w) (map entry_from_wire (waq_entries w)) (waq_leader_commit w)
       (waq_request_id w)"

definition append_response_to_wire :: "AppendEntriesResponse \<Rightarrow> v1_AppendEntriesResponse" where
  "append_response_to_wire r =
     (let w1 = clear_AppendEntriesResponse\<lparr>war_term := aer_term r, war_success := aer_success r,
                 war_match_index := aer_match_index r, war_conflict_index := aer_conflict_index r,
                 war_has_conflict_term := (aer_conflict_term r \<noteq> None)\<rparr>;
          w2 = (case aer_conflict_term r of None \<Rightarrow> w1 | Some t \<Rightarrow> w1\<lparr>war_conflict_term := t\<rparr>)
      in w2\<lparr>war_request_id := aer_request_id r\<rparr>)"

definition append_response_from_wire :: "v1_AppendEntriesResponse \<Rightarrow> AppendEntriesResponse" where
  "append_response_from_wire w =
     (let conflict_term = (if war_has_conflict_term w then Some (war_conflict_term w) else None)
      in AppendEntriesResponse (war_term w) (war_success w) (war_match_index w)
           (war_conflict_index w) conflict_term (war_request_id w))"

section \<open>Node status\<close>

fun role_to_wire :: "NodeState \<Rightarrow> v1_NodeRole" where
  "role_to_wire Follower = NODE_ROLE_FOLLOWER"
| "role_to_wire Candidate = NODE_ROLE_CANDIDATE"
| "role_to_wire Leader = NODE_ROLE_LEADER"

fun role_from_wire :: "v1_NodeRole \<Rightarrow> NodeState option" where
  "role_from_wire NODE_ROLE_FOLLOWER = Some Follower"
| "role_from_wire NODE_ROLE_CANDIDATE = Some Candidate"
| "role_from_wire NODE_ROLE_LEADER = Some Leader"
| "role_from_wire _ = None"

definition status_to_wire :: "NodeSnapshot \<Rightarrow> v1_NodeStatusResponse" where
  "status_to_wire s =
     (let w1 = clear_NodeStatusResponse\<lparr>wns_node_id := sn_node_id s,
                 wns_role := role_to_wire (sn_state s), wns_current_term := sn_current_term s,
                 wns_has_leader := (sn_leader_id s \<noteq> None)\<rparr>;
          w2 = (case sn_leader_id s of None \<Rightarrow> w1 | Some l \<Rightarrow> w1\<lparr>wns_leader_id := l\<rparr>)
      in w2\<lparr>wns_commit_index := sn_commit_index s, wns_last_applied := sn_last_applied s,
            wns_last_log_index := sn_last_log_index s\<rparr>)"

definition status_from_wire :: "v1_NodeStatusResponse \<Rightarrow> NodeSnapshot option" where
  "status_from_wire w =
     (case role_from_wire (wns_role w) of
        None \<Rightarrow> None
      | Some state \<Rightarrow>
          (let leader = (if wns_has_leader w then Some (wns_leader_id w) else None)
           in Some (NodeSnapshot (wns_node_id w) state (wns_current_term w) leader
                (wns_commit_index w) (wns_last_applied w) (wns_last_log_index w))))"

section \<open>Round trips\<close>

text \<open>What the receiver reconstructs is what the sender had.\<close>

named_theorems wire_roundtrip

lemma vote_request_wire [wire_roundtrip]: "vote_request_from_wire (vote_request_to_wire r) = r"
  by (simp add: vote_request_from_wire_def vote_request_to_wire_def)

lemma vote_response_wire [wire_roundtrip]: "vote_response_from_wire (vote_response_to_wire r) = r"
  by (simp add: vote_response_from_wire_def vote_response_to_wire_def)

lemma append_request_wire [wire_roundtrip]: "append_request_from_wire (append_request_to_wire r) = r"
proof -
  have "entry_from_wire \<circ> entry_to_wire = id"
    by (simp add: fun_eq_iff entry_from_wire_def entry_to_wire_def)
  then show ?thesis by (simp add: append_request_from_wire_def append_request_to_wire_def)
qed

lemma append_response_wire [wire_roundtrip]: "append_response_from_wire (append_response_to_wire r) = r"
  by (cases r) (auto simp: append_response_from_wire_def append_response_to_wire_def Let_def split: option.splits)

lemma status_wire [wire_roundtrip]: "status_from_wire (status_to_wire s) = Some s"
  by (cases s; cases "sn_state s")
    (auto simp: status_from_wire_def status_to_wire_def Let_def split: option.splits)

end
