(* ===== verification/GrpcClient.thy ===== *)
theory GrpcClient
  imports GrpcTypes Decimal
begin

text \<open>
  The gRPC client of \<open>src/grpc/grpc_client.cpp\<close>: options, the retry loop with exponential backoff and
  the six calls. The stubs that the gRPC library generates, with everything behind them, are a
  parameter: a function from the target, the timeout, the request and a world \<open>'w\<close> to a status, a
  response and the world after the call.
\<close>

section \<open>Errors and options\<close>

text \<open>\<open>GrpcError\<close> with its message, status code and number of attempts, and the other exceptions.\<close>

datatype client_error =
    GrpcError string StatusCode u64
  | ClientInvalidArgument string
  | ClientLogicError string

record GrpcClientOptions =
  opt_timeout :: millis
  opt_max_attempts :: u64
  opt_initial_backoff :: millis
  opt_maximum_backoff :: millis

definition default_options :: GrpcClientOptions where
  "default_options =
     \<lparr> opt_timeout = 500, opt_max_attempts = 3, opt_initial_backoff = 10,
       opt_maximum_backoff = 100 \<rparr>"

definition is_retryable :: "StatusCode \<Rightarrow> bool" where
  "is_retryable code \<longleftrightarrow>
     code = UNAVAILABLE \<or> code = DEADLINE_EXCEEDED \<or> code = RESOURCE_EXHAUSTED \<or> code = ABORTED"

definition validate_options :: "GrpcClientOptions \<Rightarrow> client_error + unit" where
  "validate_options options =
     (if opt_timeout options \<le> 0 \<or> opt_max_attempts options = 0 \<or>
         opt_initial_backoff options < 0 \<or> opt_maximum_backoff options < 0 \<or>
         opt_initial_backoff options > opt_maximum_backoff options
      then Inl (ClientInvalidArgument ''invalid gRPC client options'') else Inr ())"

definition error_text :: "string \<Rightarrow> Status \<Rightarrow> u64 \<Rightarrow> string" where
  "error_text operation status attempts =
     operation @ '' failed after '' @ decimal (unat attempts) @ '' attempt(s)'' @
     (if status_text status = [] then [] else '': '' @ status_text status)"

definition grpc_error :: "string \<Rightarrow> Status \<Rightarrow> u64 \<Rightarrow> client_error" where
  "grpc_error operation status attempts =
     GrpcError (error_text operation status attempts) (error_code status) attempts"

section \<open>The retry loop\<close>

text \<open>
  One attempt calls the operation with the timeout. The results are the last status with the number
  of attempts, the response, the pauses in the order they were made, and the world.
\<close>

record InvocationResult =
  ir_status :: Status
  ir_attempts :: u64

function retry_loop ::
    "GrpcClientOptions \<Rightarrow> (millis \<Rightarrow> 'w \<Rightarrow> (Status \<times> 'r) \<times> 'w) \<Rightarrow> u64 \<Rightarrow> millis \<Rightarrow> 'w
     \<Rightarrow> (client_error + InvocationResult \<times> 'r) \<times> millis list \<times> 'w" where
  "retry_loop options operation attempt backoff w =
     (if attempt \<le> opt_max_attempts options then
        (case operation (opt_timeout options) w of
           ((status, response), w1) \<Rightarrow>
             if status_ok status \<or> \<not> is_retryable (error_code status) \<or>
                attempt = opt_max_attempts options
             then (Inr (\<lparr> ir_status = status, ir_attempts = attempt \<rparr>, response), [], w1)
             else
               (case retry_loop options operation (attempt + 1)
                       (min (opt_maximum_backoff options) (backoff * 2)) w1 of
                  (r, sleeps, w2) \<Rightarrow> (r, backoff # sleeps, w2)))
      else (Inl (ClientLogicError ''gRPC retry loop terminated unexpectedly''), [], w))"
  by pat_completeness auto

lemma attempt_less: "(a :: u64) \<le> m \<Longrightarrow> a \<noteq> m \<Longrightarrow> unat (a + 1) = Suc (unat a) \<and> unat a < unat m"
proof -
  assume "a \<le> m" "a \<noteq> m"
  then have "unat a < unat m" by (metis order.not_eq_order_implies_strict word_less_nat_alt)
  then show ?thesis using unat_plus_one_u64 [of a] unat_u64_less [of m] by simp
qed

termination retry_loop
  by (relation "measure (\<lambda>(options, operation, attempt, backoff, w).
        unat (opt_max_attempts options) - unat attempt)")
    (auto dest!: attempt_less)

declare retry_loop.simps [simp del]

definition invoke_with_retry ::
    "GrpcClientOptions \<Rightarrow> (millis \<Rightarrow> 'w \<Rightarrow> (Status \<times> 'r) \<times> 'w) \<Rightarrow> 'w
     \<Rightarrow> (client_error + InvocationResult \<times> 'r) \<times> millis list \<times> 'w" where
  "invoke_with_retry options operation w =
     retry_loop options operation 1 (opt_initial_backoff options) w"

section \<open>The client\<close>

record 'w stubs =
  stub_Get :: "string \<Rightarrow> millis \<Rightarrow> v1_GetRequest \<Rightarrow> 'w \<Rightarrow> (Status \<times> v1_GetResponse) \<times> 'w"
  stub_Put :: "string \<Rightarrow> millis \<Rightarrow> v1_PutRequest \<Rightarrow> 'w \<Rightarrow> (Status \<times> unit) \<times> 'w"
  stub_Delete :: "string \<Rightarrow> millis \<Rightarrow> v1_DeleteRequest \<Rightarrow> 'w \<Rightarrow> (Status \<times> v1_DeleteResponse) \<times> 'w"
  stub_GetStatus :: "string \<Rightarrow> millis \<Rightarrow> unit \<Rightarrow> 'w \<Rightarrow> (Status \<times> v1_NodeStatusResponse) \<times> 'w"
  stub_RequestVote ::
    "string \<Rightarrow> millis \<Rightarrow> v1_RequestVoteRequest \<Rightarrow> 'w \<Rightarrow> (Status \<times> v1_RequestVoteResponse) \<times> 'w"
  stub_AppendEntries ::
    "string \<Rightarrow> millis \<Rightarrow> v1_AppendEntriesRequest \<Rightarrow> 'w \<Rightarrow> (Status \<times> v1_AppendEntriesResponse) \<times> 'w"

record GrpcClient =
  gc_target :: string
  gc_options :: GrpcClientOptions

text \<open>\<open>grpc::CreateChannel\<close> never returns a null channel; a channel is its target.\<close>

definition make_channel :: "string \<Rightarrow> client_error + string" where
  "make_channel target =
     (if target = [] then Inl (ClientInvalidArgument ''gRPC target must not be empty'')
      else Inr target)"

definition new_GrpcClient_channel :: "string option \<Rightarrow> GrpcClientOptions \<Rightarrow> client_error + GrpcClient" where
  "new_GrpcClient_channel channel options =
     (case validate_options options of
        Inl e \<Rightarrow> Inl e
      | Inr _ \<Rightarrow>
          (case channel of
             None \<Rightarrow> Inl (ClientInvalidArgument ''gRPC channel must not be null'')
           | Some target \<Rightarrow> Inr \<lparr> gc_target = target, gc_options = options \<rparr>))"

definition new_GrpcClient :: "string \<Rightarrow> GrpcClientOptions \<Rightarrow> client_error + GrpcClient" where
  "new_GrpcClient target options =
     (case make_channel target of
        Inl e \<Rightarrow> Inl e
      | Inr channel \<Rightarrow> new_GrpcClient_channel (Some channel) options)"

text \<open>
  Every call runs the loop and throws when the last status is not OK; the response comes with the
  number of attempts.
\<close>

definition checked_call ::
    "string \<Rightarrow> GrpcClientOptions \<Rightarrow> (millis \<Rightarrow> 'w \<Rightarrow> (Status \<times> 'r) \<times> 'w) \<Rightarrow> 'w
     \<Rightarrow> (client_error + 'r \<times> u64) \<times> 'w" where
  "checked_call name options operation w =
     (case invoke_with_retry options operation w of
        (Inl e, _, w1) \<Rightarrow> (Inl e, w1)
      | (Inr (result, response), _, w1) \<Rightarrow>
          if \<not> status_ok (ir_status result)
          then (Inl (grpc_error name (ir_status result) (ir_attempts result)), w1)
          else (Inr (response, ir_attempts result), w1))"

definition GrpcClient_get :: "'w stubs \<Rightarrow> GrpcClient \<Rightarrow> bytes \<Rightarrow> 'w \<Rightarrow> (client_error + bytes option) \<times> 'w" where
  "GrpcClient_get S c key w =
     (case checked_call ''Get'' (gc_options c)
             (\<lambda>t. stub_Get S (gc_target c) t \<lparr> gq_key = key \<rparr>) w of
        (Inl e, w1) \<Rightarrow> (Inl e, w1)
      | (Inr (response, _), w1) \<Rightarrow>
          (Inr (if \<not> gr_found response then None else Some (gr_value response)), w1))"

definition GrpcClient_put :: "'w stubs \<Rightarrow> GrpcClient \<Rightarrow> bytes \<Rightarrow> bytes \<Rightarrow> 'w \<Rightarrow> (client_error + unit) \<times> 'w" where
  "GrpcClient_put S c key v w =
     (case checked_call ''Put'' (gc_options c)
             (\<lambda>t. stub_Put S (gc_target c) t \<lparr> pq_key = key, pq_value = v \<rparr>) w of
        (Inl e, w1) \<Rightarrow> (Inl e, w1)
      | (Inr _, w1) \<Rightarrow> (Inr (), w1))"

definition GrpcClient_erase :: "'w stubs \<Rightarrow> GrpcClient \<Rightarrow> bytes \<Rightarrow> 'w \<Rightarrow> (client_error + bool) \<times> 'w" where
  "GrpcClient_erase S c key w =
     (case checked_call ''Delete'' (gc_options c)
             (\<lambda>t. stub_Delete S (gc_target c) t \<lparr> dq_key = key \<rparr>) w of
        (Inl e, w1) \<Rightarrow> (Inl e, w1)
      | (Inr (response, _), w1) \<Rightarrow> (Inr (dr_deleted response), w1))"

definition GrpcClient_status :: "'w stubs \<Rightarrow> GrpcClient \<Rightarrow> 'w \<Rightarrow> (client_error + NodeSnapshot) \<times> 'w" where
  "GrpcClient_status S c w =
     (case checked_call ''GetStatus'' (gc_options c) (\<lambda>t. stub_GetStatus S (gc_target c) t ()) w of
        (Inl e, w1) \<Rightarrow> (Inl e, w1)
      | (Inr (response, attempts), w1) \<Rightarrow>
          (case status_from_wire response of
             None \<Rightarrow>
               (Inl (grpc_error ''GetStatus''
                  (Status DATA_LOSS ''server returned an unknown Raft role'') attempts), w1)
           | Some s \<Rightarrow> (Inr s, w1)))"

definition GrpcClient_request_vote ::
    "'w stubs \<Rightarrow> GrpcClient \<Rightarrow> NodeId \<Rightarrow> RequestVoteRequest \<Rightarrow> 'w
     \<Rightarrow> (client_error + RequestVoteResponse) \<times> 'w" where
  "GrpcClient_request_vote S c sender request w =
     (if rvq_candidate_id request \<noteq> sender
      then (Inl (ClientInvalidArgument ''RequestVote sender must match candidate ID''), w)
      else
        (case checked_call ''RequestVote'' (gc_options c)
                (\<lambda>t. stub_RequestVote S (gc_target c) t (vote_request_to_wire request)) w of
           (Inl e, w1) \<Rightarrow> (Inl e, w1)
         | (Inr (response, _), w1) \<Rightarrow> (Inr (vote_response_from_wire response), w1)))"

definition GrpcClient_append_entries ::
    "'w stubs \<Rightarrow> GrpcClient \<Rightarrow> NodeId \<Rightarrow> AppendEntriesRequest \<Rightarrow> 'w
     \<Rightarrow> (client_error + AppendEntriesResponse) \<times> 'w" where
  "GrpcClient_append_entries S c sender request w =
     (if aeq_leader_id request \<noteq> sender
      then (Inl (ClientInvalidArgument ''AppendEntries sender must match leader ID''), w)
      else
        (case checked_call ''AppendEntries'' (gc_options c)
                (\<lambda>t. stub_AppendEntries S (gc_target c) t (append_request_to_wire request)) w of
           (Inl e, w1) \<Rightarrow> (Inl e, w1)
         | (Inr (response, _), w1) \<Rightarrow> (Inr (append_response_from_wire response), w1)))"

section \<open>What the loop guarantees\<close>

text \<open>
  The pauses of a run that starts with the pause \<open>b\<close>: each is twice the one before, up to the maximum.
\<close>

definition backoffs :: "millis \<Rightarrow> millis \<Rightarrow> nat \<Rightarrow> millis list" where
  "backoffs maximum b n = map (\<lambda>k. min maximum (b * 2 ^ k)) [0..<n]"

lemma backoffs_Suc:
  assumes "0 \<le> b" "b \<le> maximum"
  shows "backoffs maximum b (Suc n) = b # backoffs maximum (min maximum (b * 2)) n"
proof -
  have "min maximum (b * 2 ^ Suc k) = min maximum (min maximum (b * 2) * 2 ^ k)" for k
  proof (cases "b * 2 \<le> maximum")
    case False
    have "maximum \<le> maximum * 2 ^ k" using assms by (simp add: mult_le_cancel_left1)
    moreover have "b * 2 \<le> b * 2 * 2 ^ k" using assms by (simp add: mult_le_cancel_left1)
    ultimately show ?thesis using False by (simp add: min_def mult.assoc)
  qed (simp add: min_absorb2 mult.assoc)
  then show ?thesis
    using assms by (simp add: backoffs_def upt_conv_Cons map_Suc_upt [symmetric] min_absorb2 del: upt_Suc)
qed

definition final_attempt :: "GrpcClientOptions \<Rightarrow> InvocationResult \<Rightarrow> bool" where
  "final_attempt options result \<longleftrightarrow>
     status_ok (ir_status result) \<or> \<not> is_retryable (error_code (ir_status result)) \<or>
     ir_attempts result = opt_max_attempts options"

lemma retry_loop_spec:
  assumes "attempt \<le> opt_max_attempts options" "0 \<le> b" "b \<le> opt_maximum_backoff options"
  shows "\<exists>result response sleeps w'.
    retry_loop options operation attempt b w = (Inr (result, response), sleeps, w') \<and>
    final_attempt options result \<and> attempt \<le> ir_attempts result \<and>
    ir_attempts result \<le> opt_max_attempts options \<and>
    sleeps = backoffs (opt_maximum_backoff options) b (unat (ir_attempts result) - unat attempt)"
  using assms
proof (induction options operation attempt b w rule: retry_loop.induct)
  case (1 options operation attempt b w)
  obtain status response w1 where op: "operation (opt_timeout options) w = ((status, response), w1)"
    by (metis prod.exhaust_sel)
  show ?case
  proof (cases "status_ok status \<or> \<not> is_retryable (error_code status) \<or> attempt = opt_max_attempts options")
    case True
    then show ?thesis
      using 1(2) op by (subst retry_loop.simps) (auto simp: final_attempt_def backoffs_def)
  next
    case False
    let ?b = "min (opt_maximum_backoff options) (b * 2)"
    have next_le: "attempt + 1 \<le> opt_max_attempts options" and next_nat: "unat (attempt + 1) = Suc (unat attempt)"
      using attempt_less [OF 1(2)] False by (auto simp: word_le_nat_alt)
    obtain result resp sleeps w2 where IH:
      "retry_loop options operation (attempt + 1) ?b w1 = (Inr (result, resp), sleeps, w2)"
      "final_attempt options result" "attempt + 1 \<le> ir_attempts result"
      "ir_attempts result \<le> opt_max_attempts options"
      "sleeps = backoffs (opt_maximum_backoff options) ?b (unat (ir_attempts result) - unat (attempt + 1))"
      using 1(1) [OF 1(2) op [symmetric] refl _ next_le] 1(3,4) False by auto
    have "unat (ir_attempts result) - unat attempt = Suc (unat (ir_attempts result) - unat (attempt + 1))"
      using IH(3) next_nat by (simp add: word_le_nat_alt)
    moreover have "attempt \<le> ir_attempts result" using IH(3) next_nat by (simp add: word_le_nat_alt)
    ultimately show ?thesis
      using IH 1(2-4) op False backoffs_Suc [of b "opt_maximum_backoff options"]
      by (subst retry_loop.simps) simp
  qed
qed

text \<open>
  An invariant of the single attempts holds at the end, with what a successful attempt establishes.
\<close>

lemma retry_loop_invariant:
  assumes "\<And>u st r u'. I u \<Longrightarrow> operation (opt_timeout options) u = ((st, r), u') \<Longrightarrow>
      I u' \<and> (status_ok st \<longrightarrow> Q r u')"
    and "I w" "retry_loop options operation attempt b w = (Inr (result, response), sleeps, w')"
  shows "I w' \<and> (status_ok (ir_status result) \<longrightarrow> Q response w')"
  using assms
proof (induction options operation attempt b w arbitrary: sleeps rule: retry_loop.induct)
  case (1 options operation attempt b w)
  obtain status r w1 where op: "operation (opt_timeout options) w = ((status, r), w1)"
    by (metis prod.exhaust_sel)
  have le: "attempt \<le> opt_max_attempts options"
    using 1(4) by (subst (asm) retry_loop.simps) (auto split: if_splits)
  show ?case
  proof (cases "status_ok status \<or> \<not> is_retryable (error_code status) \<or> attempt = opt_max_attempts options")
    case True
    then show ?thesis
      using 1(4) 1(2) [OF 1(3) op] op le by (subst (asm) retry_loop.simps) auto
  next
    case False
    obtain res sl u where rec: "retry_loop options operation (attempt + 1)
        (min (opt_maximum_backoff options) (b * 2)) w1 = (res, sl, u)"
      by (metis prod.exhaust_sel)
    have eq: "res = Inr (result, response)" "u = w'"
      using 1(4) rec op le False by (subst (asm) retry_loop.simps; simp)+
    show ?thesis
    proof (rule 1(1) [OF le op [symmetric] refl False])
      show "I w1" using 1(2) [OF 1(3) op] by blast
      show "retry_loop options operation (attempt + 1) (min (opt_maximum_backoff options) (b * 2)) w1 =
          (Inr (result, response), sl, w')"
        using rec eq by simp
    qed (rule 1(2))
  qed
qed

lemma checked_call_spec:
  assumes "validate_options options = Inr ()"
  shows "\<exists>result response w'. fst (invoke_with_retry options operation w) = Inr (result, response) \<and>
    snd (snd (invoke_with_retry options operation w)) = w' \<and>
    checked_call name options operation w =
      (if status_ok (ir_status result) then Inr (response, ir_attempts result)
       else Inl (grpc_error name (ir_status result) (ir_attempts result)), w')"
proof -
  have "1 \<le> opt_max_attempts options" "0 \<le> opt_initial_backoff options"
    "opt_initial_backoff options \<le> opt_maximum_backoff options"
    using assms by (auto simp: validate_options_def word_le_nat_alt unat_gt_0 Suc_le_eq split: if_splits)
  from retry_loop_spec [OF this, of operation w] show ?thesis
    by (auto simp: checked_call_def invoke_with_retry_def)
qed

text \<open>The same for a whole call.\<close>

lemma checked_call_invariant:
  assumes "\<And>u st r u'. I u \<Longrightarrow> operation (opt_timeout options) u = ((st, r), u') \<Longrightarrow>
      I u' \<and> (status_ok st \<longrightarrow> Q r u')"
    and "I w" "validate_options options = Inr ()" "checked_call name options operation w = (res, w')"
  shows "I w' \<and> (\<forall>r k. res = Inr (r, k) \<longrightarrow> Q r w')"
proof -
  obtain result response sleeps w2 where r:
    "invoke_with_retry options operation w = (Inr (result, response), sleeps, w2)"
    using checked_call_spec [OF assms(3), of operation w name] by (metis prod.exhaust_sel)
  have "I w2 \<and> (status_ok (ir_status result) \<longrightarrow> Q response w2)"
    using retry_loop_invariant [of I operation options Q w, OF assms(1,2)] r
    by (simp add: invoke_with_retry_def)
  then show ?thesis using assms(4) r by (auto simp: checked_call_def split: if_splits)
qed

end
