(* ===== verification/GrpcServer.thy ===== *)
theory GrpcServer
  imports GrpcTypes Decimal RaftNode KeyValueStore
begin

text \<open>
  The gRPC server of \<open>src/grpc/grpc_server.cpp\<close>: the translation of exceptions to statuses, the
  handlers of the two services and the life cycle of the server object.
\<close>

section \<open>Running a handler\<close>

text \<open>The two answers of \<open>ServerContext::IsCancelled\<close>, before and after the operation.\<close>

record ServerContext =
  cancelled_before :: bool
  cancelled_after :: bool

text \<open>
  The catch clauses. The text of \<open>std::out_of_range\<close> is the one of the standard library. After
  undefined behaviour there is no status.
\<close>

fun exception_status :: "error \<Rightarrow> Status option" where
  "exception_status (InvalidArgument m) = Some (Status INVALID_ARGUMENT m)"
| "exception_status (RaftError m) = Some (Status FAILED_PRECONDITION m)"
| "exception_status (StorageError m) = Some (Status INTERNAL m)"
| "exception_status (LogicError m) = Some (Status INTERNAL m)"
| "exception_status (RuntimeError m) = Some (Status INTERNAL m)"
| "exception_status OutOfRange = Some (Status INTERNAL ''unordered_map::at'')"
| "exception_status UndefinedBehaviour = None"

text \<open>
  The operation computes the response from the object it works on. Every handler sets the fields of
  the response after the last call that may throw, so a response whose operation threw is as it was
  received.
\<close>

definition run_handler ::
    "ServerContext \<Rightarrow> 'r \<Rightarrow> ('s \<Rightarrow> ('r, 's) outcome) \<Rightarrow> 's \<Rightarrow> (Status \<times> 'r, 's) outcome" where
  "run_handler ctx response operation s =
     (if cancelled_before ctx then Ret (Status CANCELLED ''request was cancelled'', response) s
      else
        (case operation s of
           Ret r s1 \<Rightarrow>
             if cancelled_after ctx then Ret (Status CANCELLED ''request deadline elapsed'', r) s1
             else Ret (Status OK [], r) s1
         | Exc e s1 \<Rightarrow>
             (case exception_status e of
                None \<Rightarrow> Exc e s1
              | Some status \<Rightarrow> Ret (status, response) s1)))"

section \<open>The key-value service\<close>

text \<open>The virtual functions of the store behind the service.\<close>

record 's KeyValueStoreOps =
  op_put :: "'s \<Rightarrow> bytes \<Rightarrow> bytes \<Rightarrow> (unit, 's) outcome"
  op_get :: "'s \<Rightarrow> bytes \<Rightarrow> bytes option"
  op_erase :: "'s \<Rightarrow> bytes \<Rightarrow> (bool, 's) outcome"

definition KeyValueService_Get ::
    "'s KeyValueStoreOps \<Rightarrow> ServerContext \<Rightarrow> v1_GetRequest \<Rightarrow> 's \<Rightarrow> (Status \<times> v1_GetResponse, 's) outcome" where
  "KeyValueService_Get ops ctx request s =
     run_handler ctx clear_GetResponse
       (\<lambda>s. let value = op_get ops s (gq_key request);
                r1 = clear_GetResponse\<lparr>gr_found := (value \<noteq> None)\<rparr>
            in Ret (case value of None \<Rightarrow> r1 | Some v \<Rightarrow> r1\<lparr>gr_value := v\<rparr>) s) s"

definition KeyValueService_Put ::
    "'s KeyValueStoreOps \<Rightarrow> ServerContext \<Rightarrow> v1_PutRequest \<Rightarrow> 's \<Rightarrow> (Status \<times> unit, 's) outcome" where
  "KeyValueService_Put ops ctx request s =
     run_handler ctx () (\<lambda>s. op_put ops s (pq_key request) (pq_value request)) s"

definition KeyValueService_Delete ::
    "'s KeyValueStoreOps \<Rightarrow> ServerContext \<Rightarrow> v1_DeleteRequest \<Rightarrow> 's
     \<Rightarrow> (Status \<times> v1_DeleteResponse, 's) outcome" where
  "KeyValueService_Delete ops ctx request s =
     run_handler ctx clear_DeleteResponse
       (\<lambda>s. and_then (op_erase ops s (dq_key request))
              (\<lambda>b s1. Ret (clear_DeleteResponse\<lparr>dr_deleted := b\<rparr>) s1)) s"

section \<open>The Raft service\<close>

definition RaftService_RequestVote ::
    "('st, 'g) RaftEnv \<Rightarrow> ServerContext \<Rightarrow> v1_RequestVoteRequest \<Rightarrow> ('st, 'g) RaftNode
     \<Rightarrow> (Status \<times> v1_RequestVoteResponse, ('st, 'g) RaftNode) outcome" where
  "RaftService_RequestVote E ctx request n =
     run_handler ctx clear_RequestVoteResponse
       (\<lambda>n. and_then
          (handle_request E n (Message (wvq_candidate_id request) (RaftNode_id n)
             (RpcRequestVoteRequest (vote_request_from_wire request))))
          (\<lambda>message n1.
            case message of
              None \<Rightarrow> Exc (InvalidArgument ''RequestVote sender is not a cluster member'') n1
            | Some m \<Rightarrow>
                (case msg_rpc m of
                   RpcRequestVoteResponse r \<Rightarrow> Ret (vote_response_to_wire r) n1
                 | _ \<Rightarrow> Exc (LogicError ''Raft node did not produce a RequestVote response'') n1))) n"

definition RaftService_AppendEntries ::
    "('st, 'g) RaftEnv \<Rightarrow> ServerContext \<Rightarrow> v1_AppendEntriesRequest \<Rightarrow> ('st, 'g) RaftNode
     \<Rightarrow> (Status \<times> v1_AppendEntriesResponse, ('st, 'g) RaftNode) outcome" where
  "RaftService_AppendEntries E ctx request n =
     run_handler ctx clear_AppendEntriesResponse
       (\<lambda>n. and_then
          (handle_request E n (Message (waq_leader_id request) (RaftNode_id n)
             (RpcAppendEntriesRequest (append_request_from_wire request))))
          (\<lambda>message n1.
            case message of
              None \<Rightarrow> Exc (InvalidArgument ''AppendEntries sender is not a cluster member'') n1
            | Some m \<Rightarrow>
                (case msg_rpc m of
                   RpcAppendEntriesResponse r \<Rightarrow> Ret (append_response_to_wire r) n1
                 | _ \<Rightarrow> Exc (LogicError ''Raft node did not produce an AppendEntries response'') n1))) n"

definition RaftService_GetStatus ::
    "ServerContext \<Rightarrow> unit \<Rightarrow> ('st, 'g) RaftNode
     \<Rightarrow> (Status \<times> v1_NodeStatusResponse, ('st, 'g) RaftNode) outcome" where
  "RaftService_GetStatus ctx request n =
     run_handler ctx clear_NodeStatusResponse (\<lambda>n. Ret (status_to_wire (snapshot n)) n) n"

section \<open>The server object\<close>

record GrpcServer =
  gs_listen_address :: string
  gs_server :: bool
  gs_bound_port :: int

text \<open>The services refuse null pointers and keep the object they are given; the address is checked after them.\<close>

definition new_KeyValueService :: "'s option \<Rightarrow> error + 's" where
  "new_KeyValueService store =
     (case store of
        None \<Rightarrow> Inl (InvalidArgument ''key-value store must not be null'')
      | Some kv \<Rightarrow> Inr kv)"

definition new_RaftService :: "'n option \<Rightarrow> error + 'n" where
  "new_RaftService raft_node =
     (case raft_node of
        None \<Rightarrow> Inl (InvalidArgument ''Raft node must not be null'')
      | Some node \<Rightarrow> Inr node)"

definition new_GrpcServer :: "string \<Rightarrow> 's option \<Rightarrow> 'n option \<Rightarrow> error + GrpcServer" where
  "new_GrpcServer listen_address store raft_node =
     bind_sum (new_KeyValueService store) (\<lambda>_.
     bind_sum (new_RaftService raft_node) (\<lambda>_.
       if listen_address = [] then
         Inl (InvalidArgument ''gRPC listen address must not be empty'')
       else Inr \<lparr> gs_listen_address = listen_address, gs_server = False, gs_bound_port = 0 \<rparr>))"

lemma new_GrpcServer_simps [simp]:
  "new_GrpcServer a None n = Inl (InvalidArgument ''key-value store must not be null'')"
  "new_GrpcServer a (Some s) None = Inl (InvalidArgument ''Raft node must not be null'')"
  "new_GrpcServer a (Some s) (Some m) =
     (if a = [] then Inl (InvalidArgument ''gRPC listen address must not be empty'')
      else Inr \<lparr> gs_listen_address = a, gs_server = False, gs_bound_port = 0 \<rparr>)"
  by (simp_all add: new_GrpcServer_def new_KeyValueService_def new_RaftService_def)

text \<open>
  \<open>BuildAndStart\<close> is a parameter: from the address to the port that was bound, or nothing when no
  server could be started.
\<close>

definition GrpcServer_start ::
    "(string \<Rightarrow> int option) \<Rightarrow> GrpcServer \<Rightarrow> (unit, GrpcServer) outcome" where
  "GrpcServer_start build srv =
     (if gs_server srv then Exc (LogicError ''gRPC server is already running'') srv
      else
        (case build (gs_listen_address srv) of
           None \<Rightarrow>
             Exc (RuntimeError (''failed to start gRPC server on '' @ gs_listen_address srv))
               (srv\<lparr>gs_bound_port := 0\<rparr>)
         | Some port \<Rightarrow> Ret () (srv\<lparr>gs_server := True, gs_bound_port := port\<rparr>)))"

definition GrpcServer_shutdown :: "GrpcServer \<Rightarrow> GrpcServer" where
  "GrpcServer_shutdown srv = srv\<lparr>gs_server := False\<rparr>"

definition GrpcServer_destructor :: "GrpcServer \<Rightarrow> GrpcServer" where
  "GrpcServer_destructor srv = GrpcServer_shutdown srv"

definition GrpcServer_bound_port :: "GrpcServer \<Rightarrow> int" where
  "GrpcServer_bound_port srv = gs_bound_port srv"

text \<open>\<open>rfind\<close>: the part up to and including the last colon, when there is one.\<close>

definition up_to_last_colon :: "string \<Rightarrow> string option" where
  "up_to_last_colon s =
     (let t = dropWhile (\<lambda>c. c \<noteq> CHR '':'') (rev s) in if t = [] then None else Some (rev t))"

definition GrpcServer_endpoint :: "GrpcServer \<Rightarrow> error + string" where
  "GrpcServer_endpoint srv =
     (if gs_bound_port srv = 0 then Inl (LogicError ''gRPC server has not been started'')
      else
        (case up_to_last_colon (gs_listen_address srv) of
           None \<Rightarrow> Inr (gs_listen_address srv)
         | Some host \<Rightarrow> Inr (host @ int_text (gs_bound_port srv))))"

end
