(* ===== verification/NodeStorage.thy ===== *)
theory NodeStorage
  imports RaftNodeFacts
begin

text \<open>
  A node touches its storage object only through saves: an invariant of the object that saves keep
  holds after every operation, whether it returns or throws.
\<close>

definition stores :: "('st \<Rightarrow> bool) \<Rightarrow> ('a, ('st, 'g) RaftNode) outcome \<Rightarrow> bool" where
  "stores I r \<longleftrightarrow> post (\<lambda>_ n. I (storage n)) (\<lambda>_ n. I (storage n)) r"

lemma stores_simps [simp]:
  "stores I (Ret a n) \<longleftrightarrow> I (storage n)" "stores I (Exc e n) \<longleftrightarrow> I (storage n)"
  by (simp_all add: stores_def)

lemma stores_and_then:
  "stores I r \<Longrightarrow> (\<And>a n. I (storage n) \<Longrightarrow> stores I (f a n)) \<Longrightarrow> stores I (and_then r f)"
  by (cases r) auto

lemma stores_state: "stores I r \<longleftrightarrow> I (storage (outcome_state r))"
  by (cases r) auto

section \<open>Operations that do not save\<close>

lemma storage_reset [simp]: "storage (reset_election_timeout_locked E n) = storage n"
  by (simp add: reset_election_timeout_locked_def split: prod.splits)

lemma storage_send [simp]:
  "storage (send_locked n p r) = storage n" "storage (send_to_all ps r n) = storage n"
  "storage (reject_append n f q i t) = storage n" "storage (init_peer_progress ps x n) = storage n"
  by (simp_all add: send_locked_def send_to_all_spec reject_append_def init_peer_progress_spec)

lemma apply_stores: "I (storage n) \<Longrightarrow> stores I (apply_committed_entries_locked n)"
proof (induction n rule: apply_committed_entries_locked.induct)
  case (1 n)
  then show ?case
    by (subst apply_committed_entries_locked.simps) (auto simp: Let_def split: option.splits)
qed

lemma advance_loop_stores: "I (storage n) \<Longrightarrow> stores I (advance_commit_loop n c)"
proof (induction n c rule: advance_commit_loop.induct)
  case (1 n c)
  then show ?case
    by (subst advance_commit_loop.simps)
      (auto simp: Let_def split: option.splits prod.splits intro!: stores_and_then apply_stores)
qed

lemma send_append_stores: "I (storage n) \<Longrightarrow> stores I (send_append_entries_locked n p)"
  by (auto simp: send_append_entries_locked_def Let_def split: option.splits prod.splits)

lemma send_append_to_stores: "I (storage n) \<Longrightarrow> stores I (send_append_entries_to ps n)"
  by (induction ps arbitrary: n) (auto intro!: stores_and_then send_append_stores)

lemmas quiet_stores = apply_stores advance_loop_stores send_append_stores send_append_to_stores

section \<open>Operations that save\<close>

locale storage_invariant =
  fixes E :: "('st, 'g) RaftEnv" and I :: "'st \<Rightarrow> bool"
  assumes save_keeps: "I st \<Longrightarrow> I (snd (storage_save E ps st))"
begin

lemma persist_stores: "I (storage n) \<Longrightarrow> stores I (persist_locked E n)"
  using save_keeps [of "storage n" "persistent_part n"]
  by (auto simp: persist_locked_def split: prod.splits sum.splits)

lemma become_follower_stores: "I (storage n) \<Longrightarrow> stores I (become_follower_locked E n t l)"
  by (auto simp: become_follower_locked_def Let_def intro!: persist_stores)

lemma become_leader_stores: "I (storage n) \<Longrightarrow> stores I (become_leader_locked E n)"
  by (auto simp: become_leader_locked_def Let_def advance_commit_index_locked_def
      broadcast_append_entries_locked_def intro!: stores_and_then persist_stores quiet_stores)

lemma start_election_stores: "I (storage n) \<Longrightarrow> stores I (start_election_locked E n)"
  by (auto simp: start_election_locked_def Let_def intro!: stores_and_then persist_stores become_leader_stores)

lemma request_vote_stores: "I (storage n) \<Longrightarrow> stores I (handle_request_vote_locked E n f q)"
  by (auto simp: handle_request_vote_locked_def Let_def intro!: stores_and_then persist_stores)

lemma append_and_commit_stores: "I (storage n) \<Longrightarrow> stores I (append_and_commit E n f q)"
  by (auto simp: append_and_commit_def Let_def split: scan_result.splits
      intro!: stores_and_then persist_stores quiet_stores)

lemma append_entries_stores: "I (storage n) \<Longrightarrow> stores I (handle_append_entries_locked E n f q)"
  by (auto simp: handle_append_entries_locked_def split: option.splits
      intro!: stores_and_then become_follower_stores append_and_commit_stores)

lemma append_response_stores: "I (storage n) \<Longrightarrow> stores I (handle_append_entries_response_locked n f r)"
  by (auto simp: handle_append_entries_response_locked_def handle_append_success_def handle_append_failure_def
      advance_commit_index_locked_def broadcast_append_entries_locked_def Let_def
      split: option.splits prod.splits sum.splits intro!: stores_and_then quiet_stores)

lemma dispatch_stores: "I (storage n) \<Longrightarrow> stores I (dispatch_rpc E n f r)"
  by (cases r) (auto simp: handle_request_vote_response_locked_def Let_def
      intro!: request_vote_stores append_entries_stores append_response_stores become_leader_stores)

lemma step_stores: "I (storage n) \<Longrightarrow> stores I (step_locked E n m)"
  by (auto simp: step_locked_def intro!: stores_and_then become_follower_stores dispatch_stores)

text \<open>The public operations.\<close>

lemma operations_store:
  assumes "I (storage n)"
  shows "stores I (tick E n elapsed)" "stores I (step E n m)" "stores I (handle_request E n m)"
    "stores I (propose E n command)"
  using assms
  by (auto simp: tick_def step_def handle_request_def propose_def Let_def advance_commit_index_locked_def
      broadcast_append_entries_locked_def split: option.splits prod.splits
      intro!: stores_and_then step_stores start_election_stores persist_stores quiet_stores)

end

end
