(* ===== verification/RaftFile.thy ===== *)
theory RaftFile
  imports DurableRaftStorage RaftSafety NodeStorage
begin

text \<open>
  The storage object of a running node: \<open>DurableRaftStorage\<close> of \<open>src/node/node_runtime.cpp\<close> with the path
  of its file. The type carries the class invariant, so the contract of a storage holds of every
  object. The end of the process in the middle of a save is a save that throws: the object that is
  opened next holds the state from before or the new one.
\<close>

section \<open>The class\<close>

definition RaftFile_inv :: "path \<times> DurableRaftStorage \<Rightarrow> bool" where
  "RaftFile_inv f \<longleftrightarrow> durable (FilePersistence_load no_load_faults (fst f)) (snd f)"

typedef RaftFile = "{f. RaftFile_inv f}"
proof
  show "([], \<lparr> kv_persistence = \<lparr> files = Map.empty, journal = [], faults = [] \<rparr>, kv_entries = [] \<rparr>) \<in> {f. RaftFile_inv f}"
    by (simp add: RaftFile_inv_def durable_def map_ok_def FilePersistence_load_def no_load_faults_def)
qed

setup_lifting type_definition_RaftFile

lift_definition RaftFile_path :: "RaftFile \<Rightarrow> path" is fst .

lift_definition RaftFile_disk :: "RaftFile \<Rightarrow> disk" is "\<lambda>f. kv_persistence (snd f)" .

lift_definition RaftFile_load :: "RaftFile \<Rightarrow> error + PersistentState"
  is "\<lambda>f. DurableRaftStorage_load (snd f)" .

lemma save_keeps_durable:
  assumes "durable (FilePersistence_load no_load_faults p) st"
  shows "durable (FilePersistence_load no_load_faults p) (snd (DurableRaftStorage_save rank p ps st))"
proof (cases "encode_state ps")
  case (Inr bs)
  have "post (\<lambda>_ st'. durable (FilePersistence_load no_load_faults p) st')
      (\<lambda>_ st'. durable (FilePersistence_load no_load_faults p) st')
      (KvStore_put (FilePersistence_save rank p) st kRaftStateKey bs)"
    by (rule post_mono [OF snapshot_file.kv.put_law [OF assms]]) auto
  then show ?thesis using Inr by (auto simp: DurableRaftStorage_save_def split: outcome.splits)
qed (use assms in \<open>simp add: DurableRaftStorage_save_def\<close>)

lift_definition RaftFile_save :: "hash_order \<Rightarrow> PersistentState \<Rightarrow> RaftFile \<Rightarrow> (error + unit) \<times> RaftFile"
  is "\<lambda>rank ps f. map_prod id (Pair (fst f)) (DurableRaftStorage_save rank (fst f) ps (snd f))"
  by (simp add: RaftFile_inv_def save_keeps_durable pred_prod_beta)

text \<open>A load that succeeds reads the file, whatever could have failed.\<close>

lemma load_any_faults:
  "FilePersistence_load lf p d = Inr es \<Longrightarrow> FilePersistence_load no_load_faults p d = Inr es"
  by (auto simp: FilePersistence_load_def no_load_faults_def split: if_splits option.splits)

lemma new_storage_Inr:
  "new_DurableRaftStorage lf p d = Inr st \<longleftrightarrow>
     p \<noteq> [] \<and> kv_persistence st = d \<and> FilePersistence_load lf p d = Inr (kv_entries st)"
  by (auto simp: new_DurableRaftStorage_def new_FilePersistence_def new_KvStore_def split: sum.splits)

lemma new_storage_inv: "new_DurableRaftStorage lf p d = Inr st \<Longrightarrow> RaftFile_inv (p, st)"
  using load_any_faults [of lf p d] load_map_ok [of lf p d]
  by (auto simp: RaftFile_inv_def durable_def new_storage_Inr)

lift_definition RaftFile_open :: "load_faults \<Rightarrow> path \<Rightarrow> disk \<Rightarrow> error + RaftFile"
  is "\<lambda>lf p d. map_sum id (Pair p) (new_DurableRaftStorage lf p d)"
  subgoal for lf p d
    by (cases "new_DurableRaftStorage lf p d") (auto dest: new_storage_inv)
  done

section \<open>The contract\<close>

interpretation raft_file: atomic_raft_storage RaftFile_load "RaftFile_save rank" for rank
proof
  show "RaftFile_save rank ps f = (Inr u, f') \<Longrightarrow> RaftFile_load f' = Inr ps" for ps f u f'
    by transfer (auto simp: map_prod_def durable_raft.saved split: prod.splits)
  show "RaftFile_save rank ps f = (Inl e, f') \<Longrightarrow> RaftFile_load f' = RaftFile_load f" for ps f e f'
    by transfer (auto simp: map_prod_def durable_raft.failed_save_keeps split: prod.splits)
qed

text \<open>Opening the file again, on whatever happens to be the rest of the disk, gives the same state.\<close>

lemma reopen_storage:
  assumes "new_DurableRaftStorage lf p d = Inr st'" "RaftFile_inv (p, st)"
    and "files d p = files (kv_persistence st) p"
  shows "DurableRaftStorage_load st' = DurableRaftStorage_load st"
proof -
  have "FilePersistence_load no_load_faults p d = Inr (kv_entries st')"
    using assms(1) by (auto simp: new_storage_Inr dest: load_any_faults)
  moreover have "FilePersistence_load no_load_faults p d = FilePersistence_load no_load_faults p (kv_persistence st)"
    using assms(3) by (simp add: load_file)
  ultimately have "find_entry (kv_entries st') = find_entry (kv_entries st)"
    using assms(2) by (auto simp: RaftFile_inv_def durable_def)
  then show ?thesis by (simp add: DurableRaftStorage_load_def KvStore_get_def)
qed

lemma map_sum_Inr: "map_sum f g x = Inr y \<longleftrightarrow> (\<exists>z. x = Inr z \<and> y = g z)"
  by (cases x) auto

lemma reopened_load:
  assumes "RaftFile_open lf (RaftFile_path f) d = Inr f'"
    and "files d (RaftFile_path f) = files (RaftFile_disk f) (RaftFile_path f)"
  shows "RaftFile_load f' = RaftFile_load f"
  using assms
proof transfer
  fix f f' :: "path \<times> DurableRaftStorage" and lf d
  assume "RaftFile_inv f" "map_sum id (Pair (fst f)) (new_DurableRaftStorage lf (fst f) d) = Inr f'"
    "files d (fst f) = files (kv_persistence (snd f)) (fst f)"
  then show "DurableRaftStorage_load (snd f') = DurableRaftStorage_load (snd f)"
    using reopen_storage [of lf "fst f" d "snd f'" "snd f"] by (auto simp: map_sum_Inr)
qed

section \<open>The end of the process during a save\<close>

text \<open>The contents of the file system at the moments of a save.\<close>

lift_definition RaftFile_moments :: "hash_order \<Rightarrow> PersistentState \<Rightarrow> RaftFile \<Rightarrow> (path \<rightharpoonup> bytes) list"
  is "\<lambda>rank ps f. drop (length (journal (kv_persistence (snd f))))
        (journal (kv_persistence (snd (DurableRaftStorage_save rank (fst f) ps (snd f)))))" .

lemma moment_file:
  assumes "RaftFile_inv (p, st)"
    and "fs \<in> set (drop (length (journal (kv_persistence st)))
      (journal (kv_persistence (snd (DurableRaftStorage_save rank p ps st)))))"
  shows "fs p = files (kv_persistence st) p \<or>
    (\<exists>bs es. encode_state ps = Inr bs \<and> es = insert_or_assign kRaftStateKey bs (kv_entries st) \<and> fits_format es \<and>
       fs p = Some (encode_snapshot (iterate rank es)))"
proof (cases "encode_state ps")
  case (Inr bs)
  let ?es = "insert_or_assign kRaftStateKey bs (kv_entries st)"
  have "kv_persistence (snd (DurableRaftStorage_save rank p ps st)) =
      outcome_state (FilePersistence_save rank p ?es (kv_persistence st))"
    using Inr by (auto simp: DurableRaftStorage_save_def KvStore_put_def save_and_swap_def split: outcome.splits)
  then show ?thesis
    using assms(2) Inr save_spec [of p rank ?es "kv_persistence st"]
    by (cases "FilePersistence_save rank p ?es (kv_persistence st)") (auto simp: replaced_def kept_def)
qed (use assms in \<open>simp add: DurableRaftStorage_save_def\<close>)

lemma moment_load:
  assumes inv: "RaftFile_inv (p, st)"
    and fs: "fs \<in> set (drop (length (journal (kv_persistence st)))
      (journal (kv_persistence (snd (DurableRaftStorage_save rank p ps st)))))"
    and new: "new_DurableRaftStorage lf p d = Inr st'" "files d p = fs p"
  shows "DurableRaftStorage_load st' = DurableRaftStorage_load st \<or> DurableRaftStorage_load st' = Inr ps"
  using moment_file [OF inv fs]
proof
  assume "fs p = files (kv_persistence st) p"
  then show ?thesis using reopen_storage [OF new(1) inv] new(2) by simp
next
  assume "\<exists>bs es. encode_state ps = Inr bs \<and> es = insert_or_assign kRaftStateKey bs (kv_entries st) \<and>
    fits_format es \<and> fs p = Some (encode_snapshot (iterate rank es))"
  then obtain bs es where bs: "encode_state ps = Inr bs" "es = insert_or_assign kRaftStateKey bs (kv_entries st)"
    "fits_format es" "fs p = Some (encode_snapshot (iterate rank es))"
    by blast
  have ok: "map_ok es" using inv bs(2) by (simp add: RaftFile_inv_def durable_def)
  have "FilePersistence_load no_load_faults p d = Inr (kv_entries st')"
    using new(1) by (auto simp: new_storage_Inr dest: load_any_faults)
  then have "kv_entries st' = iterate rank es"
    using bs(3,4) new(2) ok by (simp add: load_file parse_encode)
  then have "KvStore_get st' kRaftStateKey = Some bs" using ok bs(2) by (simp add: KvStore_get_def)
  then show ?thesis
    using encode_state_Inr [OF bs(1)] decode_state_bytes [of ps] by (auto simp: DurableRaftStorage_load_def)
qed

text \<open>\<open>dies rank ps f f'\<close>: the process ends during the save of \<open>ps\<close>, and \<open>f'\<close> is what is opened afterwards.\<close>

definition dies :: "hash_order \<Rightarrow> PersistentState \<Rightarrow> RaftFile \<Rightarrow> RaftFile \<Rightarrow> bool" where
  "dies rank ps f f' \<longleftrightarrow>
     (\<exists>fs \<in> set (RaftFile_moments rank ps f). \<exists>lf d.
        files d (RaftFile_path f) = fs (RaftFile_path f) \<and> RaftFile_open lf (RaftFile_path f) d = Inr f')"

lemma dies_load: "dies rank ps f f' \<Longrightarrow> RaftFile_load f' = RaftFile_load f \<or> RaftFile_load f' = Inr ps"
  unfolding dies_def
proof (elim bexE exE conjE, transfer)
  fix rank ps lf d fs and f f' :: "path \<times> DurableRaftStorage"
  assume "RaftFile_inv f" "files d (fst f) = fs (fst f)"
    "fs \<in> set (drop (length (journal (kv_persistence (snd f))))
       (journal (kv_persistence (snd (DurableRaftStorage_save rank (fst f) ps (snd f))))))"
    "map_sum id (Pair (fst f)) (new_DurableRaftStorage lf (fst f) d) = Inr f'"
  then show "DurableRaftStorage_load (snd f') = DurableRaftStorage_load (snd f) \<or>
      DurableRaftStorage_load (snd f') = Inr ps"
    using moment_load [of "fst f" "snd f" fs rank ps lf d "snd f'"] by (auto simp: map_sum_Inr)
qed

text \<open>Saves of which any may be the last thing the process does.\<close>

definition mortal :: "hash_order \<Rightarrow> (PersistentState \<Rightarrow> RaftFile \<Rightarrow> (error + unit) \<times> RaftFile) \<Rightarrow> bool" where
  "mortal rank save \<longleftrightarrow>
     (\<forall>ps f. save ps f = RaftFile_save rank ps f \<or> (\<exists>e f'. save ps f = (Inl e, f') \<and> dies rank ps f f'))"

lemma mortal_save: "mortal rank (RaftFile_save rank)"
  by (simp add: mortal_def)

lemma mortal_cases:
  assumes "mortal rank save" "save ps f = (r, f')"
  shows "RaftFile_save rank ps f = (r, f') \<or> (\<exists>e. r = Inl e) \<and> dies rank ps f f'"
  using assms(1) [unfolded mortal_def, rule_format, of ps f] assms(2) by auto

lemma mortal_storage:
  assumes "mortal rank save"
  shows "raft_storage RaftFile_load save"
proof
  show "save ps f = (Inr u, f') \<Longrightarrow> RaftFile_load f' = Inr ps" for ps f u f'
    using mortal_cases [OF assms] raft_file.saved by blast
  show "save ps f = (Inl e, f') \<Longrightarrow> RaftFile_load f' = RaftFile_load f \<or> RaftFile_load f' = Inr ps" for ps f e f'
    using mortal_cases [OF assms] raft_file.failed_save_keeps dies_load by blast
qed

section \<open>The environment of a node\<close>

definition file_env ::
    "hash_order \<Rightarrow> (u64 \<Rightarrow> 'g) \<Rightarrow> (int \<Rightarrow> int \<Rightarrow> 'g \<Rightarrow> int \<times> 'g) \<Rightarrow> (RaftFile, 'g) RaftEnv" where
  "file_env rank seed draw =
     \<lparr> storage_load = RaftFile_load, storage_save = RaftFile_save rank, seed_engine = seed,
       uniform_int = draw \<rparr>"

lemma file_env_simps [simp]:
  "storage_load (file_env rank seed draw) = RaftFile_load"
  "storage_save (file_env rank seed draw) = RaftFile_save rank"
  by (simp_all add: file_env_def)

interpretation file_cluster: raft_cluster "file_env rank seed draw" ms cfgs
  for rank and seed :: "u64 \<Rightarrow> 'g" and draw ms cfgs
  by (intro raft_cluster.intro) (simp add: raft_file.raft_storage_axioms)

lemma RaftFile_path_simps [simp]:
  "RaftFile_path (snd (RaftFile_save rank ps f)) = RaftFile_path f"
  by transfer simp

lemma opened_path: "RaftFile_open lf p d = Inr f \<Longrightarrow> RaftFile_path f = p"
  by transfer (auto simp: map_sum_Inr)

lemma mortal_path: "mortal rank save \<Longrightarrow> RaftFile_path (snd (save ps f)) = RaftFile_path f"
  unfolding mortal_def dies_def using opened_path RaftFile_path_simps [of rank ps f] by (metis snd_conv)

text \<open>The object keeps its path through every operation of the node.\<close>

lemma mortal_invariant:
  "mortal rank save \<Longrightarrow> storage_invariant (file_env rank seed draw\<lparr>storage_save := save\<rparr>) (\<lambda>f. RaftFile_path f = p)"
  by unfold_locales (simp add: mortal_path)

interpretation file_path: storage_invariant "file_env rank seed draw" "\<lambda>f. RaftFile_path f = p"
  for rank and seed :: "u64 \<Rightarrow> 'g" and draw p
  by unfold_locales simp

end
