(* ===== verification/NodeRuntime.thy ===== *)
theory NodeRuntime
  imports NodeConfig GrpcClient GrpcServer RaftFile
begin

text \<open>
  The runtime of \<open>src/node/node_runtime.cpp\<close>: construction, start and stop, the two kinds of threads
  and the queue between them. A thread is modelled by its loop and by the atomic actions the loop
  consists of: the mutexes of the node and of the queue make each of them one step.
\<close>

section \<open>The runtime object\<close>

text \<open>
  The threads are represented by what the code asks about them: whether the ticker is joinable and
  how many workers there are. \<open>peer_clients_\<close> is a \<open>std::map\<close> keyed by node.
\<close>

record ('st, 'g) NodeRuntime =
  nr_config :: NodeRuntimeConfig
  nr_raft_node :: "('st, 'g) RaftNode"
  nr_key_value_store :: "disk KvStore"
  nr_server :: GrpcServer
  nr_peer_clients :: "(NodeId \<times> GrpcClient) list"
  nr_running :: bool
  nr_message_queue :: "Message list"
  nr_ticker :: bool
  nr_workers :: nat

text \<open>\<open>operator/\<close> of \<open>std::filesystem::path\<close> with a relative right-hand side.\<close>

definition path_append :: "path \<Rightarrow> path \<Rightarrow> path" where
  "path_append dir name =
     (if dir = [] then name else if last dir = CHR ''/'' then dir @ name else dir @ ''/'' @ name)"

definition peer_options :: GrpcClientOptions where
  "peer_options = default_options
     \<lparr>opt_timeout := 150, opt_max_attempts := 2, opt_initial_backoff := 10, opt_maximum_backoff := 25\<rparr>"

text \<open>The exception that a client error is.\<close>

fun client_exception :: "client_error \<Rightarrow> error" where
  "client_exception (GrpcError m code attempts) = RuntimeError m"
| "client_exception (ClientInvalidArgument m) = InvalidArgument m"
| "client_exception (ClientLogicError m) = LogicError m"

fun make_clients :: "peer_map \<Rightarrow> error + (NodeId \<times> GrpcClient) list" where
  "make_clients [] = Inr []"
| "make_clients ((peer_id, endpoint) # ps) =
     (case new_GrpcClient endpoint peer_options of
        Inl e \<Rightarrow> Inl (client_exception e)
      | Inr client \<Rightarrow>
          (case make_clients ps of Inl e \<Rightarrow> Inl e | Inr cs \<Rightarrow> Inr ((peer_id, client) # cs)))"

text \<open>
  The constructor opens both snapshot files. The two stores use different files of the directory, so
  each is given the disk as it is at that moment.
\<close>

definition raft_path :: "NodeRuntimeConfig \<Rightarrow> path" where
  "raft_path config = path_append (rt_data_directory config) ''raft.snapshot''"

definition kv_path :: "NodeRuntimeConfig \<Rightarrow> path" where
  "kv_path config = path_append (rt_data_directory config) ''kv.snapshot''"

definition new_NodeRuntime ::
    "hash_order \<Rightarrow> (u64 \<Rightarrow> 'g) \<Rightarrow> (int \<Rightarrow> int \<Rightarrow> 'g \<Rightarrow> int \<times> 'g) \<Rightarrow> load_faults \<Rightarrow> load_faults \<Rightarrow> disk
     \<Rightarrow> NodeRuntimeConfig \<Rightarrow> error + (RaftFile, 'g) NodeRuntime" where
  "new_NodeRuntime rank seed draw lf1 lf2 d config =
     bind_sum (RaftFile_open lf1 (raft_path config) d) (\<lambda>raft_storage.
     bind_sum (new_raft_node (file_env rank seed draw) (raft_config config) (Some raft_storage)) (\<lambda>raft_node.
     bind_sum (new_FilePersistence (kv_path config)) (\<lambda>kv_file.
     bind_sum (new_KvStore (FilePersistence_load lf2 kv_file) (Some d)) (\<lambda>kv.
     bind_sum (new_GrpcServer (rt_listen_address config) (Some kv) (Some raft_node)) (\<lambda>server.
     bind_sum (make_clients (rt_peers config)) (\<lambda>clients.
       Inr \<lparr> nr_config = config, nr_raft_node = raft_node, nr_key_value_store = kv,
             nr_server = server, nr_peer_clients = clients, nr_running = False,
             nr_message_queue = [], nr_ticker = False, nr_workers = 0 \<rparr>))))))"

section \<open>Starting and stopping\<close>

fun state_name :: "NodeState \<Rightarrow> string" where
  "state_name Follower = ''follower''"
| "state_name Candidate = ''candidate''"
| "state_name Leader = ''leader''"

definition started_line :: "NodeId \<Rightarrow> NodeSnapshot \<Rightarrow> string" where
  "started_line i s =
     ''node_id='' @ decimal (unat i) @ '' event=started state='' @ state_name (sn_state s) @
     '' term='' @ decimal (unat (sn_current_term s)) @
     '' last_log_index='' @ decimal (unat (sn_last_log_index s)) @ ''\<newline>''"

text \<open>Joining the threads and shutting the server down, at the end of a rollback and of \<open>stop\<close>.\<close>

definition join_threads :: "('st, 'g) NodeRuntime \<Rightarrow> ('st, 'g) NodeRuntime" where
  "join_threads rt =
     rt\<lparr>nr_ticker := False, nr_workers := 0, nr_server := GrpcServer_shutdown (nr_server rt)\<rparr>"

text \<open>The handler of \<open>start\<close> for every exception: it ends and joins the threads and rethrows.\<close>

definition roll_back :: "('st, 'g) NodeRuntime \<Rightarrow> ('st, 'g) NodeRuntime" where
  "roll_back rt = join_threads (rt\<lparr>nr_running := False\<rparr>)"

text \<open>
  \<open>build\<close> is the start of the gRPC server, \<open>spawn k\<close> the exception of the creation of the \<open>k\<close>-th
  thread, if it throws. The result is the line that is logged.
\<close>

fun spawn_workers :: "(nat \<Rightarrow> error option) \<Rightarrow> nat \<Rightarrow> ('st, 'g) NodeRuntime \<Rightarrow> (unit, ('st, 'g) NodeRuntime) outcome" where
  "spawn_workers spawn 0 rt = Ret () rt"
| "spawn_workers spawn (Suc k) rt =
     (case spawn (nr_workers rt) of
        Some e \<Rightarrow> Exc e rt
      | None \<Rightarrow> spawn_workers spawn k (rt\<lparr>nr_workers := Suc (nr_workers rt)\<rparr>))"

definition start_threads ::
    "(string \<Rightarrow> int option) \<Rightarrow> (nat \<Rightarrow> error option) \<Rightarrow> ('st, 'g) NodeRuntime
     \<Rightarrow> (string, ('st, 'g) NodeRuntime) outcome" where
  "start_threads build spawn rt =
     (case GrpcServer_start build (nr_server rt) of
        Exc e srv \<Rightarrow> Exc e (rt\<lparr>nr_server := srv\<rparr>)
      | Ret _ srv \<Rightarrow>
          and_then (spawn_workers spawn (length (rt_peers (nr_config rt))) (rt\<lparr>nr_server := srv\<rparr>))
            (\<lambda>_ rt1.
               case spawn (nr_workers rt1) of
                 Some e \<Rightarrow> Exc e rt1
               | None \<Rightarrow>
                   Ret (started_line (rt_node_id (nr_config rt1)) (snapshot (nr_raft_node rt1)))
                     (rt1\<lparr>nr_ticker := True\<rparr>)))"

definition NodeRuntime_start ::
    "(string \<Rightarrow> int option) \<Rightarrow> (nat \<Rightarrow> error option) \<Rightarrow> ('st, 'g) NodeRuntime
     \<Rightarrow> (string, ('st, 'g) NodeRuntime) outcome" where
  "NodeRuntime_start build spawn rt =
     (if nr_running rt then Exc (LogicError ''node runtime is already running'') rt
      else
        (case start_threads build spawn (rt\<lparr>nr_running := True\<rparr>) of
           Ret line rt1 \<Rightarrow> Ret line rt1
         | Exc e rt1 \<Rightarrow> Exc e (roll_back rt1)))"

text \<open>
  \<open>stop\<close> in two parts. Between them the threads finish what they are doing: the ticker may still add
  messages to the queue that was just cleared, and the workers may still take them.
\<close>

definition begin_stop :: "('st, 'g) NodeRuntime \<Rightarrow> ('st, 'g) NodeRuntime" where
  "begin_stop rt = rt\<lparr>nr_running := False, nr_message_queue := []\<rparr>"

definition NodeRuntime_stop :: "('st, 'g) NodeRuntime \<Rightarrow> ('st, 'g) NodeRuntime" where
  "NodeRuntime_stop rt = (if \<not> nr_running rt then rt else join_threads (begin_stop rt))"

definition NodeRuntime_destructor :: "('st, 'g) NodeRuntime \<Rightarrow> ('st, 'g) NodeRuntime" where
  "NodeRuntime_destructor rt = NodeRuntime_stop rt"

section \<open>The ticker\<close>

definition enqueue_messages :: "Message list \<Rightarrow> ('st, 'g) NodeRuntime \<Rightarrow> ('st, 'g) NodeRuntime" where
  "enqueue_messages messages rt =
     (if messages = [] then rt else rt\<lparr>nr_message_queue := nr_message_queue rt @ messages\<rparr>)"

text \<open>The two accesses to the node in one iteration, each under the mutex of the node.\<close>

definition ticker_tick ::
    "('st, 'g) RaftEnv \<Rightarrow> millis \<Rightarrow> ('st, 'g) NodeRuntime \<Rightarrow> (unit, ('st, 'g) NodeRuntime) outcome" where
  "ticker_tick E elapsed rt =
     (case tick E (nr_raft_node rt) elapsed of
        Ret _ n \<Rightarrow> Ret () (rt\<lparr>nr_raft_node := n\<rparr>)
      | Exc e n \<Rightarrow> Exc e (rt\<lparr>nr_raft_node := n\<rparr>))"

definition ticker_drain :: "('st, 'g) NodeRuntime \<Rightarrow> ('st, 'g) NodeRuntime" where
  "ticker_drain rt =
     (case take_messages (nr_raft_node rt) of
        (messages, n) \<Rightarrow> enqueue_messages messages (rt\<lparr>nr_raft_node := n\<rparr>))"

definition changed_line :: "NodeId \<Rightarrow> NodeSnapshot \<Rightarrow> string" where
  "changed_line i s =
     ''node_id='' @ decimal (unat i) @ '' event=state_changed state='' @ state_name (sn_state s) @
     '' term='' @ decimal (unat (sn_current_term s)) @ '' leader_id='' @
     decimal (unat (case sn_leader_id s of None \<Rightarrow> 0 | Some l \<Rightarrow> l)) @ ''\<newline>''"

definition ticker_report :: "NodeSnapshot \<Rightarrow> ('st, 'g) NodeRuntime \<Rightarrow> string option \<times> NodeSnapshot" where
  "ticker_report last_snapshot rt =
     (let s = snapshot (nr_raft_node rt)
      in if sn_state s \<noteq> sn_state last_snapshot \<or> sn_current_term s \<noteq> sn_current_term last_snapshot \<or>
            sn_leader_id s \<noteq> sn_leader_id last_snapshot
         then (Some (changed_line (rt_node_id (nr_config rt)) s), s)
         else (None, last_snapshot))"

text \<open>
  One pass through the loop, after the sleep: the thread ends when the runtime was stopped. The clock
  counts nanoseconds; the conversion to milliseconds drops the rest.
\<close>

definition ticker_pass ::
    "('st, 'g) RaftEnv \<Rightarrow> int \<Rightarrow> int \<times> NodeSnapshot \<Rightarrow> ('st, 'g) NodeRuntime
     \<Rightarrow> (string option \<times> int \<times> NodeSnapshot, ('st, 'g) NodeRuntime) outcome option" where
  "ticker_pass E now memory rt =
     (case memory of (previous, last_snapshot) \<Rightarrow>
        if \<not> nr_running rt then None
        else Some (and_then (ticker_tick E ((now - previous) div 1000000) rt) (\<lambda>_ rt1.
               let rt2 = ticker_drain rt1;
                   (line, last_snapshot') = ticker_report last_snapshot rt2
               in Ret (line, now, last_snapshot') rt2)))"

text \<open>
  The thread over its next wake-ups. A wake-up is the reading of the clock and what the other threads
  did to the runtime during the sleep. The result is the lines that were logged and whether the
  thread has ended or is asleep again.
\<close>

datatype thread_state = Waiting | Ended

fun ticker_loop ::
    "('st, 'g) RaftEnv \<Rightarrow> (int \<times> (('st, 'g) NodeRuntime \<Rightarrow> ('st, 'g) NodeRuntime)) list \<Rightarrow> int \<times> NodeSnapshot
     \<Rightarrow> ('st, 'g) NodeRuntime \<Rightarrow> (string list \<times> thread_state, ('st, 'g) NodeRuntime) outcome" where
  "ticker_loop E wakes memory rt =
     (if \<not> nr_running rt then Ret ([], Ended) rt
      else
        (case wakes of
           [] \<Rightarrow> Ret ([], Waiting) rt
         | (now, others) # wakes' \<Rightarrow>
             (case ticker_pass E now memory (others rt) of
                None \<Rightarrow> Ret ([], Ended) (others rt)
              | Some pass \<Rightarrow>
                  and_then pass (\<lambda>(line, memory') rt1.
                  and_then (ticker_loop E wakes' memory' rt1) (\<lambda>(lines, st) rt2.
                    Ret (case line of None \<Rightarrow> lines | Some l \<Rightarrow> l # lines, st) rt2)))))"

declare ticker_loop.simps [simp del]

definition ticker_thread ::
    "('st, 'g) RaftEnv \<Rightarrow> int \<Rightarrow> (int \<times> (('st, 'g) NodeRuntime \<Rightarrow> ('st, 'g) NodeRuntime)) list
     \<Rightarrow> ('st, 'g) NodeRuntime \<Rightarrow> (string list \<times> thread_state, ('st, 'g) NodeRuntime) outcome" where
  "ticker_thread E start wakes rt = ticker_loop E wakes (start, snapshot (nr_raft_node rt)) rt"

section \<open>The workers\<close>

text \<open>
  One wait on the queue: \<open>None\<close> while the condition of the wait is false, otherwise the message taken
  from the front, or no message when the thread ends.
\<close>

definition worker_take :: "('st, 'g) NodeRuntime \<Rightarrow> (Message option \<times> ('st, 'g) NodeRuntime) option" where
  "worker_take rt =
     (if nr_running rt \<and> nr_message_queue rt = [] then None
      else if \<not> nr_running rt \<and> nr_message_queue rt = [] then Some (None, rt)
      else Some (Some (hd (nr_message_queue rt)),
                 rt\<lparr>nr_message_queue := tl (nr_message_queue rt)\<rparr>))"

text \<open>Handing the response of a peer to the node. The result of \<open>step\<close> is ignored.\<close>

definition deliver_response ::
    "('st, 'g) RaftEnv \<Rightarrow> NodeId \<Rightarrow> Rpc \<Rightarrow> ('st, 'g) NodeRuntime \<Rightarrow> (unit, ('st, 'g) NodeRuntime) outcome" where
  "deliver_response E peer rpc rt =
     (case step E (nr_raft_node rt) (Message peer (rt_node_id (nr_config rt)) rpc) of
        Ret _ n \<Rightarrow> Ret () (rt\<lparr>nr_raft_node := n\<rparr>)
      | Exc e n \<Rightarrow> Exc e (rt\<lparr>nr_raft_node := n\<rparr>))"

text \<open>
  Only a \<open>GrpcError\<close> is caught. The world of the stubs and the runtime are separate: the call is made
  without any lock of the runtime.
\<close>

definition send_message ::
    "('st, 'g) RaftEnv \<Rightarrow> 'w stubs \<Rightarrow> Message \<Rightarrow> ('st, 'g) NodeRuntime \<Rightarrow> 'w
     \<Rightarrow> (unit, ('st, 'g) NodeRuntime) outcome \<times> 'w" where
  "send_message E S message rt w =
     (case map_of (nr_peer_clients rt) (msg_to message) of
        None \<Rightarrow> (Ret () rt, w)
      | Some client \<Rightarrow>
          (case msg_rpc message of
             RpcRequestVoteRequest request \<Rightarrow>
               (case GrpcClient_request_vote S client (rt_node_id (nr_config rt)) request w of
                  (Inl (GrpcError m code attempts), w1) \<Rightarrow> (Ret () rt, w1)
                | (Inl e, w1) \<Rightarrow> (Exc (client_exception e) rt, w1)
                | (Inr response, w1) \<Rightarrow>
                    (deliver_response E (msg_to message) (RpcRequestVoteResponse response) rt, w1))
           | RpcAppendEntriesRequest request \<Rightarrow>
               (case GrpcClient_append_entries S client (rt_node_id (nr_config rt)) request w of
                  (Inl (GrpcError m code attempts), w1) \<Rightarrow> (Ret () rt, w1)
                | (Inl e, w1) \<Rightarrow> (Exc (client_exception e) rt, w1)
                | (Inr response, w1) \<Rightarrow>
                    (deliver_response E (msg_to message) (RpcAppendEntriesResponse response) rt, w1))
           | _ \<Rightarrow> (Ret () rt, w)))"

text \<open>
  The thread from a wait until it waits again, ends or throws, while no other thread touches the
  queue. A call adds nothing to the queue, so every iteration shortens it.
\<close>

lemma deliver_response_queue [simp]:
  "nr_message_queue (outcome_state (deliver_response E peer rpc rt)) = nr_message_queue rt"
  "nr_running (outcome_state (deliver_response E peer rpc rt)) = nr_running rt"
  by (simp_all add: deliver_response_def split: outcome.split)

lemma send_message_queue:
  "nr_message_queue (outcome_state (fst (send_message E S m rt w))) = nr_message_queue rt"
  "nr_running (outcome_state (fst (send_message E S m rt w))) = nr_running rt"
  by (simp_all add: send_message_def split: option.split Rpc.split prod.split sum.split client_error.split)

function worker_loop ::
    "('st, 'g) RaftEnv \<Rightarrow> 'w stubs \<Rightarrow> ('st, 'g) NodeRuntime \<Rightarrow> 'w
     \<Rightarrow> (thread_state, ('st, 'g) NodeRuntime) outcome \<times> 'w" where
  "worker_loop E S rt w =
     (case worker_take rt of
        None \<Rightarrow> (Ret Waiting rt, w)
      | Some (None, rt1) \<Rightarrow> (Ret Ended rt1, w)
      | Some (Some message, rt1) \<Rightarrow>
          (case send_message E S message rt1 w of
             (Ret _ rt2, w1) \<Rightarrow> worker_loop E S rt2 w1
           | (Exc e rt2, w1) \<Rightarrow> (Exc e rt2, w1)))"
  by pat_completeness auto

termination worker_loop
proof (relation "measure (\<lambda>(E, S, rt, w). length (nr_message_queue rt))", goal_cases)
  case (2 E S rt w x x1 rt1 message r w1 u rt2)
  have "fst (send_message E S message rt1 w) = Ret u rt2" using 2 by (metis fst_conv)
  then have "nr_message_queue rt2 = nr_message_queue rt1"
    using send_message_queue(1) [of E S message rt1 w] by simp
  moreover have "length (nr_message_queue rt1) < length (nr_message_queue rt)"
    using 2 by (auto simp: worker_take_def neq_Nil_conv split: if_splits)
  ultimately show ?case by simp
qed simp

declare worker_loop.simps [simp del]

end
