(* ===== verification/RpcGuarantees.thy ===== *)
theory RpcGuarantees
  imports GrpcClient GrpcServer KvStore
begin

text \<open>
  The client and the server together. What the gRPC library does between them is a hypothesis on the
  stub: a call that ends OK ran the handler once and returns what it returned; a call that ends
  otherwise ran the handler or did not. Under it the operations of the client on a remote store have
  the meaning of the operations of the store.
\<close>

section \<open>Transport\<close>

text \<open>\<open>server\<close> is the part of the world that the handler works on.\<close>

definition carries ::
    "('w \<Rightarrow> 's) \<Rightarrow> (ServerContext \<Rightarrow> 'q \<Rightarrow> 's \<Rightarrow> (Status \<times> 'r, 's) outcome) \<Rightarrow>
     (millis \<Rightarrow> 'q \<Rightarrow> 'w \<Rightarrow> (Status \<times> 'r) \<times> 'w) \<Rightarrow> bool" where
  "carries server handler call \<longleftrightarrow>
     (\<forall>t q w st r w'. call t q w = ((st, r), w') \<longrightarrow>
        (status_ok st \<longrightarrow> (\<exists>ctx. handler ctx q (server w) = Ret (st, r) (server w'))) \<and>
        (server w' = server w \<or> (\<exists>ctx. server w' = outcome_state (handler ctx q (server w)))))"

lemma run_handler_post:
  assumes "post (\<lambda>r s'. P r s' \<and> Q s') (\<lambda>_ s'. Q s') (operation s)" "Q s"
  shows "post (\<lambda>a s'. Q s' \<and> (status_ok (fst a) \<longrightarrow> P (snd a) s')) (\<lambda>_ s'. Q s') (run_handler ctx cleared operation s)"
  using assms
  by (cases "operation s"; cases "cancelled_before ctx"; cases "cancelled_after ctx")
    (auto simp: run_handler_def status_ok_def split: option.splits elim!: exception_status.elims)

text \<open>
  An invariant \<open>I\<close> of the handler holds after a call, and a call that returns a response establishes
  what the handler establishes with it.
\<close>

lemma carried_call:
  assumes "carries server handler (stub target)" "validate_options options = Inr ()"
    and "\<And>ctx s. I s \<Longrightarrow> post (\<lambda>a s'. I s' \<and> (status_ok (fst a) \<longrightarrow> P (snd a) s')) (\<lambda>_ s'. I s') (handler ctx q s)"
    and "I (server w)" "checked_call name options (\<lambda>t. stub target t q) w = (res, w')"
  shows "I (server w') \<and> (\<forall>r k. res = Inr (r, k) \<longrightarrow> P r (server w'))"
proof (rule checked_call_invariant [where I = "\<lambda>w. I (server w)" and Q = "\<lambda>r w. P r (server w)", OF _ assms(4,2,5)])
  fix u st r u'
  assume u: "I (server u)" "stub target (opt_timeout options) q u = ((st, r), u')"
  have c: "status_ok st \<longrightarrow> (\<exists>ctx. handler ctx q (server u) = Ret (st, r) (server u'))"
    "server u' = server u \<or> (\<exists>ctx. server u' = outcome_state (handler ctx q (server u)))"
    using assms(1) u(2) unfolding carries_def by blast+
  have "I (server u')"
    using c(2)
  proof
    assume "\<exists>ctx. server u' = outcome_state (handler ctx q (server u))"
    then obtain ctx where "server u' = outcome_state (handler ctx q (server u))" ..
    then show ?thesis using assms(3) [OF u(1), of ctx] by (cases "handler ctx q (server u)") auto
  qed (use u(1) in simp)
  moreover have "status_ok st \<longrightarrow> P r (server u')"
  proof
    assume ok: "status_ok st"
    then obtain ctx where "handler ctx q (server u) = Ret (st, r) (server u')" using c(1) by blast
    then show "P r (server u')" using assms(3) [OF u(1), of ctx] ok by simp
  qed
  ultimately show "I (server u') \<and> (status_ok st \<longrightarrow> P r (server u'))" ..
qed

section \<open>Remote stores\<close>

context key_value_store
begin

lemma Put_handler:
  assumes "inv s0" "inv s \<and> (get s = get s0 \<or> get s = (get s0)(k \<mapsto> v))"
  shows "post (\<lambda>a s'. (inv s' \<and> (get s' = get s0 \<or> get s' = (get s0)(k \<mapsto> v))) \<and>
        (status_ok (fst a) \<longrightarrow> get s' = (get s0)(k \<mapsto> v)))
      (\<lambda>_ s'. inv s' \<and> (get s' = get s0 \<or> get s' = (get s0)(k \<mapsto> v)))
      (KeyValueService_Put \<lparr> op_put = put, op_get = get, op_erase = erase \<rparr> ctx \<lparr> pq_key = k, pq_value = v \<rparr> s)"
  unfolding KeyValueService_Put_def
  by (rule run_handler_post [where P = "\<lambda>_ s'. get s' = (get s0)(k \<mapsto> v)"])
    (use assms in \<open>auto intro!: post_mono [OF put_law]\<close>)

lemma Delete_handler:
  assumes "inv s0" "inv s \<and> (get s = get s0 \<or> get s = (get s0)(k := None))"
  shows "post (\<lambda>a s'. (inv s' \<and> (get s' = get s0 \<or> get s' = (get s0)(k := None))) \<and>
        (status_ok (fst a) \<longrightarrow> get s' = (get s0)(k := None) \<and> (dr_deleted (snd a) \<longrightarrow> get s0 k \<noteq> None)))
      (\<lambda>_ s'. inv s' \<and> (get s' = get s0 \<or> get s' = (get s0)(k := None)))
      (KeyValueService_Delete \<lparr> op_put = put, op_get = get, op_erase = erase \<rparr> ctx \<lparr> dq_key = k \<rparr> s)"
  unfolding KeyValueService_Delete_def
  by (rule run_handler_post) (use assms in \<open>auto intro!: post_mono [OF erase_law]\<close>)

lemma Get_handler:
  assumes "s = s0"
  shows "post (\<lambda>a s'. s' = s0 \<and> (status_ok (fst a) \<longrightarrow>
          (if gr_found (snd a) then Some (gr_value (snd a)) else None) = get s0 k))
      (\<lambda>_ s'. s' = s0)
      (KeyValueService_Get \<lparr> op_put = put, op_get = get, op_erase = erase \<rparr> ctx \<lparr> gq_key = k \<rparr> s)"
  unfolding KeyValueService_Get_def
  by (rule run_handler_post) (use assms in \<open>auto simp: Let_def split: option.splits\<close>)

lemma remote_put:
  assumes "inv (server w)" "validate_options (gc_options c) = Inr ()"
    and "carries server (KeyValueService_Put \<lparr> op_put = put, op_get = get, op_erase = erase \<rparr>) (stub_Put S (gc_target c))"
    and "GrpcClient_put S c k v w = (res, w')"
  shows "inv (server w') \<and> (get (server w') = get (server w) \<or> get (server w') = (get (server w))(k \<mapsto> v)) \<and>
    (res = Inr () \<longrightarrow> get (server w') = (get (server w))(k \<mapsto> v))"
proof -
  let ?I = "\<lambda>s. inv s \<and> (get s = get (server w) \<or> get s = (get (server w))(k \<mapsto> v))"
  obtain r w1 where call: "checked_call ''Put'' (gc_options c)
      (\<lambda>t. stub_Put S (gc_target c) t \<lparr> pq_key = k, pq_value = v \<rparr>) w = (r, w1)" by fastforce
  have "?I (server w1) \<and> (\<forall>x n. r = Inr (x, n) \<longrightarrow> get (server w1) = (get (server w))(k \<mapsto> v))"
    using carried_call [where stub = "stub_Put S" and I = ?I and P = "\<lambda>_ s. get s = (get (server w))(k \<mapsto> v)",
        OF assms(3,2) Put_handler [OF assms(1)] _ call] assms(1) by simp
  then show ?thesis using assms(4) call by (auto simp: GrpcClient_put_def split: sum.splits)
qed

lemma remote_erase:
  assumes "inv (server w)" "validate_options (gc_options c) = Inr ()"
    and "carries server (KeyValueService_Delete \<lparr> op_put = put, op_get = get, op_erase = erase \<rparr>) (stub_Delete S (gc_target c))"
    and "GrpcClient_erase S c k w = (res, w')"
  shows "inv (server w') \<and> (get (server w') = get (server w) \<or> get (server w') = (get (server w))(k := None)) \<and>
    (\<forall>b. res = Inr b \<longrightarrow> get (server w') = (get (server w))(k := None) \<and> (b \<longrightarrow> get (server w) k \<noteq> None))"
proof -
  let ?I = "\<lambda>s. inv s \<and> (get s = get (server w) \<or> get s = (get (server w))(k := None))"
  let ?P = "\<lambda>r s. get s = (get (server w))(k := None) \<and> (dr_deleted r \<longrightarrow> get (server w) k \<noteq> None)"
  obtain r w1 where call: "checked_call ''Delete'' (gc_options c)
      (\<lambda>t. stub_Delete S (gc_target c) t \<lparr> dq_key = k \<rparr>) w = (r, w1)" by fastforce
  have "?I (server w1) \<and> (\<forall>x n. r = Inr (x, n) \<longrightarrow> ?P x (server w1))"
    using carried_call [where stub = "stub_Delete S" and I = ?I and P = ?P,
        OF assms(3,2) Delete_handler [OF assms(1)] _ call] assms(1) by simp
  then show ?thesis using assms(4) call by (auto simp: GrpcClient_erase_def split: sum.splits)
qed

lemma remote_get:
  assumes "validate_options (gc_options c) = Inr ()"
    and "carries server (KeyValueService_Get \<lparr> op_put = put, op_get = get, op_erase = erase \<rparr>) (stub_Get S (gc_target c))"
    and "GrpcClient_get S c k w = (res, w')"
  shows "server w' = server w \<and> (\<forall>x. res = Inr x \<longrightarrow> x = get (server w) k)"
proof -
  let ?P = "\<lambda>r s. (if gr_found r then Some (gr_value r) else None) = get (server w) k"
  obtain r w1 where call: "checked_call ''Get'' (gc_options c)
      (\<lambda>t. stub_Get S (gc_target c) t \<lparr> gq_key = k \<rparr>) w = (r, w1)" by fastforce
  have "server w1 = server w \<and> (\<forall>x n. r = Inr (x, n) \<longrightarrow> ?P x (server w1))"
    using carried_call [where stub = "stub_Get S" and I = "\<lambda>s. s = server w" and P = ?P,
        OF assms(2,1) Get_handler _ call] by simp
  then show ?thesis using assms(3) call by (auto simp: GrpcClient_get_def split: sum.splits if_splits)
qed

end

section \<open>A lossy transport\<close>

text \<open>
  An instance of the stub on which requests and responses are lost as scheduled; when the schedule is
  used up everything is delivered.
\<close>

datatype fate = Delivered | RequestLost | ResponseLost

definition on_time :: ServerContext where
  "on_time = \<lparr> cancelled_before = False, cancelled_after = False \<rparr>"

definition lossy ::
    "(ServerContext \<Rightarrow> 'q \<Rightarrow> 's \<Rightarrow> (Status \<times> 'r, 's) outcome) \<Rightarrow> 'r \<Rightarrow> millis \<Rightarrow> 'q \<Rightarrow> 's \<times> fate list
     \<Rightarrow> (Status \<times> 'r) \<times> 's \<times> fate list" where
  "lossy handler cleared t q w =
     (case w of (s, fates) \<Rightarrow>
        (case fates of
           RequestLost # rest \<Rightarrow> ((Status UNAVAILABLE [], cleared), (s, rest))
         | ResponseLost # rest \<Rightarrow>
             ((Status DEADLINE_EXCEEDED [], cleared), (outcome_state (handler on_time q s), rest))
         | _ \<Rightarrow>
             (case handler on_time q s of
                Ret a s1 \<Rightarrow> (a, (s1, tl fates))
              | Exc e s1 \<Rightarrow> ((Status UNAVAILABLE [], cleared), (s1, tl fates)))))"

lemma lossy_carries: "carries fst handler (lossy handler cleared)"
proof -
  have "(status_ok st \<longrightarrow> (\<exists>ctx. handler ctx q s = Ret (st, r) (fst w'))) \<and>
      (fst w' = s \<or> (\<exists>ctx. fst w' = outcome_state (handler ctx q s)))"
    if "lossy handler cleared t q (s, fates) = ((st, r), w')" for t q s fates st r w'
    using that
    by (auto simp: lossy_def status_ok_def split: list.splits fate.splits outcome.splits)
      (metis outcome_state.simps)+
  then show ?thesis unfolding carries_def by (metis prod.collapse)
qed

definition lossy_stubs :: "'s KeyValueStoreOps \<Rightarrow> ('s \<times> fate list) stubs" where
  "lossy_stubs ops =
     \<lparr> stub_Get = (\<lambda>target. lossy (KeyValueService_Get ops) clear_GetResponse),
       stub_Put = (\<lambda>target. lossy (KeyValueService_Put ops) ()),
       stub_Delete = (\<lambda>target. lossy (KeyValueService_Delete ops) clear_DeleteResponse),
       stub_GetStatus = (\<lambda>target t q w. ((Status UNAVAILABLE [], clear_NodeStatusResponse), w)),
       stub_RequestVote = (\<lambda>target t q w. ((Status UNAVAILABLE [], clear_RequestVoteResponse), w)),
       stub_AppendEntries = (\<lambda>target t q w. ((Status UNAVAILABLE [], clear_AppendEntriesResponse), w)) \<rparr>"

lemma lossy_stub_carries [simp]:
  "carries fst (KeyValueService_Get ops) (stub_Get (lossy_stubs ops) target)"
  "carries fst (KeyValueService_Put ops) (stub_Put (lossy_stubs ops) target)"
  "carries fst (KeyValueService_Delete ops) (stub_Delete (lossy_stubs ops) target)"
  by (simp_all add: lossy_stubs_def lossy_carries)

text \<open>A call whose first attempt fails with a transient status and whose second one is delivered.\<close>

lemma checked_call_second:
  assumes "1 < opt_max_attempts options"
    and "operation (opt_timeout options) w = ((st, r), w1)" "is_retryable (error_code st)"
    and "operation (opt_timeout options) w1 = ((Status OK m, r2), w2)"
  shows "checked_call name options operation w = (Inr (r2, 2), w2)"
proof -
  have "\<not> status_ok st" using assms(3) by (auto simp: status_ok_def is_retryable_def)
  moreover have "2 \<le> opt_max_attempts options" "1 \<noteq> opt_max_attempts options"
    using assms(1) by (auto simp: word_less_nat_alt word_le_nat_alt)
  ultimately show ?thesis
    using assms retry_loop.simps [of options operation 1 "opt_initial_backoff options" w]
      retry_loop.simps [of options operation 2 "min (opt_maximum_backoff options) (opt_initial_backoff options * 2)" w1]
    by (simp add: checked_call_def invoke_with_retry_def status_ok_def less_imp_le)
qed

section \<open>The retry policy\<close>


text \<open>A transport that answers the attempts as scheduled.\<close>

definition scripted :: "millis \<Rightarrow> StatusCode list \<Rightarrow> (Status \<times> nat) \<times> StatusCode list" where
  "scripted t codes =
     (case codes of [] \<Rightarrow> ((Status OK [], 0), []) | c # rest \<Rightarrow> ((Status c [], length rest), rest))"


section \<open>A remote durable store\<close>

definition file_store :: "hash_order \<Rightarrow> path \<Rightarrow> disk KvStore KeyValueStoreOps" where
  "file_store rank p =
     \<lparr> op_put = KvStore_put (FilePersistence_save rank p), op_get = KvStore_get,
       op_erase = KvStore_erase (FilePersistence_save rank p) \<rparr>"

text \<open>
  C29: A remote write is a write. When \<open>put\<close> of the client returns, the store behind the server holds
  the value durably; when it throws, the store holds the old or the new contents and nothing else,
  however many attempts were made and whichever of them were lost.
\<close>

theorem client_put:
  assumes "durable (FilePersistence_load no_load_faults p) (server w)"
    and "validate_options (gc_options c) = Inr ()"
    and "carries server (KeyValueService_Put (file_store rank p)) (stub_Put S (gc_target c))"
    and "GrpcClient_put S c k v w = (res, w')"
  shows "durable (FilePersistence_load no_load_faults p) (server w') \<and>
    (KvStore_get (server w') = KvStore_get (server w) \<or> KvStore_get (server w') = (KvStore_get (server w))(k \<mapsto> v)) \<and>
    (res = Inr () \<longrightarrow> KvStore_get (server w') = (KvStore_get (server w))(k \<mapsto> v))"
  using snapshot_file.kv.remote_put [OF assms(1,2) assms(3) [unfolded file_store_def] assms(4)] .

definition demo_client :: GrpcClient where
  "demo_client = \<lparr> gc_target = ''n1:1'', gc_options = default_options \<rparr>"

definition demo_store :: "disk KvStore" where
  "demo_store =
     \<lparr> kv_persistence = \<lparr> files = Map.empty, journal = [], faults = [] \<rparr>, kv_entries = [] \<rparr>"

lemma demo_store_durable: "durable (FilePersistence_load no_load_faults ''kv'') demo_store"
  by (simp add: durable_def demo_store_def FilePersistence_load_def no_load_faults_def map_ok_def)

lemma demo_client_valid:
  "validate_options (gc_options demo_client) = Inr ()" "1 < opt_max_attempts (gc_options demo_client)"
  by (simp_all add: demo_client_def validate_options_def default_options_def)

definition demo_after_put :: "disk KvStore" where
  "demo_after_put =
     outcome_state (KvStore_put (FilePersistence_save (\<lambda>es k. 0) ''kv'') demo_store ''a'' ''b'')"

lemma demo_put:
  "KvStore_put (FilePersistence_save (\<lambda>es k. 0) ''kv'') demo_store ''a'' ''b'' = Ret () demo_after_put"
proof -
  have "returns (FilePersistence_save (\<lambda>es k. 0) ''kv'' [(''a'', ''b'')] (kv_persistence demo_store))"
    by (rule save_returns) (simp_all add: demo_store_def fits_format_def kMaximumEntries_def kMaximumFieldBytes_def)
  then show ?thesis
    by (auto simp: demo_after_put_def KvStore_put_def save_and_swap_def insert_or_assign_def demo_store_def
        elim!: returnsE)
qed

lemma demo_remote_put:
  "GrpcClient_put (lossy_stubs (file_store (\<lambda>es k. 0) ''kv'')) demo_client ''a'' ''b'' (demo_store, [RequestLost]) =
     (Inr (), (demo_after_put, []))"
  using checked_call_second [OF demo_client_valid(2), where w = "(demo_store, [RequestLost])" and name = "''Put''"
      and operation = "\<lambda>t. stub_Put (lossy_stubs (file_store (\<lambda>es k. 0) ''kv'')) (gc_target demo_client) t
        \<lparr> pq_key = ''a'', pq_value = ''b'' \<rparr>"] demo_put
  by (simp add: GrpcClient_put_def lossy_stubs_def lossy_def is_retryable_def KeyValueService_Put_def
      file_store_def run_handler_def on_time_def)

theorem client_put_witness:
  "durable (FilePersistence_load no_load_faults ''kv'') demo_after_put \<and>
   KvStore_get demo_after_put = (KvStore_get demo_store)(''a'' \<mapsto> ''b'')"
  using client_put [where server = fst and p = "''kv''" and rank = "\<lambda>es k. 0", OF _ demo_client_valid(1) _ demo_remote_put] demo_store_durable
  by simp

text \<open>
  C30: A remote deletion is a deletion. When \<open>erase\<close> of the client returns, the key is gone, durably; it
  reports a deletion only if the key was present.
\<close>

theorem client_erase:
  assumes "durable (FilePersistence_load no_load_faults p) (server w)"
    and "validate_options (gc_options c) = Inr ()"
    and "carries server (KeyValueService_Delete (file_store rank p)) (stub_Delete S (gc_target c))"
    and "GrpcClient_erase S c k w = (res, w')"
  shows "durable (FilePersistence_load no_load_faults p) (server w') \<and>
    (KvStore_get (server w') = KvStore_get (server w) \<or> KvStore_get (server w') = (KvStore_get (server w))(k := None)) \<and>
    (\<forall>b. res = Inr b \<longrightarrow> KvStore_get (server w') = (KvStore_get (server w))(k := None) \<and>
       (b \<longrightarrow> KvStore_get (server w) k \<noteq> None))"
  using snapshot_file.kv.remote_erase [OF assms(1,2) assms(3) [unfolded file_store_def] assms(4)] .

lemma demo_remote_erase:
  "GrpcClient_erase (lossy_stubs (file_store (\<lambda>es k. 0) ''kv'')) demo_client ''a'' (demo_store, [RequestLost]) =
     (Inr False, (demo_store, []))"
  using checked_call_second [OF demo_client_valid(2), where w = "(demo_store, [RequestLost])" and name = "''Delete''"
      and operation = "\<lambda>t. stub_Delete (lossy_stubs (file_store (\<lambda>es k. 0) ''kv'')) (gc_target demo_client) t
        \<lparr> dq_key = ''a'' \<rparr>"]
  by (simp add: GrpcClient_erase_def lossy_stubs_def lossy_def is_retryable_def KeyValueService_Delete_def
      file_store_def run_handler_def on_time_def KvStore_erase_def erase_entry_def demo_store_def clear_DeleteResponse_def)

theorem client_erase_witness:
  "GrpcClient_erase (lossy_stubs (file_store (\<lambda>es k. 0) ''kv'')) demo_client ''a'' (demo_store, [RequestLost]) =
     (Inr False, (demo_store, [])) \<and>
   durable (FilePersistence_load no_load_faults ''kv'') demo_store \<and>
   KvStore_get demo_store = (KvStore_get demo_store)(''a'' := None)"
  using client_erase [where server = fst and p = "''kv''" and rank = "\<lambda>es k. 0",
      OF _ demo_client_valid(1) _ demo_remote_erase] demo_store_durable demo_remote_erase
  by auto

text \<open>
  C31: A remote read is a read: \<open>get\<close> of the client changes nothing and returns the value of the store.
\<close>

theorem client_get:
  assumes "validate_options (gc_options c) = Inr ()"
    and "carries server (KeyValueService_Get (file_store rank p)) (stub_Get S (gc_target c))"
    and "GrpcClient_get S c k w = (res, w')"
  shows "server w' = server w \<and> (\<forall>x. res = Inr x \<longrightarrow> x = KvStore_get (server w) k)"
  using snapshot_file.kv.remote_get [OF assms(1) assms(2) [unfolded file_store_def] assms(3)] .

lemma demo_after_put_get: "KvStore_get demo_after_put ''a'' = Some ''b''"
  using snapshot_file.kv.get_after_put [OF demo_store_durable demo_put, of "''a''"] by simp

lemma demo_remote_get:
  "GrpcClient_get (lossy_stubs (file_store (\<lambda>es k. 0) ''kv'')) demo_client ''a'' (demo_after_put, [RequestLost]) =
     (Inr (Some ''b''), (demo_after_put, []))"
  using checked_call_second [OF demo_client_valid(2), where w = "(demo_after_put, [RequestLost])" and name = "''Get''"
      and operation = "\<lambda>t. stub_Get (lossy_stubs (file_store (\<lambda>es k. 0) ''kv'')) (gc_target demo_client) t
        \<lparr> gq_key = ''a'' \<rparr>"] demo_after_put_get
  by (simp add: GrpcClient_get_def lossy_stubs_def lossy_def is_retryable_def KeyValueService_Get_def
      file_store_def run_handler_def on_time_def Let_def)

theorem client_get_witness: "Some ''b'' = KvStore_get demo_after_put ''a''"
  using client_get [where server = fst and p = "''kv''" and rank = "\<lambda>es k. 0",
      OF demo_client_valid(1) _ demo_remote_get]
  by simp

text \<open>
  C32: A retried deletion may deny itself. When the response of the first attempt is lost, the second
  attempt finds the key already gone: \<open>erase\<close> of the client returns false for a key that was present
  and that this very call deleted.
\<close>

theorem retried_erase_denied:
  assumes "KvStore_erase (FilePersistence_save rank p) s k = Ret True s'" "1 < opt_max_attempts (gc_options c)"
  shows "GrpcClient_erase (lossy_stubs (file_store rank p)) c k (s, [ResponseLost]) = (Inr False, (s', []))"
proof -
  obtain n es where e: "erase_entry k (kv_entries s) = (n, es)" by fastforce
  have "find_entry es k = None" using find_entry_simps(3) [of k "kv_entries s", unfolded e] by simp
  then have "find_entry (kv_entries s') k = None"
    using assms(1) e by (auto simp: KvStore_erase_def save_and_swap_def split: if_splits outcome.splits)
  then have "KvStore_erase (FilePersistence_save rank p) s' k = Ret False s'"
    by (simp add: KvStore_erase_def erase_entry_def find_entry_def)
  then show ?thesis
    using checked_call_second [OF assms(2), where w = "(s, [ResponseLost])" and name = "''Delete''"
      and operation = "\<lambda>t. stub_Delete (lossy_stubs (file_store rank p)) (gc_target c) t \<lparr> dq_key = k \<rparr>"] assms(1)
    by (simp add: GrpcClient_erase_def lossy_stubs_def lossy_def is_retryable_def KeyValueService_Delete_def
      file_store_def run_handler_def on_time_def clear_DeleteResponse_def)
qed

theorem retried_erase_denied_witness:
  "\<exists>s'. KvStore_get (demo_store\<lparr>kv_entries := [(''a'', ''b'')]\<rparr>) ''a'' = Some ''b'' \<and>
     GrpcClient_erase (lossy_stubs (file_store (\<lambda>es k. 0) ''kv'')) demo_client ''a''
       (demo_store\<lparr>kv_entries := [(''a'', ''b'')]\<rparr>, [ResponseLost]) = (Inr False, (s', []))"
proof -
  let ?s = "demo_store\<lparr>kv_entries := [(''a'', ''b'')]\<rparr>"
  have "returns (FilePersistence_save (\<lambda>es k. 0) ''kv'' [] (kv_persistence ?s))"
    by (rule save_returns) (simp_all add: demo_store_def fits_format_def kMaximumEntries_def)
  then obtain s' where "KvStore_erase (FilePersistence_save (\<lambda>es k. 0) ''kv'') ?s ''a'' = Ret True s'"
    by (auto simp: KvStore_erase_def erase_entry_def save_and_swap_def elim!: returnsE)
  from retried_erase_denied [OF this demo_client_valid(2)] show ?thesis
    by (auto simp: KvStore_get_def find_entry_def)
qed

end
