(* ===== verification/RuntimeSystem.thy ===== *)
theory RuntimeSystem
  imports NodeRuntime NodeInvariant RpcGuarantees
begin

text \<open>
  A system of node processes: the runtimes of \<open>src/node/node_runtime.cpp\<close> on their own disks, connected
  by gRPC calls. Each step is one atomic action of one thread of one process, or the end of a process
  and its start from the files it left. The system is proved to be an implementation of the cluster
  of the consensus core.
\<close>

section \<open>The system\<close>

text \<open>
  \<open>calls\<close> are the messages that workers have taken from their queues to send, with the sender;
  \<open>replies\<close> are the responses of handlers that ended OK, with the caller and its message. Both only
  grow: a call may be served any number of times or never, which covers lost requests, retries and
  requests that arrive late, and its responses may be lost or overtake each other.
\<close>

record 'g system =
  runtimes :: "NodeId \<Rightarrow> (RaftFile, 'g) NodeRuntime"
  calls :: "(NodeId \<times> Message) set"
  replies :: "(NodeId \<times> Message \<times> Rpc) set"

definition with_runtime :: "'g system \<Rightarrow> NodeId \<Rightarrow> (RaftFile, 'g) NodeRuntime \<Rightarrow> 'g system" where
  "with_runtime s i rt = s\<lparr>runtimes := (runtimes s)(i := rt)\<rparr>"

text \<open>
  A call at the other side: the client translates the request to the wire, the handler runs, and the
  client translates the response back.
\<close>

definition serve ::
    "('st, 'g) RaftEnv \<Rightarrow> ServerContext \<Rightarrow> Rpc \<Rightarrow> ('st, 'g) RaftNode
     \<Rightarrow> (Status \<times> Rpc, ('st, 'g) RaftNode) outcome option" where
  "serve E ctx rpc n =
     (case rpc of
        RpcRequestVoteRequest q \<Rightarrow>
          Some (and_then (RaftService_RequestVote E ctx (vote_request_to_wire q) n)
            (\<lambda>(status, w) n1. Ret (status, RpcRequestVoteResponse (vote_response_from_wire w)) n1))
      | RpcAppendEntriesRequest q \<Rightarrow>
          Some (and_then (RaftService_AppendEntries E ctx (append_request_to_wire q) n)
            (\<lambda>(status, w) n1. Ret (status, RpcAppendEntriesResponse (append_response_from_wire w)) n1))
      | _ \<Rightarrow> None)"

text \<open>
  \<open>ends E s i n\<close>: the process \<open>i\<close> may end with its node in state \<open>n\<close>, between two operations or in one
  that throws. Neither the ticker nor the workers catch what the node throws.
\<close>

definition ends ::
    "(RaftFile, 'g) RaftEnv \<Rightarrow> 'g system \<Rightarrow> NodeId \<Rightarrow> (RaftFile, 'g) RaftNode \<Rightarrow> bool" where
  "ends E s i n \<longleftrightarrow>
     n = nr_raft_node (runtimes s i) \<or>
     (\<exists>elapsed e rt. ticker_tick E elapsed (runtimes s i) = Exc e rt \<and> n = nr_raft_node rt) \<or>
     (\<exists>m rpc e rt. (i, m, rpc) \<in> replies s \<and> deliver_response E (msg_to m) rpc (runtimes s i) = Exc e rt \<and>
        n = nr_raft_node rt) \<or>
     (\<exists>j m e. (j, m) \<in> calls s \<and> msg_to m = i \<and>
        handle_request E (nr_raft_node (runtimes s i)) (Message j i (msg_rpc m)) = Exc e n)"

text \<open>
  The steps. A call reaches the process that its destination names. The rule \<open>serve\<close> leaves out the
  handlers in which a save throws: \<open>run_handler\<close> catches the exception and the process continues with a
  state that is not on disk, which breaks the guarantees. A process that ends comes back through its
  constructor, from a disk on which the file of the Raft state is as the process left it.
\<close>

inductive system_step ::
    "hash_order \<Rightarrow> (u64 \<Rightarrow> 'g) \<Rightarrow> (int \<Rightarrow> int \<Rightarrow> 'g \<Rightarrow> int \<times> 'g) \<Rightarrow> NodeId list \<Rightarrow> 'g system \<Rightarrow> 'g system \<Rightarrow> bool"
  for rank :: hash_order and seed :: "u64 \<Rightarrow> 'g" and draw :: "int \<Rightarrow> int \<Rightarrow> 'g \<Rightarrow> int \<times> 'g" and ms :: "NodeId list" where
  tick: "i \<in> set ms \<Longrightarrow> nr_ticker (runtimes s i) \<Longrightarrow>
    ticker_tick (file_env rank seed draw) elapsed (runtimes s i) = Ret u rt \<Longrightarrow>
    system_step rank seed draw ms s (with_runtime s i rt)"
| drain: "i \<in> set ms \<Longrightarrow> nr_ticker (runtimes s i) \<Longrightarrow>
    system_step rank seed draw ms s (with_runtime s i (ticker_drain (runtimes s i)))"
| take: "i \<in> set ms \<Longrightarrow> 0 < nr_workers (runtimes s i) \<Longrightarrow> worker_take (runtimes s i) = Some (Some m, rt) \<Longrightarrow>
    system_step rank seed draw ms s ((with_runtime s i rt)\<lparr>calls := insert (i, m) (calls s)\<rparr>)"
| serve: "(i, m) \<in> calls s \<Longrightarrow> j = msg_to m \<Longrightarrow> j \<in> set ms \<Longrightarrow> gs_server (nr_server (runtimes s j)) \<Longrightarrow>
    sender_ok i (msg_rpc m) \<Longrightarrow>
    cancelled_before ctx \<or>
      returns (handle_request (file_env rank seed draw) (nr_raft_node (runtimes s j)) (Message i j (msg_rpc m))) \<Longrightarrow>
    serve (file_env rank seed draw) ctx (msg_rpc m) (nr_raft_node (runtimes s j)) = Some (Ret (status, rpc) n) \<Longrightarrow>
    system_step rank seed draw ms s
      ((with_runtime s j ((runtimes s j)\<lparr>nr_raft_node := n\<rparr>))
         \<lparr>replies := replies s \<union> (if status_ok status then {(i, m, rpc)} else {})\<rparr>)"
| answer: "i \<in> set ms \<Longrightarrow> 0 < nr_workers (runtimes s i) \<Longrightarrow> (i, m, rpc) \<in> replies s \<Longrightarrow>
    deliver_response (file_env rank seed draw) (msg_to m) rpc (runtimes s i) = Ret u rt \<Longrightarrow>
    system_step rank seed draw ms s (with_runtime s i rt)"
| put: "i \<in> set ms \<Longrightarrow> gs_server (nr_server (runtimes s i)) \<Longrightarrow>
    KeyValueService_Put (file_store rank (kv_path (nr_config (runtimes s i)))) ctx q
      (nr_key_value_store (runtimes s i)) = Ret a kv \<Longrightarrow>
    system_step rank seed draw ms s (with_runtime s i ((runtimes s i)\<lparr>nr_key_value_store := kv\<rparr>))"
| erase: "i \<in> set ms \<Longrightarrow> gs_server (nr_server (runtimes s i)) \<Longrightarrow>
    KeyValueService_Delete (file_store rank (kv_path (nr_config (runtimes s i)))) ctx q'
      (nr_key_value_store (runtimes s i)) = Ret b kv \<Longrightarrow>
    system_step rank seed draw ms s (with_runtime s i ((runtimes s i)\<lparr>nr_key_value_store := kv\<rparr>))"
| start: "i \<in> set ms \<Longrightarrow>
    system_step rank seed draw ms s
      (with_runtime s i (outcome_state (NodeRuntime_start build spawn (runtimes s i))))"
| begin_stop: "i \<in> set ms \<Longrightarrow> nr_running (runtimes s i) \<Longrightarrow>
    system_step rank seed draw ms s (with_runtime s i (begin_stop (runtimes s i)))"
| end_stop: "i \<in> set ms \<Longrightarrow> \<not> nr_running (runtimes s i) \<Longrightarrow>
    system_step rank seed draw ms s (with_runtime s i (join_threads (runtimes s i)))"
| restart: "i \<in> set ms \<Longrightarrow> mortal rank save \<Longrightarrow>
    ends (file_env rank seed draw\<lparr>storage_save := save\<rparr>) s i n \<Longrightarrow>
    files d (raft_path (nr_config (runtimes s i))) =
      files (RaftFile_disk (storage n)) (raft_path (nr_config (runtimes s i))) \<Longrightarrow>
    new_NodeRuntime rank seed draw lf1 lf2 d (nr_config (runtimes s i)) = Inr rt \<Longrightarrow>
    system_step rank seed draw ms s (with_runtime s i rt)"

text \<open>Every process starts on a disk without a file of the Raft state.\<close>

definition initial_system ::
    "hash_order \<Rightarrow> (u64 \<Rightarrow> 'g) \<Rightarrow> (int \<Rightarrow> int \<Rightarrow> 'g \<Rightarrow> int \<times> 'g) \<Rightarrow> NodeId list \<Rightarrow> (NodeId \<Rightarrow> NodeRuntimeConfig)
     \<Rightarrow> 'g system \<Rightarrow> bool" where
  "initial_system rank seed draw ms cs s \<longleftrightarrow>
     valid_membership ms (\<lambda>i. raft_config (cs i)) \<and> calls s = {} \<and> replies s = {} \<and>
     (\<forall>i \<in> set ms. \<exists>lf1 lf2 d. files d (raft_path (cs i)) = None \<and>
        new_NodeRuntime rank seed draw lf1 lf2 d (cs i) = Inr (runtimes s i))"

inductive system_reachable ::
    "hash_order \<Rightarrow> (u64 \<Rightarrow> 'g) \<Rightarrow> (int \<Rightarrow> int \<Rightarrow> 'g \<Rightarrow> int \<times> 'g) \<Rightarrow> NodeId list \<Rightarrow> (NodeId \<Rightarrow> NodeRuntimeConfig)
     \<Rightarrow> nat \<Rightarrow> 'g system \<Rightarrow> bool"
  for rank :: hash_order and seed :: "u64 \<Rightarrow> 'g" and draw :: "int \<Rightarrow> int \<Rightarrow> 'g \<Rightarrow> int \<times> 'g"
    and ms :: "NodeId list" and cs :: "NodeId \<Rightarrow> NodeRuntimeConfig" where
  first: "initial_system rank seed draw ms cs s \<Longrightarrow> system_reachable rank seed draw ms cs 0 s"
| more: "system_reachable rank seed draw ms cs k s \<Longrightarrow> system_step rank seed draw ms s s' \<Longrightarrow>
    system_reachable rank seed draw ms cs (Suc k) s'"

end
