(* ===== verification/RuntimeRefinement.thy ===== *)
theory RuntimeRefinement
  imports RuntimeSystem
begin

text \<open>
  The system of processes implements the cluster of the consensus core: every step of the system is a
  step of the cluster or changes nothing the cluster has. The messages in queues, in calls and in
  responses are messages the cluster has sent.
\<close>

section \<open>Outboxes\<close>

context raft_cluster
begin

lemma outbox_sent:
  "reachable_in E ms cfgs k c \<Longrightarrow> i \<in> set ms \<Longrightarrow> set (outbox (nodes c i)) \<subseteq> sent c"
proof (induction rule: reachable_in.induct)
  case (start c)
  then show ?case using new_raft_node_fields(1) by (fastforce simp: initial_cluster_def)
next
  case (more k c c')
  from more(2) show ?case
    by cases (use more in \<open>auto simp: with_node_def\<close>)
qed

lemma outbox_from:
  assumes "reachable_in E ms cfgs k c" "k + 3 < 2 ^ 64" "i \<in> set ms" "m \<in> set (outbox (nodes c i))"
  shows "msg_from m = i"
proof -
  obtain a where "related k a c" using reachable_related assms(1,2) by blast
  then show ?thesis using assms(3,4) by (auto simp: related_def cluster_ok_def node_ok_def out_ok_def)
qed

lemma sent_sender:
  assumes "reachable_in E ms cfgs k c" "k + 3 < 2 ^ 64" "m \<in> sent c"
  shows "sender_ok (msg_from m) (msg_rpc m)"
proof -
  obtain a where "related k a c" using reachable_related assms(1,2) by blast
  then have "msg_ok a m" using assms(3) by (simp add: related_def cluster_ok_def)
  then show ?thesis by (cases "msg_rpc m") (auto simp: msg_ok_def)
qed

lemma reachable_config:
  assumes "reachable_in E ms cfgs k c" "k + 3 < 2 ^ 64" "i \<in> set ms"
  shows "node_id (nodes c i) = i" "valid_membership ms cfgs"
proof -
  obtain a where "related k a c" using reachable_related assms(1,2) by blast
  then have ok: "ok a i (nodes c i)" using assms(3) by (simp add: related_def cluster_ok_def)
  then show "node_id (nodes c i) = i" by (rule config(1) [OF _ assms(3)])
  show "valid_membership ms cfgs" using ok by (simp add: node_ok_def)
qed

end

section \<open>Handlers\<close>

lemma handle_request_answer:
  assumes "handle_request E n m = Ret (Some a) n'"
  shows "a = Message (node_id n) (msg_from m) (msg_rpc a) \<and> answers (msg_rpc m) (msg_rpc a)"
proof -
  have "is_request (msg_rpc m)" "msg_to m = node_id n" "is_peer_locked n (msg_from m)"
    using assms by (auto simp: handle_request_def step_locked_def split: if_splits)
  from handle_request_answers [OF this, of E] show ?thesis using assms by auto
qed

text \<open>
  A call that was served left the node as \<open>handle_request\<close> left it, or was cancelled before; a response
  that was returned is the answer of \<open>handle_request\<close>.
\<close>

lemma serve_outcome:
  assumes "serve E ctx (msg_rpc m) n = Some (Ret (status, rpc) n')" "sender_ok i (msg_rpc m)"
    and "cancelled_before ctx \<or> returns (handle_request E n (Message i (node_id n) (msg_rpc m)))"
  shows "(n' = n \<and> \<not> status_ok status) \<or>
    (\<exists>a. handle_request E n (Message i (node_id n) (msg_rpc m)) = Ret a n' \<and>
       (status_ok status \<longrightarrow> a = Some (Message (node_id n) i rpc)))"
proof (cases "cancelled_before ctx")
  case True
  then show ?thesis
    using assms(1) by (auto simp: serve_def RaftService_RequestVote_def RaftService_AppendEntries_def
        run_handler_def status_ok_def split: Rpc.splits)
next
  case False
  then obtain a n1 where h: "handle_request E n (Message i (node_id n) (msg_rpc m)) = Ret a n1"
    using assms(3) by (auto elim: returnsE)
  show ?thesis
  proof (cases "msg_rpc m")
    case (RpcRequestVoteRequest q)
    then have c: "rvq_candidate_id q = i" "wvq_candidate_id (vote_request_to_wire q) = i"
      using assms(2) by (simp_all add: vote_request_to_wire_def)
    show ?thesis
    proof (cases a)
      case None
      then show ?thesis
        using assms(1) RpcRequestVoteRequest False h c
        by (auto simp: serve_def RaftService_RequestVote_def run_handler_def status_ok_def wire_roundtrip)
    next
      case (Some r)
      obtain v where v: "r = Message (node_id n) i (RpcRequestVoteResponse v)"
        using handle_request_answer [OF h [unfolded Some]] RpcRequestVoteRequest
        by (cases "msg_rpc r") auto
      then show ?thesis
        using assms(1) RpcRequestVoteRequest False h c Some
        by (auto simp: serve_def RaftService_RequestVote_def run_handler_def status_ok_def wire_roundtrip
            split: if_splits)
    qed
  next
    case (RpcAppendEntriesRequest q)
    then have c: "aeq_leader_id q = i" "waq_leader_id (append_request_to_wire q) = i"
      using assms(2) by (simp_all add: append_request_to_wire_def)
    show ?thesis
    proof (cases a)
      case None
      then show ?thesis
        using assms(1) RpcAppendEntriesRequest False h c
        by (auto simp: serve_def RaftService_AppendEntries_def run_handler_def status_ok_def wire_roundtrip)
    next
      case (Some r)
      obtain v where v: "r = Message (node_id n) i (RpcAppendEntriesResponse v)"
        using handle_request_answer [OF h [unfolded Some]] RpcAppendEntriesRequest
        by (cases "msg_rpc r") auto
      then show ?thesis
        using assms(1) RpcAppendEntriesRequest False h c Some
        by (auto simp: serve_def RaftService_AppendEntries_def run_handler_def status_ok_def wire_roundtrip
            split: if_splits)
    qed
  qed (use assms(1) in \<open>simp_all add: serve_def\<close>)
qed

section \<open>The relation\<close>

definition matched ::
    "NodeId list \<Rightarrow> (NodeId \<Rightarrow> NodeRuntimeConfig) \<Rightarrow> 'g system \<Rightarrow> (RaftFile, 'g) cluster \<Rightarrow> bool" where
  "matched ms cs s c \<longleftrightarrow>
     (\<forall>i \<in> set ms. nr_config (runtimes s i) = cs i \<and> nodes c i = nr_raft_node (runtimes s i) \<and>
        RaftFile_path (storage (nodes c i)) = raft_path (cs i) \<and>
        (\<forall>m \<in> set (nr_message_queue (runtimes s i)). m \<in> sent c \<and> msg_from m = i)) \<and>
     (\<forall>i m. (i, m) \<in> calls s \<longrightarrow> m \<in> sent c \<and> msg_from m = i) \<and>
     (\<forall>i m rpc. (i, m, rpc) \<in> replies s \<longrightarrow> Message (msg_to m) i rpc \<in> sent c)"

text \<open>A step of a node, with what the process did to its queue.\<close>

lemma matched_node:
  assumes "matched ms cs s c" "i \<in> set ms"
    and "nr_config rt = cs i" "RaftFile_path (storage (nr_raft_node rt)) = raft_path (cs i)"
    and "set (nr_message_queue rt) \<subseteq> set (nr_message_queue (runtimes s i)) \<union> {m \<in> sent c. msg_from m = i}"
  shows "matched ms cs (with_runtime s i rt) (with_node c i (nr_raft_node rt) extra)"
  using assms unfolding matched_def with_runtime_def with_node_def by auto

lemma matched_quiet:
  assumes "matched ms cs s c" "i \<in> set ms"
    and "nr_config rt = nr_config (runtimes s i)" "nr_raft_node rt = nr_raft_node (runtimes s i)"
    and "set (nr_message_queue rt) \<subseteq> set (nr_message_queue (runtimes s i))"
  shows "matched ms cs (with_runtime s i rt) c"
  using assms unfolding matched_def with_runtime_def by auto

lemma matchedD:
  assumes "matched ms cs s c" "i \<in> set ms"
  shows "nr_config (runtimes s i) = cs i" "nodes c i = nr_raft_node (runtimes s i)"
    "RaftFile_path (storage (nr_raft_node (runtimes s i))) = raft_path (cs i)"
  using assms by (auto simp: matched_def)

section \<open>Construction\<close>

lemma new_NodeRuntime_Inr:
  assumes "new_NodeRuntime rank seed draw lf1 lf2 d config = Inr rt"
  obtains f where "RaftFile_open lf1 (raft_path config) d = Inr f"
    "new_raft_node (file_env rank seed draw) (raft_config config) (Some f) = Inr (nr_raft_node rt)"
    "nr_config rt = config" "nr_message_queue rt = []" "storage (nr_raft_node rt) = f"
    "RaftFile_path f = raft_path config"
  using assms new_raft_node_fields(4) opened_path
  by (fastforce simp: new_NodeRuntime_def bind_sum_def split: sum.splits)

lemma open_missing:
  "RaftFile_open lf p d = Inr f \<Longrightarrow> files d p = None \<Longrightarrow> RaftFile_load f = Inr default_persistent_state"
proof transfer
  fix lf p d and f :: "path \<times> DurableRaftStorage"
  assume "map_sum id (Pair p) (new_DurableRaftStorage lf p d) = Inr f" "files d p = None"
  then show "DurableRaftStorage_load (snd f) = Inr default_persistent_state"
    using load_any_faults [of lf p d]
    by (auto simp: map_sum_Inr new_storage_Inr load_file DurableRaftStorage_load_def KvStore_get_def)
qed

lemma initial_matched:
  assumes "initial_system rank seed draw ms cs s"
  shows "\<exists>c. initial_cluster (file_env rank seed draw) ms (\<lambda>i. raft_config (cs i)) c \<and> matched ms cs s c"
proof (intro exI conjI)
  let ?c = "\<lparr> nodes = \<lambda>i. nr_raft_node (runtimes s i), sent = {}, delivered = {} \<rparr>"
  have new: "\<exists>f. RaftFile_load f = Inr default_persistent_state \<and>
      new_raft_node (file_env rank seed draw) (raft_config (cs i)) (Some f) = Inr (nr_raft_node (runtimes s i)) \<and>
      nr_config (runtimes s i) = cs i \<and> nr_message_queue (runtimes s i) = [] \<and>
      RaftFile_path (storage (nr_raft_node (runtimes s i))) = raft_path (cs i)" if i: "i \<in> set ms" for i
  proof -
    obtain lf1 lf2 d where d: "files d (raft_path (cs i)) = None"
      "new_NodeRuntime rank seed draw lf1 lf2 d (cs i) = Inr (runtimes s i)"
      using assms i unfolding initial_system_def by blast
    from d(2) show ?thesis by (rule new_NodeRuntime_Inr) (use open_missing d(1) in blast)
  qed
  show "initial_cluster (file_env rank seed draw) ms (\<lambda>i. raft_config (cs i)) ?c"
    using assms new by (fastforce simp: initial_cluster_def initial_system_def)
  show "matched ms cs s ?c" using assms new by (fastforce simp: matched_def initial_system_def)
qed

section \<open>The simulation\<close>

text \<open>
  \<open>follows E ms cfgs c c'\<close>: the cluster makes one step or none.
\<close>

abbreviation follows ::
    "('st, 'g) RaftEnv \<Rightarrow> NodeId list \<Rightarrow> (NodeId \<Rightarrow> RaftConfig) \<Rightarrow> ('st, 'g) cluster \<Rightarrow> ('st, 'g) cluster \<Rightarrow> bool" where
  "follows E ms cfgs c c' \<equiv> c' = c \<or> cluster_step E ms cfgs c c'"

lemma tick_matched:
  assumes "matched ms cs s c" "i \<in> set ms"
    and "ticker_tick (file_env rank seed draw) elapsed (runtimes s i) = Ret u rt"
  shows "\<exists>c'. cluster_step (file_env rank seed draw) ms cfgs c c' \<and> matched ms cs (with_runtime s i rt) c'"
proof -
  let ?E = "file_env rank seed draw"
  obtain v n where n: "tick ?E (nodes c i) elapsed = Ret v n" "rt = (runtimes s i)\<lparr>nr_raft_node := n\<rparr>"
    using assms(3) matchedD(2) [OF assms(1,2)] by (auto simp: ticker_tick_def split: outcome.splits)
  have "RaftFile_path (storage n) = raft_path (cs i)"
    using file_path.operations_store(1) [of "nodes c i" "raft_path (cs i)" rank seed draw elapsed] n(1)
      matchedD [OF assms(1,2)] by simp
  then have "matched ms cs (with_runtime s i rt) (with_node c i (nr_raft_node rt) {})"
    using assms(1,2) matchedD(1) [OF assms(1,2)] n(2) by (intro matched_node) auto
  then show ?thesis using cluster_step.tick [OF assms(2) n(1)] n(2) by auto
qed

lemma answer_matched:
  assumes "matched ms cs s c" "i \<in> set ms" "rt_node_id (cs i) = i" "(i, m, rpc) \<in> replies s"
    and "deliver_response (file_env rank seed draw) (msg_to m) rpc (runtimes s i) = Ret u rt"
  shows "\<exists>c'. cluster_step (file_env rank seed draw) ms cfgs c c' \<and> matched ms cs (with_runtime s i rt) c'"
proof -
  let ?E = "file_env rank seed draw" and ?m = "Message (msg_to m) i rpc"
  obtain b n where n: "step ?E (nodes c i) ?m = Ret b n" "rt = (runtimes s i)\<lparr>nr_raft_node := n\<rparr>"
    using assms(3,5) matchedD(1,2) [OF assms(1,2)] by (auto simp: deliver_response_def split: outcome.splits)
  have "RaftFile_path (storage n) = raft_path (cs i)"
    using file_path.operations_store(2) [of "nodes c i" "raft_path (cs i)" rank seed draw ?m] n(1)
      matchedD [OF assms(1,2)] by simp
  then have "matched ms cs (with_runtime s i rt) (with_node c i (nr_raft_node rt) {})"
    using assms(1,2) matchedD(1) [OF assms(1,2)] n(2) by (intro matched_node) auto
  moreover have "?m \<in> sent c" using assms(1,4) by (auto simp: matched_def)
  ultimately show ?thesis using cluster_step.deliver [OF assms(2) _ n(1)] n(2) by auto
qed

lemma drain_matched:
  assumes "matched ms cs s c" "i \<in> set ms" "set (outbox (nodes c i)) \<subseteq> {m \<in> sent c. msg_from m = i}"
  shows "\<exists>c'. cluster_step E ms cfgs c c' \<and> matched ms cs (with_runtime s i (ticker_drain (runtimes s i))) c'"
proof -
  let ?rt = "ticker_drain (runtimes s i)"
  have n: "nr_raft_node ?rt = snd (take_messages (nodes c i))" "nr_config ?rt = nr_config (runtimes s i)"
    "storage (snd (take_messages (nodes c i))) = storage (nodes c i)"
    "set (nr_message_queue ?rt) = set (nr_message_queue (runtimes s i)) \<union> set (outbox (nodes c i))"
    using matchedD(2) [OF assms(1,2)] by (auto simp: ticker_drain_def take_messages_def enqueue_messages_def)
  have "matched ms cs (with_runtime s i ?rt) (with_node c i (nr_raft_node ?rt) {})"
    using assms n matchedD [OF assms(1,2)] by (intro matched_node) auto
  then show ?thesis using cluster_step.take_messages [OF assms(2)] n(1) by metis
qed

lemma serve_matched:
  assumes M: "matched ms cs s c" and j: "j \<in> set ms" "j = msg_to m" "node_id (nodes c j) = j"
    and m: "(i, m) \<in> calls s" "sender_ok i (msg_rpc m)"
    and ok: "cancelled_before ctx \<or>
      returns (handle_request (file_env rank seed draw) (nr_raft_node (runtimes s j)) (Message i j (msg_rpc m)))"
    and sv: "serve (file_env rank seed draw) ctx (msg_rpc m) (nr_raft_node (runtimes s j)) = Some (Ret (status, rpc) n)"
  shows "\<exists>c'. follows (file_env rank seed draw) ms cfgs c c' \<and>
    matched ms cs ((with_runtime s j ((runtimes s j)\<lparr>nr_raft_node := n\<rparr>))
         \<lparr>replies := replies s \<union> (if status_ok status then {(i, m, rpc)} else {})\<rparr>) c'"
proof -
  let ?E = "file_env rank seed draw"
  note D = matchedD [OF M j(1)]
  have mm: "m \<in> sent c" "Message i j (msg_rpc m) = m"
    using M m(1) j(2) by (auto simp: matched_def) (metis Message.collapse)
  from serve_outcome [OF sv m(2)] ok j(3) D(2)
  consider "n = nodes c j" "\<not> status_ok status" |
    a where "handle_request ?E (nodes c j) m = Ret a n" "status_ok status \<longrightarrow> a = Some (Message j i rpc)"
    using mm(2) by auto
  then show ?thesis
  proof cases
    case 1
    then show ?thesis using M D(2) by (intro exI [of _ c]) (auto simp: matched_def with_runtime_def)
  next
    case 2
    have "RaftFile_path (storage n) = raft_path (cs j)"
      using file_path.operations_store(3) [of "nodes c j" "raft_path (cs j)" rank seed draw m] 2(1) D by simp
    then have "matched ms cs (with_runtime s j ((runtimes s j)\<lparr>nr_raft_node := n\<rparr>)) (with_node c j n (set_option a))"
      using matched_node [OF M j(1), of "(runtimes s j)\<lparr>nr_raft_node := n\<rparr>" "set_option a"] D(1) by auto
    moreover have "status_ok status \<Longrightarrow> Message (msg_to m) i rpc \<in> sent (with_node c j n (set_option a))"
      using 2(2) j(2) by (auto simp: with_node_def)
    ultimately show ?thesis
      using cluster_step.request [OF j(1) mm(1) 2(1)]
      by (intro exI [of _ "with_node c j n (set_option a)"]) (auto simp: matched_def with_runtime_def)
  qed
qed

text \<open>The end of a process is a stop of its node, between two operations or in one that throws.\<close>

lemma ends_fails:
  assumes M: "matched ms cs s c" and i: "i \<in> set ms" "rt_node_id (cs i) = i" and e: "ends E s i n"
  shows "n = nodes c i \<or> fails E c i n"
proof -
  note D = matchedD [OF M i(1)]
  from e consider "n = nodes c i" | x elapsed where "tick E (nodes c i) elapsed = Exc x n" |
    x m where "m \<in> sent c" "step E (nodes c i) m = Exc x n \<or> handle_request E (nodes c i) m = Exc x n"
    unfolding ends_def
  proof (elim disjE exE conjE)
    fix m rpc x rt
    assume "(i, m, rpc) \<in> replies s" "deliver_response E (msg_to m) rpc (runtimes s i) = Exc x rt"
      "n = nr_raft_node rt"
    then show ?thesis
      using that(3) [of "Message (msg_to m) i rpc" x] M D i(2)
      by (auto simp: deliver_response_def matched_def split: outcome.splits)
  next
    fix j m x
    assume m: "(j, m) \<in> calls s" "msg_to m = i"
      "handle_request E (nr_raft_node (runtimes s i)) (Message j i (msg_rpc m)) = Exc x n"
    then have "m \<in> sent c" "Message j i (msg_rpc m) = m"
      using M by (auto simp: matched_def) (metis Message.collapse)
    then show ?thesis using that(3) [of m x] m(3) D(2) by auto
  qed (use that(1,2) D in \<open>auto simp: ticker_tick_def split: outcome.splits\<close>)
  then show ?thesis by cases (auto simp: fails_def)
qed

lemma fails_path:
  assumes "storage_invariant E I" "I (storage (nodes c i))" "fails E c i n"
  shows "I (storage n)"
  using storage_invariant.operations_store [OF assms(1,2)] assms(3)
  unfolding fails_def by (metis stores_simps(2))

lemma restart_matched:
  assumes M: "matched ms cs s c" and i: "i \<in> set ms" "rt_node_id (cs i) = i" and save: "mortal rank save"
    and e: "ends (file_env rank seed draw\<lparr>storage_save := save\<rparr>) s i n"
    and d: "files d (raft_path (nr_config (runtimes s i))) =
      files (RaftFile_disk (storage n)) (raft_path (nr_config (runtimes s i)))"
    and new: "new_NodeRuntime rank seed draw lf1 lf2 d (nr_config (runtimes s i)) = Inr rt"
  shows "\<exists>c'. cluster_step (file_env rank seed draw) ms (\<lambda>i. raft_config (cs i)) c c' \<and>
    matched ms cs (with_runtime s i rt) c'"
proof -
  let ?E = "file_env rank seed draw" and ?E' = "file_env rank seed draw\<lparr>storage_save := save\<rparr>"
  note D = matchedD [OF M i(1)]
  have f: "n = nodes c i \<or> fails ?E' c i n" using ends_fails [OF M i e] .
  then have p: "RaftFile_path (storage n) = raft_path (cs i)"
    using fails_path [OF mortal_invariant [OF save], of c i "raft_path (cs i)"] D by auto
  from new obtain f where f': "RaftFile_open lf1 (raft_path (cs i)) d = Inr f"
    "new_raft_node ?E (raft_config (cs i)) (Some f) = Inr (nr_raft_node rt)"
    "nr_config rt = cs i" "nr_message_queue rt = []" "storage (nr_raft_node rt) = f" "RaftFile_path f = raft_path (cs i)"
    unfolding D(1) by (rule new_NodeRuntime_Inr)
  have "storage_load ?E f = storage_load ?E (storage n)"
    using reopened_load [of lf1 "storage n" d f] f'(1) p d D(1) by simp
  then have "cluster_step ?E ms (\<lambda>i. raft_config (cs i)) c (with_node c i (nr_raft_node rt) {})"
    using f i(1) f'(2) mortal_storage [OF save] cluster_step.restart [of i ms ?E f c "\<lambda>i. raft_config (cs i)"]
      cluster_step.crash [of i ms ?E save c n f "\<lambda>i. raft_config (cs i)"]
    by auto
  moreover have "matched ms cs (with_runtime s i rt) (with_node c i (nr_raft_node rt) {})"
    using M i(1) f' by (intro matched_node) auto
  ultimately show ?thesis by blast
qed

text \<open>What starting and stopping leave alone.\<close>

lemma spawn_workers_spec:
  "post (\<lambda>_ rt'. rt' = rt\<lparr>nr_workers := nr_workers rt + k\<rparr>)
     (\<lambda>e rt'. \<exists>w. w < nr_workers rt + k \<and> spawn w = Some e \<and> rt' = rt\<lparr>nr_workers := w\<rparr>)
     (spawn_workers spawn k rt)"
proof (induction k arbitrary: rt)
  case (Suc k)
  show ?case
    using post_mono [OF Suc [of "rt\<lparr>nr_workers := Suc (nr_workers rt)\<rparr>"]]
    by (auto split: option.split intro!: exI [of _ "nr_workers rt"])
qed simp

definition same_core :: "('st, 'g) NodeRuntime \<Rightarrow> ('st, 'g) NodeRuntime \<Rightarrow> bool" where
  "same_core rt rt' \<longleftrightarrow> nr_config rt' = nr_config rt \<and> nr_raft_node rt' = nr_raft_node rt \<and>
     nr_message_queue rt' = nr_message_queue rt"

lemma start_keeps: "same_core rt (outcome_state (NodeRuntime_start build spawn rt))"
proof -
  have "post (\<lambda>_. same_core rt) (\<lambda>_. same_core rt) (start_threads build spawn (rt\<lparr>nr_running := True\<rparr>))"
    by (auto simp: start_threads_def same_core_def split: outcome.split option.split
        intro!: post_mono [OF spawn_workers_spec])
  then show ?thesis
    by (auto simp: NodeRuntime_start_def roll_back_def join_threads_def same_core_def split: outcome.splits)
qed

lemma same_core_matched:
  assumes "matched ms cs s c" "i \<in> set ms" "same_core (runtimes s i) rt"
  shows "matched ms cs (with_runtime s i rt) c"
  using assms by (intro matched_quiet) (auto simp: same_core_def)

lemma step_matched:
  assumes r: "reachable_in (file_env rank seed draw) ms (\<lambda>i. raft_config (cs i)) k c" "k + 3 < 2 ^ 64"
    and M: "matched ms cs s c" and st: "system_step rank seed draw ms s s'"
  shows "\<exists>c'. follows (file_env rank seed draw) ms (\<lambda>i. raft_config (cs i)) c c' \<and> matched ms cs s' c'"
proof -
  let ?E = "file_env rank seed draw" and ?cfgs = "\<lambda>i. raft_config (cs i)"
  note cfg = file_cluster.reachable_config [OF r]
  have id: "rt_node_id (cs i) = i" if "i \<in> set ms" for i
    using cfg(2) [OF that] that by (auto simp: valid_membership_def raft_config_def)
  from st show ?thesis
  proof cases
    case (tick i elapsed u rt)
    show ?thesis using tick_matched [OF M tick(2,4)] unfolding tick(1) by blast
  next
    case (drain i)
    have "set (outbox (nodes c i)) \<subseteq> {m \<in> sent c. msg_from m = i}"
      using file_cluster.outbox_sent [OF r(1) drain(2)] file_cluster.outbox_from [OF r drain(2)] by auto
    then show ?thesis using drain_matched [OF M drain(2)] unfolding drain(1) by blast
  next
    case (take i m rt)
    then have "matched ms cs (with_runtime s i rt) c" "m \<in> set (nr_message_queue (runtimes s i))"
      using M by (auto simp: worker_take_def split: if_splits intro!: matched_quiet dest: list.set_sel)
    then have "matched ms cs s' c"
      using take(1,2) M by (auto simp: matched_def with_runtime_def)
    then show ?thesis by blast
  next
    case (serve i m j ctx status rpc n)
    show ?thesis
      unfolding serve(1) by (rule serve_matched [OF M serve(4,3) cfg(1) [OF serve(4)] serve(2,6-8)])
  next
    case (answer i m rpc u rt)
    show ?thesis
      using answer_matched [OF M answer(2) id [OF answer(2)] answer(4,5)] unfolding answer(1) by blast
  next
    case (restart i save n d lf1 lf2 rt)
    show ?thesis
      using restart_matched [OF M restart(2) id [OF restart(2)] restart(3-6)] unfolding restart(1) by blast
  next
    case (start i build spawn)
    show ?thesis using same_core_matched [OF M start(2) start_keeps] unfolding start(1) by blast
  next
    case (put i ctx q a kv)
    have "matched ms cs s' c" unfolding put(1) by (rule matched_quiet [OF M put(2)]) simp_all
    then show ?thesis by blast
  next
    case (erase i ctx q b kv)
    have "matched ms cs s' c" unfolding erase(1) by (rule matched_quiet [OF M erase(2)]) simp_all
    then show ?thesis by blast
  next
    case (begin_stop i)
    have "matched ms cs s' c"
      unfolding begin_stop(1) by (rule matched_quiet [OF M begin_stop(2)]) (simp_all add: begin_stop_def)
    then show ?thesis by blast
  next
    case (end_stop i)
    have "matched ms cs s' c"
      unfolding end_stop(1) by (rule matched_quiet [OF M end_stop(2)]) (simp_all add: join_threads_def)
    then show ?thesis by blast
  qed
qed

lemma system_matched:
  assumes "system_reachable rank seed draw ms cs k s" "k + 3 < 2 ^ 64"
  shows "\<exists>k' c. k' \<le> k \<and> reachable_in (file_env rank seed draw) ms (\<lambda>i. raft_config (cs i)) k' c \<and> matched ms cs s c"
  using assms
proof (induction rule: system_reachable.induct)
  case (first s)
  obtain c where c: "initial_cluster (file_env rank seed draw) ms (\<lambda>i. raft_config (cs i)) c" "matched ms cs s c"
    using initial_matched [OF first(1)] by blast
  show ?case using reachable_in.start [OF c(1)] c(2) by (intro exI conjI) (rule le_refl)
next
  case (more k s s')
  from more(4) have "k + 3 < 2 ^ 64" by linarith
  from more(3) [OF this] obtain k' c where c: "k' \<le> k"
    "reachable_in (file_env rank seed draw) ms (\<lambda>i. raft_config (cs i)) k' c" "matched ms cs s c"
    by blast
  have "k' + 3 < 2 ^ 64" using more(4) c(1) by linarith
  from step_matched [OF c(2) this c(3) more(2)] obtain c' where
    c': "follows (file_env rank seed draw) ms (\<lambda>i. raft_config (cs i)) c c'" "matched ms cs s' c'"
    by blast
  show ?case
  proof (cases "c' = c")
    case True
    then show ?thesis using c c'(2) by (intro exI [of _ k'] exI [of _ c]) simp
  next
    case False
    then have "reachable_in (file_env rank seed draw) ms (\<lambda>i. raft_config (cs i)) (Suc k') c'"
      using reachable_in.more [OF c(2)] c'(1) by blast
    then show ?thesis using c(1) c'(2) by (intro exI [of _ "Suc k'"] exI [of _ c']) simp
  qed
qed

text \<open>Sequences of steps.\<close>

lemma steps_matched:
  assumes "reachable_in (file_env rank seed draw) ms (\<lambda>i. raft_config (cs i)) k c" "matched ms cs s c"
    and "(system_step rank seed draw ms ^^ d) s s'" "k + d + 3 < 2 ^ 64"
  shows "\<exists>d' c'. d' \<le> d \<and> (cluster_step (file_env rank seed draw) ms (\<lambda>i. raft_config (cs i)) ^^ d') c c' \<and>
    reachable_in (file_env rank seed draw) ms (\<lambda>i. raft_config (cs i)) (k + d') c' \<and> matched ms cs s' c'"
  using assms(3,4)
proof (induction d arbitrary: s')
  case 0
  then show ?case using assms(1,2) by (intro exI [of _ 0] exI [of _ c]) simp
next
  case (Suc d)
  let ?S = "cluster_step (file_env rank seed draw) ms (\<lambda>i. raft_config (cs i))"
  from Suc(2) obtain s1 where s1: "(system_step rank seed draw ms ^^ d) s s1" "system_step rank seed draw ms s1 s'"
    by auto
  have "k + d + 3 < 2 ^ 64" using Suc(3) by linarith
  from Suc(1) [OF s1(1) this] obtain d' c1 where c1: "d' \<le> d" "(?S ^^ d') c c1"
    "reachable_in (file_env rank seed draw) ms (\<lambda>i. raft_config (cs i)) (k + d') c1" "matched ms cs s1 c1"
    by blast
  have "k + d' + 3 < 2 ^ 64" using Suc(3) c1(1) by linarith
  from step_matched [OF c1(3) this c1(4) s1(2)] obtain c' where c': "c' = c1 \<or> ?S c1 c'" "matched ms cs s' c'"
    by blast
  from c'(1) show ?case
  proof
    assume "c' = c1"
    then show ?thesis using c1 c'(2) by (intro exI [of _ d'] exI [of _ c1]) simp
  next
    assume st: "?S c1 c'"
    have "(?S ^^ Suc d') c c'" using c1(2) st by (rule relpowp_Suc_I)
    moreover have "reachable_in (file_env rank seed draw) ms (\<lambda>i. raft_config (cs i)) (k + Suc d') c'"
      using reachable_in.more [OF c1(3) st] by simp
    ultimately show ?thesis using c1(1) c'(2) by (intro exI [of _ "Suc d'"] exI [of _ c']) simp
  qed
qed

end
