(* ===== verification/RuntimeScenario.thy ===== *)
theory RuntimeScenario
  imports RuntimeRefinement
begin

text \<open>
  A run of two processes on disks that do not fail: they start, the first one times out, sends a
  request for a vote through its queue to the second one, and becomes leader with the response. The
  run shows that the states the guarantees speak about are reached.
\<close>

section \<open>Disks without faults\<close>

text \<open>A save uses up one entry of the schedule of faults.\<close>

abbreviation same_faults :: "ostream \<Rightarrow> (unit, ostream) outcome \<Rightarrow> bool" where
  "same_faults out \<equiv> post (\<lambda>_ out'. faults (os_disk out') = faults (os_disk out))
     (\<lambda>_ out'. faults (os_disk out') = faults (os_disk out))"

lemma write_exact_faults: "same_faults out (write_exact out data)"
  by (auto simp: write_exact_def append_data_def set_file_def Let_def split: option.split)

lemma write_field_faults: "same_faults out (write_field out data)"
  by (auto simp: write_field_def write_uint64_def
      intro!: post_mono [OF write_exact_faults] elim!: post_mono [OF write_exact_faults])

lemma write_entries_faults: "same_faults out (write_entries out es)"
proof (induction es arbitrary: out)
  case (Cons e es)
  obtain k v where "e = (k, v)" by fastforce
  then show ?case
    by (auto intro!: post_mono [OF write_field_faults] post_mono [OF Cons])
qed simp

lemma write_snapshot_faults:
  "faults (outcome_state (write_snapshot rank f p tmp es d)) = faults d"
proof -
  let ?out = "\<lparr> os_disk = set_file d tmp (Some []), os_path = tmp, os_room = sf_room f \<rparr>"
  let ?w = "and_then (write_exact ?out kFileMagic) (\<lambda>_ out1.
      and_then (write_uint64 out1 (of_nat (length es))) (\<lambda>_ out2. write_entries out2 (iterate rank es)))"
  have "same_faults ?out ?w"
    unfolding write_uint64_def
    by (auto intro!: post_mono [OF write_exact_faults] post_mono [OF write_entries_faults])
  moreover have "faults (os_disk ?out) = faults d" by (simp add: set_file_def Let_def)
  ultimately show ?thesis
    unfolding write_snapshot_def Let_def by (cases ?w) (simp_all add: rename_file_def Let_def)
qed

lemma save_faults: "faults d = [] \<Longrightarrow> faults (outcome_state (FilePersistence_save rank p es d)) = []"
  using write_snapshot_faults [of rank no_faults p "p @ ''.tmp''" es d]
  by (auto simp: FilePersistence_save_def next_faults_def remove_if_present_def set_file_def Let_def
      split: outcome.splits)

text \<open>Files on such a disk that hold nothing but the Raft state.\<close>

lift_definition healthy :: "RaftFile \<Rightarrow> bool"
  is "\<lambda>f. faults (kv_persistence (snd f)) = [] \<and> set (map fst (kv_entries (snd f))) \<subseteq> {kRaftStateKey}" .

definition small :: "PersistentState \<Rightarrow> bool" where
  "small ps \<longleftrightarrow> length (ps_log ps) \<le> 2 \<and> (\<forall>e \<in> set (ps_log ps). le_command e = [])"

lemma small_fits: "small ps \<Longrightarrow> state_fits ps \<and> length (state_bytes ps) \<le> 200"
proof -
  assume s: "small ps"
  have "length (concat (map entry_bytes es)) = 17 * length es" if "\<forall>e \<in> set es. le_command e = []" for es
    using that by (induction es) (auto simp: entry_bytes_def)
  then have "length (concat (map entry_bytes (ps_log ps))) = 17 * length (ps_log ps)"
    using s by (simp add: small_def)
  then show ?thesis
    using s by (auto simp: small_def state_fits_def commands_fit_def kMaximumLogEntries_def state_bytes_def
        kRaftStateMagic_def split: option.split)
qed

lemma healthy_save_raw:
  assumes "RaftFile_inv (p, st)" "faults (kv_persistence st) = []"
    and "set (map fst (kv_entries st)) \<subseteq> {kRaftStateKey}" "small ps"
  shows "\<exists>st'. DurableRaftStorage_save rank p ps st = (Inr (), st') \<and> faults (kv_persistence st') = [] \<and>
    set (map fst (kv_entries st')) \<subseteq> {kRaftStateKey}"
proof -
  let ?es = "insert_or_assign kRaftStateKey (state_bytes ps) (kv_entries st)"
  have "map_ok (kv_entries st)" using assms(1) by (simp add: RaftFile_inv_def durable_def)
  then have es: "?es = [(kRaftStateKey, state_bytes ps)]"
    using assms(3) unfolding map_ok_def
    by (cases "kv_entries st"; cases "tl (kv_entries st)") (auto simp: insert_or_assign_def)
  have "fits_format ?es"
    unfolding es using small_fits [OF assms(4)]
    by (auto simp: fits_format_def kMaximumEntries_def kMaximumFieldBytes_def kRaftStateKey_def)
  from save_returns [OF this assms(2), of rank p] obtain d where "FilePersistence_save rank p ?es (kv_persistence st) = Ret () d"
    by (auto elim!: returnsE)
  then show ?thesis
    using save_faults [OF assms(2), of rank p ?es] es
    by (auto simp: DurableRaftStorage_save_def encode_state_spec [OF conjunct1 [OF small_fits [OF assms(4)]]]
        KvStore_put_def save_and_swap_def)
qed

lemma healthy_save:
  assumes "healthy f" "small ps"
  shows "\<exists>f'. RaftFile_save rank ps f = (Inr (), f') \<and> healthy f'"
proof -
  have "fst (RaftFile_save rank ps f) = Inr () \<and> healthy (snd (RaftFile_save rank ps f))"
    using assms
  proof transfer
    fix f :: "path \<times> DurableRaftStorage" and ps rank
    assume "RaftFile_inv f" "faults (kv_persistence (snd f)) = [] \<and> set (map fst (kv_entries (snd f))) \<subseteq> {kRaftStateKey}"
      "small ps"
    then show "fst (map_prod id (Pair (fst f)) (DurableRaftStorage_save rank (fst f) ps (snd f))) = Inr () \<and>
      faults (kv_persistence (snd (snd (map_prod id (Pair (fst f)) (DurableRaftStorage_save rank (fst f) ps (snd f)))))) = [] \<and>
      set (map fst (kv_entries (snd (snd (map_prod id (Pair (fst f)) (DurableRaftStorage_save rank (fst f) ps (snd f))))))) \<subseteq> {kRaftStateKey}"
      using healthy_save_raw [of "fst f" "snd f" ps rank] by (auto simp del: set_map)
  qed
  then show ?thesis by (metis prod.collapse)
qed

section \<open>Two processes\<close>

definition other :: "NodeId \<Rightarrow> NodeId" where
  "other i = (if i = 1 then 2 else 1)"

definition pair_config :: "NodeId \<Rightarrow> NodeRuntimeConfig" where
  "pair_config i =
     \<lparr> rt_node_id = i, rt_listen_address = ''h:1'', rt_data_directory = ''d'', rt_peers = [(other i, ''h:2'')],
       rt_election_timeout_min = 300, rt_election_timeout_max = 500, rt_heartbeat_interval = 100 \<rparr>"

definition pair_env :: "(RaftFile, u64) RaftEnv" where
  "pair_env = file_env (\<lambda>_ _. 0) (\<lambda>g. g) (\<lambda>lo hi g. (lo, g))"

definition pair_node :: "NodeId \<Rightarrow> RaftFile \<Rightarrow> (RaftFile, u64) RaftNode" where
  "pair_node i f =
     \<lparr> node_config = raft_config (pair_config i), storage = f,
       random = xor (cfg_random_seed (raft_config (pair_config i))) (i * 0x9e3779b97f4a7c15),
       node_state = Follower, current_term = 0, voted_for = None, leader_id = None,
       rlog = [default_log_entry], commit_index = 0, last_applied = 0,
       election_elapsed = 0, election_timeout = 300, heartbeat_elapsed = 0,
       members = {1, 2}, votes_received = {}, next_index = Map.empty,
       match_index = Map.empty, append_request_id = Map.empty, outbox = [], committed_entries = [] \<rparr>"

definition empty_disk :: disk where
  "empty_disk = \<lparr> files = Map.empty, journal = [], faults = [] \<rparr>"

lemma open_empty:
  "p \<noteq> [] \<Longrightarrow> \<exists>f. RaftFile_open no_load_faults p empty_disk = Inr f \<and> healthy f \<and>
     RaftFile_load f = Inr default_persistent_state"
proof transfer
  fix p :: path assume "p \<noteq> []"
  then show "\<exists>f \<in> Collect RaftFile_inv. map_sum id (Pair p) (new_DurableRaftStorage no_load_faults p empty_disk) = Inr f \<and>
      (faults (kv_persistence (snd f)) = [] \<and> set (map fst (kv_entries (snd f))) \<subseteq> {kRaftStateKey}) \<and>
      DurableRaftStorage_load (snd f) = Inr default_persistent_state"
    by (intro bexI [of _ "(p, \<lparr> kv_persistence = empty_disk, kv_entries = [] \<rparr>)"])
      (auto simp: new_DurableRaftStorage_def new_FilePersistence_def new_KvStore_def load_file empty_disk_def
        DurableRaftStorage_load_def KvStore_get_def find_entry_def RaftFile_inv_def durable_def map_ok_def)
qed

section \<open>The operations of the run\<close>

definition stored :: "PersistentState \<Rightarrow> RaftFile \<Rightarrow> RaftFile" where
  "stored ps f = snd (RaftFile_save (\<lambda>_ _. 0) ps f)"

lemma save_stored:
  assumes "healthy f" "small ps"
  shows "RaftFile_save (\<lambda>_ _. 0) ps f = (Inr (), stored ps f)" "healthy (stored ps f)"
  using healthy_save [OF assms, of "\<lambda>_ _. 0"] by (auto simp: stored_def)

lemma pair_env_simps [simp]:
  "storage_load pair_env = RaftFile_load" "storage_save pair_env = RaftFile_save (\<lambda>_ _. 0)"
  "uniform_int pair_env lo hi g = (lo, g)" "seed_engine pair_env g = g"
  by (simp_all add: pair_env_def file_env_def)

lemma pair_raft_config:
  "cfg_node_id (raft_config (pair_config i)) = i" "cfg_peers (raft_config (pair_config i)) = [other i]"
  "cfg_election_timeout_min (raft_config (pair_config i)) = 300"
  "cfg_election_timeout_max (raft_config (pair_config i)) = 500"
  "cfg_heartbeat_interval (raft_config (pair_config i)) = 100"
  by (simp_all add: raft_config_def pair_config_def default_raft_config_def)

lemmas node_defs = pair_node_def pair_raft_config other_def reset_election_timeout_locked_def persist_locked_def
  persistent_part_def small_def send_locked_def quorum_size_locked_def last_log_index_locked_def
  last_log_term_locked_def last_index_def Let_def

definition vote_request :: Message where
  "vote_request = Message 1 2 (RpcRequestVoteRequest (RequestVoteRequest 1 1 0 0))"

definition candidate :: "RaftFile \<Rightarrow> (RaftFile, u64) RaftNode" where
  "candidate f = (pair_node 1 f)\<lparr>node_state := Candidate, current_term := 1, voted_for := Some 1, votes_received := {1}\<rparr>"

lemma candidate_run:
  assumes "healthy f"
  shows "\<exists>f'. healthy f' \<and> tick pair_env (pair_node 1 f) 300 = Ret () ((candidate f')\<lparr>outbox := [vote_request]\<rparr>)"
  using assms
  by (intro exI [of _ "stored \<lparr> ps_current_term = 1, ps_voted_for = Some 1, ps_log = [] \<rparr> f"])
    (simp add: tick_def start_election_locked_def candidate_def vote_request_def node_defs save_stored default_log_entry_def)

definition voter :: "RaftFile \<Rightarrow> (RaftFile, u64) RaftNode" where
  "voter f = (pair_node 2 f)\<lparr>current_term := 1, voted_for := Some 1\<rparr>"

lemma voter_run:
  assumes "healthy f"
  shows "\<exists>f'. healthy f' \<and> handle_request pair_env (pair_node 2 f) vote_request =
    Ret (Some (Message 2 1 (RpcRequestVoteResponse (RequestVoteResponse 1 True)))) (voter f')"
  using assms
  by (intro exI [of _ "stored \<lparr> ps_current_term = 1, ps_voted_for = Some 1, ps_log = [] \<rparr>
        (stored \<lparr> ps_current_term = 1, ps_voted_for = None, ps_log = [] \<rparr> f)"])
    (simp add: handle_request_def step_locked_def become_follower_locked_def handle_request_vote_locked_def
      is_peer_locked_def candidate_log_is_current_locked_def message_term_def voter_def vote_request_def
      node_defs save_stored default_log_entry_def)

text \<open>The leader, with the no-op of its term and the request that replicates it.\<close>

definition append_request :: Message where
  "append_request = Message 1 2 (RpcAppendEntriesRequest (AppendEntriesRequest 1 1 0 0 [LogEntry 1 [] True] 0 1))"

definition leader :: "RaftFile \<Rightarrow> (RaftFile, u64) RaftNode" where
  "leader f = (candidate f)\<lparr>node_state := Leader, leader_id := Some 1, votes_received := {1, 2},
     rlog := [default_log_entry, LogEntry 1 [] True], next_index := [2 \<mapsto> 1], match_index := [2 \<mapsto> 0],
     append_request_id := [2 \<mapsto> 1]\<rparr>"

lemma leader_run:
  assumes "healthy f"
  shows "\<exists>f'. healthy f' \<and>
    step pair_env (candidate f) (Message 2 1 (RpcRequestVoteResponse (RequestVoteResponse 1 True))) =
      Ret True ((leader f')\<lparr>outbox := [append_request]\<rparr>)"
  using assms
  by (intro exI [of _ "stored \<lparr> ps_current_term = 1, ps_voted_for = Some 1, ps_log = [LogEntry 1 [] True] \<rparr> f"])
    (simp add: step_def step_locked_def is_peer_locked_def message_term_def handle_request_vote_response_locked_def
      become_leader_locked_def advance_commit_index_locked_def advance_commit_loop.simps [of _ 1]
      advance_commit_loop.simps [of _ 0] log_at_def map_index_def broadcast_append_entries_locked_def
      send_append_entries_locked_def candidate_def leader_def append_request_def node_defs save_stored
      default_log_entry_def insert_commute)

definition replica :: "RaftFile \<Rightarrow> (RaftFile, u64) RaftNode" where
  "replica f = (voter f)\<lparr>leader_id := Some 1, rlog := [default_log_entry, LogEntry 1 [] True]\<rparr>"

definition append_answer :: Rpc where
  "append_answer = RpcAppendEntriesResponse (AppendEntriesResponse 1 True 1 2 None 1)"

lemma replica_run:
  assumes "healthy f"
  shows "\<exists>f'. healthy f' \<and>
    handle_request pair_env (voter f) append_request = Ret (Some (Message 2 1 append_answer)) (replica f')"
  using assms
  by (intro exI [of _ "stored \<lparr> ps_current_term = 1, ps_voted_for = Some 1, ps_log = [LogEntry 1 [] True] \<rparr> f"])
    (simp add: handle_request_def step_locked_def become_follower_locked_def handle_append_entries_locked_def
      append_and_commit_def is_peer_locked_def message_term_def log_at_def voter_def replica_def append_request_def append_answer_def
      node_defs save_stored default_log_entry_def)

lemma commit_run:
  "\<exists>n. step pair_env (leader f) (Message 2 1 append_answer) = Ret True n \<and> node_state n = Leader \<and>
     current_term n = 1 \<and> commit_index n = 1 \<and> rlog n = [default_log_entry, LogEntry 1 [] True]"
  by (simp add: step_def step_locked_def is_peer_locked_def message_term_def handle_append_entries_response_locked_def
      handle_append_success_def advance_commit_index_locked_def advance_commit_loop.simps [of _ 1]
      apply_committed_entries_locked.simps log_at_def map_index_def broadcast_append_entries_locked_def
      send_append_entries_locked_def candidate_def leader_def append_answer_def node_defs default_log_entry_def)

section \<open>The run\<close>

definition pair_runtime ::
    "NodeId \<Rightarrow> (RaftFile, u64) RaftNode \<Rightarrow> Message list \<Rightarrow> bool \<Rightarrow> (RaftFile, u64) NodeRuntime" where
  "pair_runtime i n queue up =
     \<lparr> nr_config = pair_config i, nr_raft_node = n,
       nr_key_value_store = \<lparr> kv_persistence = empty_disk, kv_entries = [] \<rparr>,
       nr_server = \<lparr> gs_listen_address = ''h:1'', gs_server = up, gs_bound_port = (if up then 1 else 0) \<rparr>,
       nr_peer_clients = [(other i, \<lparr> gc_target = ''h:2'', gc_options = peer_options \<rparr>)],
       nr_running = up, nr_message_queue = queue, nr_ticker = up, nr_workers = (if up then 1 else 0) \<rparr>"

lemma pair_runtime_simps [simp]:
  "nr_raft_node (pair_runtime i n q up) = n" "nr_config (pair_runtime i n q up) = pair_config i"
  "nr_ticker (pair_runtime i n q up) = up" "gs_server (nr_server (pair_runtime i n q up)) = up"
  "0 < nr_workers (pair_runtime i n q up) \<longleftrightarrow> up" "rt_node_id (pair_config i) = i"
  "rt_listen_address (pair_config i) = ''h:1''" "rt_peers (pair_config i) = [(other i, ''h:2'')]"
  "(pair_runtime i n q up)\<lparr>nr_raft_node := n'\<rparr> = pair_runtime i n' q up"
  by (simp_all add: pair_runtime_def pair_config_def)

lemma raft_paths [simp]: "raft_path (pair_config i) = ''d/raft.snapshot''" "kv_path (pair_config i) = ''d/kv.snapshot''"
  by (simp_all add: raft_path_def kv_path_def path_append_def pair_config_def)

lemma pair_new:
  assumes "RaftFile_open no_load_faults ''d/raft.snapshot'' empty_disk = Inr f"
    and "RaftFile_load f = Inr default_persistent_state" "i \<in> {1, 2}"
  shows "new_NodeRuntime (\<lambda>_ _. 0) (\<lambda>g. g) (\<lambda>lo hi g. (lo, g)) no_load_faults no_load_faults empty_disk (pair_config i) =
    Inr (pair_runtime i (pair_node i f) [] False)"
proof -
  have "new_raft_node pair_env (raft_config (pair_config i)) (Some f) = Inr (pair_node i f)"
    using assms(2,3)
    by (auto simp: new_raft_node_def validate_config_def default_persistent_state_def node_defs)
  moreover have "new_GrpcClient ''h:2'' peer_options = Inr \<lparr> gc_target = ''h:2'', gc_options = peer_options \<rparr>"
    by (simp add: new_GrpcClient_def make_channel_def new_GrpcClient_channel_def validate_options_def
        peer_options_def default_options_def)
  ultimately show ?thesis
    using assms(1)
    by (simp add: new_NodeRuntime_def pair_env_def [symmetric] new_FilePersistence_def new_KvStore_def load_file
        pair_runtime_def empty_disk_def)
qed

lemma pair_start:
  "outcome_state (NodeRuntime_start (\<lambda>_. Some 1) (\<lambda>_. None) (pair_runtime i n [] False)) = pair_runtime i n [] True"
  by (simp add: NodeRuntime_start_def start_threads_def GrpcServer_start_def pair_runtime_def)

lemma pair_drain:
  "ticker_drain (pair_runtime i (n\<lparr>outbox := [m]\<rparr>) [] True) = pair_runtime i (n\<lparr>outbox := []\<rparr>) [m] True"
  by (simp add: ticker_drain_def take_messages_def enqueue_messages_def pair_runtime_def)

lemma drained_node: "nr_raft_node (ticker_drain rt) = (nr_raft_node rt)\<lparr>outbox := []\<rparr>"
  by (simp add: ticker_drain_def take_messages_def enqueue_messages_def)

lemma pair_take: "worker_take (pair_runtime i n [m] True) = Some (Some m, pair_runtime i n [] True)"
  by (simp add: worker_take_def pair_runtime_def)

definition pair_system ::
    "(RaftFile, u64) NodeRuntime \<Rightarrow> (RaftFile, u64) NodeRuntime \<Rightarrow> (NodeId \<times> Message) set
     \<Rightarrow> (NodeId \<times> Message \<times> Rpc) set \<Rightarrow> u64 system" where
  "pair_system r1 r2 cl rp = \<lparr> runtimes = (\<lambda>i. if i = 1 then r1 else if i = 2 then r2 else undefined), calls = cl, replies = rp \<rparr>"

lemma pair_system_simps [simp]:
  "runtimes (pair_system r1 r2 cl rp) 1 = r1" "runtimes (pair_system r1 r2 cl rp) 2 = r2"
  "calls (pair_system r1 r2 cl rp) = cl" "replies (pair_system r1 r2 cl rp) = rp"
  "with_runtime (pair_system r1 r2 cl rp) 1 r = pair_system r r2 cl rp"
  "with_runtime (pair_system r1 r2 cl rp) 2 r = pair_system r1 r cl rp"
  "(pair_system r1 r2 cl rp)\<lparr>calls := cl'\<rparr> = pair_system r1 r2 cl' rp"
  "(pair_system r1 r2 cl rp)\<lparr>replies := rp'\<rparr> = pair_system r1 r2 cl rp'"
  by (auto simp: pair_system_def with_runtime_def)

abbreviation pair_step :: "u64 system \<Rightarrow> u64 system \<Rightarrow> bool" where
  "pair_step \<equiv> system_step (\<lambda>_ _. 0) (\<lambda>g. g) (\<lambda>lo hi g. (lo, g)) [1, 2]"

text \<open>The exchange of one message: the ticker drains the outbox, a worker takes the message, it is served, the response is delivered.\<close>

lemma pair_serve:
  assumes "handle_request pair_env n (Message 1 2 r) = Ret (Some (Message 2 1 a)) n'" "node_id n = 2" "sender_ok 1 r"
  shows "serve pair_env on_time r n = Some (Ret (Status OK [], a) n')"
proof -
  have "answers r a" using handle_request_answer [OF assms(1)] by simp
  moreover have "wvq_candidate_id (vote_request_to_wire x) = rvq_candidate_id x"
    "waq_leader_id (append_request_to_wire y) = aeq_leader_id y" for x y
    by (simp_all add: vote_request_to_wire_def append_request_to_wire_def)
  ultimately show ?thesis
    using assms
    by (cases r; cases a) (auto simp: serve_def RaftService_RequestVote_def RaftService_AppendEntries_def run_handler_def
        on_time_def wire_roundtrip)
qed

lemma pair_exchange:
  assumes "handle_request pair_env n2 (Message 1 2 r) = Ret (Some (Message 2 1 a)) n2'" "node_id n2 = 2"
    and "step pair_env (n1\<lparr>outbox := []\<rparr>) (Message 2 1 a) = Ret True n1'" "sender_ok 1 r"
  shows "(pair_step ^^ 4)
    (pair_system (pair_runtime 1 (n1\<lparr>outbox := [Message 1 2 r]\<rparr>) [] True) (pair_runtime 2 n2 [] True) cl rp)
    (pair_system (pair_runtime 1 n1' [] True) (pair_runtime 2 n2' [] True)
       (insert (1, Message 1 2 r) cl) (insert (1, Message 1 2 r, a) rp))"
proof -
  let ?m = "Message 1 2 r" and ?r2 = "pair_runtime 2 n2 [] True" and ?r2' = "pair_runtime 2 n2' [] True"
  let ?n1 = "n1\<lparr>outbox := []\<rparr>"
  let ?cl = "insert (1, ?m) cl" and ?rp = "insert (1, ?m, a) rp"
  have drain: "pair_step (pair_system (pair_runtime 1 (n1\<lparr>outbox := [?m]\<rparr>) [] True) ?r2 cl rp)
      (pair_system (pair_runtime 1 ?n1 [?m] True) ?r2 cl rp)"
    using system_step.drain [where i = 1 and ms = "[1, 2]" and
        s = "pair_system (pair_runtime 1 (n1\<lparr>outbox := [?m]\<rparr>) [] True) ?r2 cl rp"]
    by (simp add: pair_drain)
  have take: "pair_step (pair_system (pair_runtime 1 ?n1 [?m] True) ?r2 cl rp)
      (pair_system (pair_runtime 1 ?n1 [] True) ?r2 ?cl rp)"
    using system_step.take [where i = 1 and ms = "[1, 2]" and m = ?m and rt = "pair_runtime 1 ?n1 [] True" and
        s = "pair_system (pair_runtime 1 ?n1 [?m] True) ?r2 cl rp"]
    by (simp add: pair_take)
  have serve: "pair_step (pair_system (pair_runtime 1 ?n1 [] True) ?r2 ?cl rp)
      (pair_system (pair_runtime 1 ?n1 [] True) ?r2' ?cl ?rp)"
    using system_step.serve [where i = 1 and j = 2 and ms = "[1, 2]" and m = ?m and ctx = on_time and n = n2' and
        rpc = a and status = "Status OK []" and s = "pair_system (pair_runtime 1 ?n1 [] True) ?r2 ?cl rp" and
        rank = "\<lambda>_ _. 0" and seed = "\<lambda>g. g" and draw = "\<lambda>lo hi g. (lo, g)"]
      pair_serve [OF assms(1,2,4)] assms(1,4)
    by (simp add: pair_env_def status_ok_def)
  have answer: "pair_step (pair_system (pair_runtime 1 ?n1 [] True) ?r2' ?cl ?rp)
      (pair_system (pair_runtime 1 n1' [] True) ?r2' ?cl ?rp)"
    using system_step.answer [where i = 1 and ms = "[1, 2]" and m = ?m and rpc = a and rt = "pair_runtime 1 n1' [] True" and
        s = "pair_system (pair_runtime 1 ?n1 [] True) ?r2' ?cl ?rp"] assms(3)
    by (simp add: deliver_response_def pair_env_def)
  show ?thesis
    using drain take serve answer by (auto simp: numeral_eq_Suc intro: relcomppI)
qed

abbreviation pair_reachable :: "nat \<Rightarrow> u64 system \<Rightarrow> bool" where
  "pair_reachable \<equiv> system_reachable (\<lambda>_ _. 0) (\<lambda>g. g) (\<lambda>lo hi g. (lo, g)) [1, 2] pair_config"

lemma system_reachable_steps:
  "(system_step rank seed draw ms ^^ d) s s' \<Longrightarrow> system_reachable rank seed draw ms cs k s \<Longrightarrow>
   system_reachable rank seed draw ms cs (k + d) s'"
  by (induction d arbitrary: s') (auto intro: system_reachable.more)

lemma pair_initial:
  "\<exists>f. healthy f \<and> pair_reachable 0
     (pair_system (pair_runtime 1 (pair_node 1 f) [] False) (pair_runtime 2 (pair_node 2 f) [] False) {} {})"
proof -
  obtain f where f: "RaftFile_open no_load_faults ''d/raft.snapshot'' empty_disk = Inr f" "healthy f"
    "RaftFile_load f = Inr default_persistent_state"
    using open_empty [of "''d/raft.snapshot''"] by auto
  have new: "\<exists>lf1 lf2 d. files d ''d/raft.snapshot'' = None \<and>
      new_NodeRuntime (\<lambda>_ _. 0) (\<lambda>g. g) (\<lambda>lo hi g. (lo, g)) lf1 lf2 d (pair_config i) =
        Inr (pair_runtime i (pair_node i f) [] False)" if "i \<in> {1, 2}" for i
    using pair_new [OF f(1,3) that]
    by (intro exI [of _ no_load_faults] exI [of _ empty_disk]) (simp add: empty_disk_def)
  have "valid_membership [1, 2] (\<lambda>i. raft_config (pair_config i))"
    by (auto simp: valid_membership_def validate_config_def pair_raft_config other_def)
  then have "pair_reachable 0
     (pair_system (pair_runtime 1 (pair_node 1 f) [] False) (pair_runtime 2 (pair_node 2 f) [] False) {} {})"
    using new by (intro system_reachable.first) (simp add: initial_system_def)
  then show ?thesis using f(2) by blast
qed

lemma pair_started:
  "\<exists>f f'. healthy f \<and> healthy f' \<and> pair_reachable 3
     (pair_system (pair_runtime 1 ((candidate f)\<lparr>outbox := [vote_request]\<rparr>) [] True)
        (pair_runtime 2 (pair_node 2 f') [] True) {} {})"
proof -
  obtain f where f: "healthy f" "pair_reachable 0
      (pair_system (pair_runtime 1 (pair_node 1 f) [] False) (pair_runtime 2 (pair_node 2 f) [] False) {} {})"
    using pair_initial by blast
  have s1: "pair_reachable 1 (pair_system (pair_runtime 1 (pair_node 1 f) [] True) (pair_runtime 2 (pair_node 2 f) [] False) {} {})"
    using system_reachable.more [OF f(2) system_step.start [where i = 1 and build = "\<lambda>_. Some 1" and spawn = "\<lambda>_. None"]]
    by (simp add: pair_start)
  have s2: "pair_reachable 2 (pair_system (pair_runtime 1 (pair_node 1 f) [] True) (pair_runtime 2 (pair_node 2 f) [] True) {} {})"
    using system_reachable.more [OF s1 system_step.start [where i = 2 and build = "\<lambda>_. Some 1" and spawn = "\<lambda>_. None"]]
    by (simp add: pair_start numeral_2_eq_2)
  obtain f' where f': "healthy f'"
    "tick pair_env (pair_node 1 f) 300 = Ret () ((candidate f')\<lparr>outbox := [vote_request]\<rparr>)"
    using candidate_run [OF f(1)] by blast
  have "pair_reachable 3 (pair_system (pair_runtime 1 ((candidate f')\<lparr>outbox := [vote_request]\<rparr>) [] True)
      (pair_runtime 2 (pair_node 2 f) [] True) {} {})"
    using system_reachable.more [OF s2 system_step.tick [where i = 1 and elapsed = 300 and
          rt = "pair_runtime 1 ((candidate f')\<lparr>outbox := [vote_request]\<rparr>) [] True"]] f'(2)
    by (simp add: ticker_tick_def pair_env_def numeral_3_eq_3 numeral_2_eq_2)
  then show ?thesis using f(1) f'(1) by blast
qed

lemma node_fields [simp]:
  "node_id (pair_node i f) = i" "node_id (voter f) = 2" "(candidate f)\<lparr>outbox := []\<rparr> = candidate f"
  "(leader f)\<lparr>outbox := []\<rparr> = leader f"
  by (simp_all add: voter_def candidate_def leader_def pair_node_def pair_raft_config)

lemma pair_reached:
  "\<exists>s s'. pair_reachable 11 s \<and> (pair_step ^^ 1) s s' \<and>
     node_state (nr_raft_node (runtimes s 1)) = Leader \<and> current_term (nr_raft_node (runtimes s 1)) = 1 \<and>
     commit_index (nr_raft_node (runtimes s 1)) = 1 \<and> commit_index (nr_raft_node (runtimes s' 1)) = 1 \<and>
     rlog (nr_raft_node (runtimes s' 1)) = [default_log_entry, LogEntry 1 [] True] \<and>
     (1, vote_request) \<in> calls s \<and> (1, append_request, append_answer) \<in> replies s"
proof -
  obtain f g where f: "healthy f" "healthy g" "pair_reachable 3
      (pair_system (pair_runtime 1 ((candidate f)\<lparr>outbox := [vote_request]\<rparr>) [] True)
         (pair_runtime 2 (pair_node 2 g) [] True) {} {})"
    using pair_started by blast
  obtain g1 where g1: "healthy g1" "handle_request pair_env (pair_node 2 g) vote_request =
      Ret (Some (Message 2 1 (RpcRequestVoteResponse (RequestVoteResponse 1 True)))) (voter g1)"
    using voter_run [OF f(2)] by blast
  obtain f1 where f1: "healthy f1"
    "step pair_env (candidate f) (Message 2 1 (RpcRequestVoteResponse (RequestVoteResponse 1 True))) =
      Ret True ((leader f1)\<lparr>outbox := [append_request]\<rparr>)"
    using leader_run [OF f(1)] by blast
  obtain g2 where g2: "handle_request pair_env (voter g1) append_request = Ret (Some (Message 2 1 append_answer)) (replica g2)"
    using replica_run [OF g1(1)] by blast
  obtain n where n: "step pair_env (leader f1) (Message 2 1 append_answer) = Ret True n" "node_state n = Leader"
    "current_term n = 1" "commit_index n = 1" "rlog n = [default_log_entry, LogEntry 1 [] True]"
    using commit_run by blast
  let ?a = "RpcRequestVoteResponse (RequestVoteResponse 1 True)"
  have r7: "pair_reachable (3 + 4) (pair_system (pair_runtime 1 ((leader f1)\<lparr>outbox := [append_request]\<rparr>) [] True)
      (pair_runtime 2 (voter g1) [] True) {(1, vote_request)} {(1, vote_request, ?a)})"
    using system_reachable_steps [OF pair_exchange [where ?n1.0 = "candidate f" and ?n2.0 = "pair_node 2 g" and a = ?a,
          OF g1(2) [unfolded vote_request_def]] f(3) [unfolded vote_request_def]] f1(2)
    by (simp add: vote_request_def)
  have r: "pair_reachable (3 + 4 + 4) (pair_system (pair_runtime 1 n [] True) (pair_runtime 2 (replica g2) [] True)
      {(1, append_request), (1, vote_request)} {(1, append_request, append_answer), (1, vote_request, ?a)})"
    using system_reachable_steps [OF pair_exchange [where ?n1.0 = "leader f1" and ?n2.0 = "voter g1" and a = append_answer,
          OF g2 [unfolded append_request_def]] r7 [unfolded append_request_def]] n(1)
    by (simp add: append_request_def)
  let ?s = "pair_system (pair_runtime 1 n [] True) (pair_runtime 2 (replica g2) [] True)
      {(1, append_request), (1, vote_request)} {(1, append_request, append_answer), (1, vote_request, ?a)}"
  let ?s' = "with_runtime ?s 1 (ticker_drain (runtimes ?s 1))"
  have "pair_step ?s ?s'" by (rule system_step.drain) simp_all
  then have st: "(pair_step ^^ 1) ?s ?s'" by (simp only: relpowp_1)
  show ?thesis
    by (rule exI [of _ ?s], rule exI [of _ ?s'], intro conjI, use r in simp, rule st) (simp_all add: n drained_node)
qed

end
