(* ===== verification/NodeThreads.thy ===== *)
theory NodeThreads
  imports NodeRuntime "HOL-Library.Sublist"
begin

text \<open>
  The threads of \<open>src/node/node_runtime.cpp\<close> from one wait to the next: a worker sends what is on the
  queue, in order and each message once, and a thread that finds the runtime stopped ends.
\<close>

section \<open>The worker\<close>

text \<open>The reference: sending a list of messages one after the other.\<close>

fun send_all ::
    "('st, 'g) RaftEnv \<Rightarrow> 'w stubs \<Rightarrow> Message list \<Rightarrow> ('st, 'g) NodeRuntime \<Rightarrow> 'w
     \<Rightarrow> (unit, ('st, 'g) NodeRuntime) outcome \<times> 'w" where
  "send_all E S [] rt w = (Ret () rt, w)"
| "send_all E S (m # ms) rt w =
     (case send_message E S m rt w of
        (Ret _ rt1, w1) \<Rightarrow> send_all E S ms rt1 w1
      | (Exc e rt1, w1) \<Rightarrow> (Exc e rt1, w1))"

definition with_queue :: "Message list \<Rightarrow> ('a, ('st, 'g) NodeRuntime) outcome \<Rightarrow> ('a, ('st, 'g) NodeRuntime) outcome" where
  "with_queue q r =
     (case r of Ret a rt \<Rightarrow> Ret a (rt\<lparr>nr_message_queue := q\<rparr>) | Exc e rt \<Rightarrow> Exc e (rt\<lparr>nr_message_queue := q\<rparr>))"

lemma with_queue_simps [simp]:
  "with_queue q (Ret a rt) = Ret a (rt\<lparr>nr_message_queue := q\<rparr>)"
  "with_queue q (Exc e rt) = Exc e (rt\<lparr>nr_message_queue := q\<rparr>)"
  by (simp_all add: with_queue_def)

lemma deliver_response_with_queue:
  "deliver_response E peer rpc (rt\<lparr>nr_message_queue := q\<rparr>) = with_queue q (deliver_response E peer rpc rt)"
  by (simp add: deliver_response_def split: outcome.split)

lemma send_message_with_queue:
  "send_message E S m (rt\<lparr>nr_message_queue := q\<rparr>) w = map_prod (with_queue q) id (send_message E S m rt w)"
  by (simp add: send_message_def deliver_response_with_queue split: option.split Rpc.split prod.split sum.split client_error.split)

text \<open>The worker sends the messages of the queue like the reference. What it leaves when a call throws was not sent.\<close>

lemma worker_loop_sends:
  "case send_all E S (nr_message_queue rt) (rt\<lparr>nr_message_queue := []\<rparr>) w of
     (Ret u rt', w') \<Rightarrow> worker_loop E S rt w = (Ret (if nr_running rt then Waiting else Ended) rt', w')
   | (Exc e rt', w') \<Rightarrow> \<exists>q. suffix q (nr_message_queue rt) \<and> worker_loop E S rt w = (with_queue q (Exc e rt'), w')"
proof (induction "nr_message_queue rt" arbitrary: rt w)
  case Nil
  have "rt\<lparr>nr_message_queue := []\<rparr> = rt" using Nil by (metis NodeRuntime.surjective NodeRuntime.update_convs(7))
  then show ?case using Nil [symmetric] by (simp add: worker_loop.simps [of E S rt] worker_take_def)
next
  case (Cons m ms)
  have take: "worker_take rt = Some (Some m, rt\<lparr>nr_message_queue := ms\<rparr>)"
    using Cons.hyps(2) [symmetric] by (simp add: worker_take_def)
  obtain r w1 where s: "send_message E S m (rt\<lparr>nr_message_queue := []\<rparr>) w = (r, w1)" by fastforce
  have s': "send_message E S m (rt\<lparr>nr_message_queue := ms\<rparr>) w = (with_queue ms r, w1)"
    using send_message_with_queue [of E S m ms "rt\<lparr>nr_message_queue := []\<rparr>" w] s by simp
  show ?case
  proof (cases r)
    case (Exc e rt1)
    then show ?thesis
      using s s' take Cons.hyps(2) [symmetric]
      by (auto simp: worker_loop.simps [of E S rt] intro!: exI [of _ ms] suffix_ConsI)
  next
    case (Ret u rt1)
    let ?rt = "rt1\<lparr>nr_message_queue := ms\<rparr>"
    have kept: "nr_message_queue rt1 = []" "nr_running rt1 = nr_running rt"
      using send_message_queue [of E S m "rt\<lparr>nr_message_queue := []\<rparr>" w] s Ret by auto
    have e: "rt1\<lparr>nr_message_queue := []\<rparr> = rt1" using kept(1) by simp
    have "worker_loop E S rt w = worker_loop E S ?rt w1"
      using s' take Ret by (simp add: worker_loop.simps [of E S rt])
    then show ?thesis
      using Cons.hyps(1) [of ?rt w1] s Ret kept e Cons.hyps(2) [symmetric]
      by (auto split: prod.splits outcome.splits intro: suffix_ConsI)
  qed
qed

lemma send_all_queue:
  "nr_message_queue (outcome_state (fst (send_all E S ms rt w))) = nr_message_queue rt"
proof (induction ms arbitrary: rt w)
  case (Cons m ms)
  then show ?case
    using send_message_queue(1) [of E S m rt w] by (auto split: prod.splits outcome.splits)
qed simp

section \<open>The ticker\<close>

lemma ticker_loop_stopped:
  "\<not> nr_running rt \<Longrightarrow> ticker_loop E wakes memory rt = Ret ([], Ended) rt"
  by (simp add: ticker_loop.simps)

lemma ticker_loop_interrupted:
  "nr_running rt \<Longrightarrow> \<not> nr_running (others rt) \<Longrightarrow>
   ticker_loop E ((now, others) # wakes) memory rt = Ret ([], Ended) (others rt)"
  by (simp add: ticker_loop.simps ticker_pass_def split: prod.split)

end
