(* ===== verification/RuntimeGuarantees.thy ===== *)
theory RuntimeGuarantees
  imports RuntimeScenario NodeThreads
begin

text \<open>
  The guarantees of a system of node processes, over the files they really write and through any end
  of a process, also in the middle of a save.
\<close>

section \<open>Refinement\<close>



section \<open>Safety\<close>



section \<open>Exceptions in the threads\<close>



section \<open>A worker and the process it calls\<close>

text \<open>A handler that ran, with whatever status it ended.\<close>

definition served :: "('st, 'g) RaftEnv \<Rightarrow> Rpc \<Rightarrow> ('st, 'g) RaftNode \<Rightarrow> ('st, 'g) RaftNode \<Rightarrow> bool" where
  "served E rpc n n' \<longleftrightarrow> (\<exists>ctx r. serve E ctx rpc n = Some r \<and> n' = outcome_state r)"

lemma checked_call_error:
  assumes "validate_options options = Inr ()" "checked_call name options operation w = (Inl e, w')"
  shows "\<exists>m code attempts. e = GrpcError m code attempts"
  using checked_call_spec [OF assms(1), of operation w name] assms(2)
  by (auto simp: checked_call_def grpc_error_def split: if_splits)

lemma served_call:
  assumes c: "carries server handler (stub target)" "validate_options options = Inr ()"
    and h: "\<And>ctx n. serve E ctx rpc n = Some (and_then (handler ctx q n) (\<lambda>(status, r) n1. Ret (status, to_rpc r) n1))"
    and call: "checked_call name options (\<lambda>t. stub target t q) w = (res, w')"
  shows "(served E rpc)\<^sup>*\<^sup>* (server w) (server w') \<and>
    (\<forall>r k. res = Inr (r, k) \<longrightarrow> (\<exists>n ctx status. (served E rpc)\<^sup>*\<^sup>* (server w) n \<and> status_ok status \<and>
       serve E ctx rpc n = Some (Ret (status, to_rpc r) (server w'))))"
proof (rule carried_call [where server = server and handler = handler and stub = stub and target = target and q = q and I = "\<lambda>n. (served E rpc)\<^sup>*\<^sup>* (server w) n" and P = "\<lambda>r n'. \<exists>n ctx status.
      (served E rpc)\<^sup>*\<^sup>* (server w) n \<and> status_ok status \<and> serve E ctx rpc n = Some (Ret (status, to_rpc r) n')",
      OF c _ _ call])
  fix ctx n
  assume n: "(served E rpc)\<^sup>*\<^sup>* (server w) n"
  have "served E rpc n (outcome_state (handler ctx q n))"
    unfolding served_def using h [of ctx n] by (cases "handler ctx q n") (auto intro!: exI [of _ ctx])
  then have "(served E rpc)\<^sup>*\<^sup>* (server w) (outcome_state (handler ctx q n))"
    using n by (rule rtranclp.rtrancl_into_rtrancl [rotated])
  then show "post (\<lambda>a n'. (served E rpc)\<^sup>*\<^sup>* (server w) n' \<and> (status_ok (fst a) \<longrightarrow> (\<exists>n ctx status.
        (served E rpc)\<^sup>*\<^sup>* (server w) n \<and> status_ok status \<and> serve E ctx rpc n = Some (Ret (status, to_rpc (snd a)) n'))))
      (\<lambda>_ n'. (served E rpc)\<^sup>*\<^sup>* (server w) n') (handler ctx q n)"
    using n h [of ctx n] by (cases "handler ctx q n") (auto intro!: exI [of _ n] exI [of _ ctx])
qed simp


text \<open>The lossy transport in front of a node.\<close>

definition raft_stubs :: "('st, 'g) RaftEnv \<Rightarrow> (('st, 'g) RaftNode \<times> fate list) stubs" where
  "raft_stubs E =
     \<lparr> stub_Get = (\<lambda>target t q w. ((Status UNAVAILABLE [], clear_GetResponse), w)),
       stub_Put = (\<lambda>target t q w. ((Status UNAVAILABLE [], ()), w)),
       stub_Delete = (\<lambda>target t q w. ((Status UNAVAILABLE [], clear_DeleteResponse), w)),
       stub_GetStatus = (\<lambda>target. lossy RaftService_GetStatus clear_NodeStatusResponse),
       stub_RequestVote = (\<lambda>target. lossy (RaftService_RequestVote E) clear_RequestVoteResponse),
       stub_AppendEntries = (\<lambda>target. lossy (RaftService_AppendEntries E) clear_AppendEntriesResponse) \<rparr>"

lemma raft_stubs_carry [simp]:
  "carries fst RaftService_GetStatus (stub_GetStatus (raft_stubs E) target)"
  "carries fst (RaftService_RequestVote E) (stub_RequestVote (raft_stubs E) target)"
  "carries fst (RaftService_AppendEntries E) (stub_AppendEntries (raft_stubs E) target)"
  by (simp_all add: raft_stubs_def lossy_carries)


section \<open>Starting and stopping\<close>

definition stopped :: "('st, 'g) NodeRuntime \<Rightarrow> bool" where
  "stopped rt \<longleftrightarrow> \<not> nr_running rt \<and> \<not> nr_ticker rt \<and> nr_workers rt = 0 \<and> \<not> gs_server (nr_server rt)"

lemma start_threads_spec:
  assumes "stopped rt"
  shows "post
      (\<lambda>line rt'. line = started_line (rt_node_id (nr_config rt)) (snapshot (nr_raft_node rt)) \<and>
         nr_running rt' \<and> nr_ticker rt' \<and> nr_workers rt' = length (rt_peers (nr_config rt)) \<and>
         gs_server (nr_server rt') \<and> nr_raft_node rt' = nr_raft_node rt \<and> nr_config rt' = nr_config rt)
      (\<lambda>e rt'. nr_raft_node rt' = nr_raft_node rt \<and> nr_config rt' = nr_config rt \<and>
         (build (gs_listen_address (nr_server rt)) = None \<or>
          (\<exists>k \<le> length (rt_peers (nr_config rt)). spawn k = Some e)))
      (start_threads build spawn (rt\<lparr>nr_running := True\<rparr>))"
  using assms
  by (auto simp: start_threads_def GrpcServer_start_def stopped_def split: option.split
      intro!: post_mono [OF spawn_workers_spec]) (meson less_imp_le)

lemma rolled_back: "stopped (roll_back rt)"
  by (simp add: roll_back_def join_threads_def stopped_def GrpcServer_shutdown_def)

lemma stop_stopped: "nr_running rt \<or> stopped rt \<Longrightarrow> stopped (NodeRuntime_stop rt)"
  by (auto simp: NodeRuntime_stop_def stopped_def join_threads_def begin_stop_def GrpcServer_shutdown_def)

lemma start_post:
  assumes "stopped rt"
  shows "post (\<lambda>_ rt'. nr_running rt') (\<lambda>_ rt'. stopped rt') (NodeRuntime_start build spawn rt)"
  using start_threads_spec [OF assms, of build spawn] assms
  by (cases "start_threads build spawn (rt\<lparr>nr_running := True\<rparr>)")
    (auto simp: NodeRuntime_start_def rolled_back stopped_def [of rt])





end
