(* ===== verification/CommandLine.thy ===== *)
theory CommandLine
  imports RuntimeGuarantees "HOL-Library.Sublist"
begin

text \<open>
  The program of \<open>src/main.cpp\<close>: the arguments, the probes of a running node and the life of a node
  process from its environment to its exit code.
\<close>

section \<open>Exceptions\<close>

text \<open>\<open>what()\<close> of the exceptions. Undefined behaviour is no exception.\<close>

fun what :: "error \<Rightarrow> string option" where
  "what (InvalidArgument m) = Some m"
| "what (RaftError m) = Some m"
| "what (StorageError m) = Some m"
| "what (LogicError m) = Some m"
| "what (RuntimeError m) = Some m"
| "what OutOfRange = Some ''unordered_map::at''"
| "what UndefinedBehaviour = None"

section \<open>Probes\<close>

definition make_probe_client :: "string \<Rightarrow> client_error + GrpcClient" where
  "make_probe_client target =
     new_GrpcClient target
       (default_options\<lparr>opt_timeout := 500, opt_max_attempts := 2, opt_initial_backoff := 25,
                        opt_maximum_backoff := 50\<rparr>)"

definition print_status :: "NodeSnapshot \<Rightarrow> string" where
  "print_status s =
     ''node_id='' @ decimal (unat (sn_node_id s)) @ '' state='' @ state_name (sn_state s) @
     '' term='' @ decimal (unat (sn_current_term s)) @ '' leader_id='' @
     decimal (unat (case sn_leader_id s of None \<Rightarrow> 0 | Some l \<Rightarrow> l)) @
     '' commit_index='' @ decimal (unat (sn_commit_index s)) @
     '' last_applied='' @ decimal (unat (sn_last_applied s)) @
     '' last_log_index='' @ decimal (unat (sn_last_log_index s)) @ ''\<newline>''"

text \<open>The result is what is printed when the probe succeeds.\<close>

definition run_probe :: "'w stubs \<Rightarrow> string \<Rightarrow> string \<Rightarrow> 'w \<Rightarrow> (error + string) \<times> 'w" where
  "run_probe S mode target w =
     (case make_probe_client target of
        Inl e \<Rightarrow> (Inl (client_exception e), w)
      | Inr client \<Rightarrow>
          (case GrpcClient_status S client w of
             (Inl e, w1) \<Rightarrow> (Inl (client_exception e), w1)
           | (Inr status, w1) \<Rightarrow> (Inr (if mode = ''--status'' then print_status status else []), w1)))"

section \<open>A node process\<close>

text \<open>
  The signal handler sets the flag. \<open>signals k\<close> says whether a signal arrives between the reads \<open>k - 1\<close> and
  \<open>k\<close> of the flag, and \<open>stop_requested signals k\<close> is what the \<open>k\<close>-th read gives.
\<close>

definition request_stop :: "int \<Rightarrow> int" where
  "request_stop flag = 1"

primrec stop_requested :: "(nat \<Rightarrow> bool) \<Rightarrow> nat \<Rightarrow> int" where
  "stop_requested signals 0 = (if signals 0 then request_stop 0 else 0)"
| "stop_requested signals (Suc k) =
     (if signals (Suc k) then request_stop (stop_requested signals k) else stop_requested signals k)"

text \<open>The loop that waits for the flag.\<close>

partial_function (option) wait_for_stop :: "(nat \<Rightarrow> bool) \<Rightarrow> nat \<Rightarrow> nat option" where
  "wait_for_stop signals k = (if stop_requested signals k = 0 then wait_for_stop signals (Suc k) else Some k)"

text \<open>
  What a process is started with, and what happens to it: the environment, the disk, the parameters of
  the node and of the runtime. \<open>activity k\<close> is what the threads of the runtime did and logged until the
  \<open>k\<close>-th read.
\<close>

record 'g process =
  pr_env :: environment
  pr_rank :: hash_order
  pr_seed :: "u64 \<Rightarrow> 'g"
  pr_draw :: "int \<Rightarrow> int \<Rightarrow> 'g \<Rightarrow> int \<times> 'g"
  pr_raft_faults :: load_faults
  pr_kv_faults :: load_faults
  pr_disk :: disk
  pr_build :: "string \<Rightarrow> int option"
  pr_spawn :: "nat \<Rightarrow> error option"
  pr_signals :: "nat \<Rightarrow> bool"
  pr_activity :: "nat \<Rightarrow> (RaftFile, 'g) NodeRuntime \<Rightarrow> string \<times> (RaftFile, 'g) NodeRuntime"

definition make_runtime :: "'g process \<Rightarrow> error + (RaftFile, 'g) NodeRuntime" where
  "make_runtime P =
     bind_sum (from_environment (pr_env P))
       (new_NodeRuntime (pr_rank P) (pr_seed P) (pr_draw P) (pr_raft_faults P) (pr_kv_faults P) (pr_disk P))"

text \<open>
  The result, what was logged, and the runtime when it is destroyed: the destructor stops it, also after
  an exception of \<open>start\<close>.
\<close>

definition run_node :: "'g process \<Rightarrow> ((error + unit) \<times> string \<times> (RaftFile, 'g) NodeRuntime option) option" where
  "run_node P =
     (case make_runtime P of
        Inl e \<Rightarrow> Some (Inl e, [], None)
      | Inr rt \<Rightarrow>
          (case NodeRuntime_start (pr_build P) (pr_spawn P) rt of
             Exc e rt1 \<Rightarrow> Some (Inl e, [], Some (NodeRuntime_destructor rt1))
           | Ret line rt1 \<Rightarrow>
               (case wait_for_stop (pr_signals P) 0 of
                  None \<Rightarrow> None
                | Some k \<Rightarrow>
                    (case pr_activity P k rt1 of
                       (log, rt2) \<Rightarrow>
                         Some (Inr (), line @ log, Some (NodeRuntime_destructor (NodeRuntime_stop rt2)))))))"

section \<open>The program\<close>

text \<open>
  The exit code with what was written to the two streams. There is no result when the process runs on
  forever or its behaviour is undefined.
\<close>

definition exit_failure :: "string \<Rightarrow> error \<Rightarrow> (int \<times> string \<times> string) option" where
  "exit_failure out e = map_option (\<lambda>m. (1, out, ''ftkv_server: '' @ m @ ''\<newline>'')) (what e)"

definition main :: "string \<Rightarrow> 'g process \<Rightarrow> 'w stubs \<Rightarrow> string list \<Rightarrow> 'w \<Rightarrow> (int \<times> string \<times> string) option \<times> 'w" where
  "main version P S argv w =
     (if length argv = 1 then
        (case run_node P of
           None \<Rightarrow> None
         | Some (Inl e, out, _) \<Rightarrow> exit_failure out e
         | Some (Inr _, out, _) \<Rightarrow> Some (0, out, []), w)
      else if length argv = 2 \<and> argv ! 1 = ''--version'' then
        (Some (0, ''ftkv_server '' @ version @ ''\<newline>'', []), w)
      else if length argv = 3 \<and> (argv ! 1 = ''--healthcheck'' \<or> argv ! 1 = ''--status'') then
        (case run_probe S (argv ! 1) (argv ! 2) w of
           (Inl e, w1) \<Rightarrow> (exit_failure [] e, w1)
         | (Inr out, w1) \<Rightarrow> (Some (0, out, []), w1))
      else
        (Some (1, [], ''usage: ftkv_server [--version | --healthcheck TARGET | --status TARGET]\<newline>''), w))"

section \<open>Guarantees\<close>

lemma wait_returns:
  assumes "signals j" "k \<le> j"
  shows "\<exists>i. wait_for_stop signals k = Some i \<and> i \<le> j"
  using assms(2)
proof (induction "j - k" arbitrary: k)
  case 0
  then have "stop_requested signals k \<noteq> 0" using assms(1) by (cases k) (auto simp: request_stop_def)
  then show ?case using 0 by (subst wait_for_stop.simps) simp
next
  case (Suc d)
  then show ?case by (cases "stop_requested signals k = 0") (subst wait_for_stop.simps, simp)+
qed

lemma new_NodeRuntime_stopped: "new_NodeRuntime rank seed draw lf1 lf2 d config = Inr rt \<Longrightarrow> stopped rt"
  by (auto simp: new_NodeRuntime_def bind_sum_Inr stopped_def split: if_splits)


definition demo_process :: "u64 process" where
  "demo_process =
     \<lparr> pr_env = [''FTKV_NODE_ID'' \<mapsto> ''1'', ''FTKV_LISTEN_ADDRESS'' \<mapsto> ''h:1'', ''FTKV_DATA_DIR'' \<mapsto> ''d'',
         ''FTKV_PEERS'' \<mapsto> ''2=h:2''],
       pr_rank = (\<lambda>_ _. 0), pr_seed = (\<lambda>g. g), pr_draw = (\<lambda>lo hi g. (lo, g)),
       pr_raft_faults = no_load_faults, pr_kv_faults = no_load_faults, pr_disk = empty_disk,
       pr_build = (\<lambda>_. Some 1), pr_spawn = (\<lambda>_. None), pr_signals = (\<lambda>k. k = 2),
       pr_activity = (\<lambda>k rt. ([], rt)) \<rparr>"

lemma process_environment: "from_environment (pr_env demo_process) = Inr (pair_config 1)"
  by code_simp

lemma process_runtime: "\<exists>f. make_runtime demo_process = Inr (pair_runtime 1 (pair_node 1 f) [] False)"
proof -
  obtain f where f: "RaftFile_open no_load_faults ''d/raft.snapshot'' empty_disk = Inr f"
    "RaftFile_load f = Inr default_persistent_state"
    using open_empty [of "''d/raft.snapshot''"] by auto
  then show ?thesis
    using pair_new [OF f, of 1] process_environment by (intro exI [of _ f]) (simp add: make_runtime_def demo_process_def)
qed


text \<open>
  C40: The probes report the node behind the target. With \<open>--status\<close> the program prints the line of the
  snapshot of that node and exits with 0, with \<open>--healthcheck\<close> it prints nothing and exits with 0; when
  the node cannot be reached, or the target is empty, it prints one line to the error stream and exits
  with 1. The node is not changed.
\<close>

theorem probe_reports:
  assumes "mode \<in> {''--healthcheck'', ''--status''}"
    and "carries server RaftService_GetStatus (stub_GetStatus S target)"
    and "main version P S [program, mode, target] w = (result, w')"
  shows "server w' = server w \<and>
    (result = Some (0, if mode = ''--status'' then print_status (snapshot (server w)) else [], []) \<or>
     (\<exists>message. result = Some (1, [], ''ftkv_server: '' @ message @ ''\<newline>'')))"
proof (cases "make_probe_client target")
  case (Inl e)
  then show ?thesis
    using assms(1,3) by (auto simp: main_def run_probe_def exit_failure_def make_probe_client_def new_GrpcClient_def
        make_channel_def new_GrpcClient_channel_def validate_options_def default_options_def split: if_splits)
next
  case (Inr client)
  then have client: "gc_target client = target" "validate_options (gc_options client) = Inr ()"
    by (auto simp: make_probe_client_def new_GrpcClient_def make_channel_def new_GrpcClient_channel_def
        validate_options_def default_options_def split: if_splits)
  obtain r w1 where call: "checked_call ''GetStatus'' (gc_options client)
      (\<lambda>t. stub_GetStatus S (gc_target client) t ()) w = (r, w1)" by fastforce
  have status: "server w1 = server w \<and> (\<forall>v k. r = Inr (v, k) \<longrightarrow> v = status_to_wire (snapshot (server w)))"
  proof (rule carried_call [where server = server and stub = "stub_GetStatus S" and target = target and q = "()" and
        I = "\<lambda>n. n = server w" and P = "\<lambda>v n. v = status_to_wire (snapshot (server w))" and w = w and w' = w1 and res = r,
        OF assms(2) client(2) _ refl])
    show "post (\<lambda>a n'. n' = server w \<and> (status_ok (fst a) \<longrightarrow> snd a = status_to_wire (snapshot (server w))))
        (\<lambda>_ n'. n' = server w) (RaftService_GetStatus ctx () n)" if "n = server w" for ctx n
      using that by (simp add: RaftService_GetStatus_def run_handler_def status_ok_def)
    show "checked_call ''GetStatus'' (gc_options client) (\<lambda>t. stub_GetStatus S target t ()) w = (r, w1)"
      using call client(1) by simp
  qed
  show ?thesis
  proof (cases r)
    case (Inl e)
    then obtain m code k where "e = GrpcError m code k" using checked_call_error [OF client(2) call [unfolded Inl]] by blast
    then show ?thesis
      using assms(1,3) Inr Inl call status
      by (auto simp: main_def run_probe_def GrpcClient_status_def exit_failure_def)
  next
    case (Inr vk)
    then obtain k where "r = Inr (status_to_wire (snapshot (server w)), k)" using status by (cases vk) auto
    then have "GrpcClient_status S client w = (Inr (snapshot (server w)), w1)"
      using call by (simp add: GrpcClient_status_def wire_roundtrip)
    then show ?thesis
      using assms(1,3) \<open>make_probe_client target = Inr client\<close> status by (auto simp: main_def run_probe_def)
  qed
qed

theorem probe_reports_witness:
  "\<exists>f out w'. main ''1.0.0'' demo_process (raft_stubs pair_env) [''ftkv_server'', ''--status'', ''h:1'']
       (pair_node 1 f, [RequestLost]) = (Some (0, out, []), w') \<and> out = print_status (snapshot (pair_node 1 f))"
proof -
  fix f
  let ?S = "raft_stubs pair_env" and ?w = "(pair_node 1 f, [RequestLost])"
  obtain result w' where m: "main ''1.0.0'' demo_process ?S [''ftkv_server'', ''--status'', ''h:1''] ?w = (result, w')"
    by (metis surj_pair)
  have "checked_call ''GetStatus'' o1 (\<lambda>t. stub_GetStatus ?S t1 t ()) ?w =
      (Inr (status_to_wire (snapshot (pair_node 1 f)), 2), (pair_node 1 f, []))"
    if "1 < opt_max_attempts o1" for o1 t1
    using checked_call_second [OF that, where w = ?w and name = "''GetStatus''" and
        operation = "\<lambda>t. stub_GetStatus ?S t1 t ()"]
    by (simp add: raft_stubs_def lossy_def is_retryable_def RaftService_GetStatus_def run_handler_def on_time_def)
  then have "\<exists>out. result = Some (0, out, [])"
    using m by (auto simp: main_def run_probe_def make_probe_client_def new_GrpcClient_def make_channel_def
        new_GrpcClient_channel_def validate_options_def default_options_def GrpcClient_status_def wire_roundtrip)
  then show ?thesis
    using probe_reports [where server = fst, OF _ _ m] m by (intro exI [of _ f]) auto
qed

end
