(* ===== verification/Spec2Isabelle.thy ===== *)
theory Spec2Isabelle
  imports RaftProgress StoreGuarantees NodeGuarantees ConfigGuarantees RuntimeGuarantees CommandLine
begin

text \<open>
  A verification development of a fault-tolerant key-value store in C++.

  \<^bold>\<open>The program.\<close> A node process (\<open>src/src/main.cpp\<close>) reads its configuration from the environment and
  owns a runtime (\<open>src/src/node/node_runtime.cpp\<close>). The runtime connects a Raft node
  (\<open>src/src/raft/raft_node.cpp\<close>), whose term, vote and log are kept in a snapshot file, a key-value store
  (\<open>src/src/store\<close>, \<open>src/src/storage/kv_store.cpp\<close>) with a snapshot file of its own, a gRPC server
  (\<open>src/src/grpc/grpc_server.cpp\<close>) that exposes both, and one gRPC client per peer
  (\<open>src/src/grpc/grpc_client.cpp\<close>). A ticker thread drives the timers of the node and moves its messages
  to a queue; worker threads send them and hand the responses back to the node.

  \<^bold>\<open>Foundations.\<close>
  \<^item> \<open>Prelude\<close>: words, the exceptions, outcomes of member functions (the result or the exception, with the
    object in both cases) and the rules for postconditions \<open>post\<close>.
  \<^item> \<open>ByteCodec\<close>, \<open>Decimal\<close>: little-endian integers, \<open>from_chars\<close> and \<open>to_string\<close>.

  \<^bold>\<open>The consensus core.\<close>
  \<^item> \<open>RaftTypes\<close>: \<open>raft.h\<close>, and the contract of a storage as locales: \<open>raft_storage\<close> (a save that throws leaves
    the old or the new state), \<open>atomic_raft_storage\<close> (it leaves the old one), \<open>reliable_raft_storage\<close>.
  \<^item> \<open>RaftNode\<close>: every member function of \<open>raft_node.cpp\<close>, one definition per function, on the record
    \<open>RaftNode\<close>. \<open>RaftNodeFacts\<close>, \<open>NodeStorage\<close>, \<open>NodeInvariant\<close>: frames, storage invariants, bounds.
  \<^item> \<open>RaftSpec\<close>: the abstract protocol over histories of votes, leaders and acknowledgements, for any system
    of intersecting quorums. \<open>RaftCluster\<close>: a cluster of nodes over an unreliable network, in which a node
    stops when an operation throws. \<open>RaftRefinement\<close>, \<open>RaftSimulation\<close>, \<open>RaftAppend\<close>, \<open>RaftClusterInv\<close>: the
    simulation of the protocol by the cluster. \<open>RaftScenario\<close>: an executable schedule.
  \<^item> \<open>RaftSafety\<close> (C1 to C8): agreement of deliveries, one leader and one vote per term, log matching,
    permanence of commits, completeness of leaders, exceptions, restarts.
  \<^item> \<open>RaftElection\<close>, \<open>RaftReplication\<close>, \<open>RaftProgress\<close> (C9): over a storage whose saves return, the members of
    any majority can elect a leader, repair their logs and deliver a command, from every reachable state.
  \<^item> \<open>NodeGuarantees\<close> (C19 to C24): one node against arbitrary messages and failing disks, with the cases in
    which the code falls short.

  \<^bold>\<open>Storage.\<close>
  \<^item> \<open>KeyValueStore\<close>, \<open>FilePersistence\<close>, \<open>KvStore\<close>: the map, the snapshot file with a schedule of faults and
    the journal of the contents of the disk, and the store over them. \<open>StoreGuarantees\<close> (C10 to C15): round
    trips, atomicity, crashes, rejection of damaged files.
  \<^item> \<open>DurableRaftStorage\<close> (C16 to C18): the encoding of the Raft state and its storage. \<open>RaftFile\<close>: that class
    as a type that carries its invariant, and the end of the process in the middle of a save.

  \<^bold>\<open>Processes.\<close>
  \<^item> \<open>NodeConfig\<close>, \<open>ConfigGuarantees\<close> (C25 to C27): the environment variables.
  \<^item> \<open>GrpcTypes\<close>, \<open>GrpcClient\<close>, \<open>GrpcServer\<close>: wire messages, the client with its retry loop, the handlers.
    \<open>RpcGuarantees\<close> (C28 to C32): the retry policy, and remote operations on the store.
  \<^item> \<open>NodeRuntime\<close>: construction, start, stop, the loops of the ticker and of the workers and the atomic actions
    they consist of. \<open>NodeThreads\<close>: one thread between two waits. \<open>RuntimeSystem\<close>: several processes with
    their disks and the calls between them, as a step relation. \<open>RuntimeRefinement\<close>: the system implements the cluster. \<open>RuntimeScenario\<close>: an election and a
    commit between two processes. \<open>RuntimeGuarantees\<close> (C33 to C38): the refinement, safety of the system,
    exceptions in threads, a worker and the process it calls, starting, stopping and the end of the threads.
  \<^item> \<open>CommandLine\<close> (C39, C40): \<open>main.cpp\<close>, its exit codes and streams.

  \<^bold>\<open>Bounds.\<close> Terms and indexes are 64-bit words and wrap as in the code. The cluster theorems hold for
  \<open>k + 3 < 2 ^ 64\<close> steps: \<open>k\<close> steps raise no counter above \<open>k\<close>. C9 bounds its run by the size of the cluster
  and the number of steps so far. No function uses fuel; the loop that waits for a signal may run
  forever and is a partial function.

  \<^bold>\<open>Parameters.\<close> The gRPC library: a call that ends OK ran the handler once and returns what it returned, one
  that ends otherwise ran it or did not (\<open>carries\<close>; the lossy transport is an instance). The iteration
  order of \<open>unordered_map\<close>, the random engine, the results of system calls, the start of the server and of
  threads, the clock, the arrival of signals, the version string.

  \<^bold>\<open>Assumptions of the system.\<close> C9 is about saves that return and about what a majority can do; that the
  timers and the network bring such a run about is not a property of the code. A handler in which a
  save throws is left out of the steps of the system: the server catches the exception and the node
  goes on with a state that is not on disk, and C22 and C23 show what follows. A process that ends finds its Raft file as it left it.

  \<^bold>\<open>Not modelled.\<close> Serialisation by protobuf and everything inside gRPC (generated or third-party code); the
  tests, build and container files; the interleaving of log lines on the output; data races, which the
  mutexes exclude: each critical section is one step. The two files of a process are on one disk but
  are modelled with separate views of it, since no operation touches the file of the other.
\<close>

end
